(* ===== verification/Mazu_Prelude.thy ===== *)
theory Mazu_Prelude
  imports Main "HOL-Library.Word"
begin

text \<open>
  The prelude of the Mazu development: the kernel's base integer types
  (\<^verbatim>\<open>include/mazu/base.h\<close>), its error numbers (\<^verbatim>\<open>include/mazu/errordef.h\<close>), the result
  type every fallible operation returns, and the generic facts on machine words and lists
  that the component theories share.
\<close>

unbundle bit_operations_syntax

section \<open>Base types\<close>

type_synonym u8 = "8 word"
type_synonym u16 = "16 word"
type_synonym u32 = "32 word"
type_synonym u64 = "64 word"

section \<open>Errors\<close>

text \<open>
  The error numbers of \<^verbatim>\<open>errordef.h\<close> that the modelled code returns. The C functions return \<^verbatim>\<open>-(i32) E...\<close> for an error
  and a non-negative value otherwise; the model returns a sum, with the error on the left.
\<close>

datatype errno =
    EPERM | ENOENT | ESRCH | EINTR | EBADF | ECHILD | EAGAIN | ENOMEM | EACCES | EBUSY
  | EEXIST | EINVAL | ENFILE | EMFILE | ENOSPC | ESPIPE | EPIPE | ERANGE | EDEADLK
  | EMSGSIZE | ETIMEDOUT | EOWNERDEAD | ENOTRECOVERABLE | ECANCELED

type_synonym 'a result = "errno + 'a"

text \<open>The outcome of a critical section of an operation that may block: it returns, or it gives up the processor.\<close>

datatype 'a blocking = Done 'a | Block

text \<open>The state of a task, and how far it is on the way from creation to being joined.\<close>

datatype td_state =
    TD_STATE_READY | TD_STATE_RUNNING | TD_STATE_SLEEPING | TD_STATE_SEM_WAIT | TD_STATE_YIELDING | TD_STATE_TERMINATING
  | TD_STATE_BLOCKED | TD_STATE_DL_THROTTLED

datatype td_join_state =
    TD_JOIN_FREE | TD_JOIN_JOINABLE | TD_JOIN_DETACHED | TD_JOIN_EXITED | TD_JOIN_REAPED

section \<open>Bit fields of machine words\<close>

text \<open>
  Words packed from bit fields are compared bit by bit. The collection \<open>bit_fields\<close> reads
  one bit of each shape of expression the packing code writes.
\<close>

named_theorems bit_fields \<open>one bit of a packed or extracted field\<close>

lemma mask_lits:
  "(0xF::'a::len word) = mask 4" "(0x7FF::'a::len word) = mask 11"
  "(0xFF::'a::len word) = mask 8" "(0xFFF::'a::len word) = mask 12"
  "(0xFFFFFFFF::'a::len word) = mask 32"
  by (simp_all add: mask_eq_exp_minus_1)

lemma bit_andmask [bit_fields]: "bit (x AND mask m) n = (n < m \<and> bit (x::'a::len word) n)"
  by (auto simp: bit_simps dest: bit_imp_le_length)

lemma bit_push_ucast [bit_fields]:
  "bit (push_bit k (ucast x :: 'b::len word)) n =
     (k \<le> n \<and> n < LENGTH('b) \<and> bit (x::'a::len word) (n - k))"
  by (auto simp: bit_simps)

lemma bit_flag [bit_fields]:
  "bit (push_bit 0 (if v then 1 else 0) :: 'b::len word) n = (n = 0 \<and> v)"
  by (auto simp: bit_simps)

lemma bit_field [bit_fields]:
  "bit (ucast (drop_bit k w AND mask m) :: 'b::len word) n =
     (n < LENGTH('b) \<and> n < m \<and> bit (w::'a::len word) (k + n))"
  by (auto simp: bit_simps dest: bit_imp_le_length)

lemma bit_ucast_drop [bit_fields]:
  "bit (ucast (drop_bit k w) :: 'b::len word) n =
     (n < LENGTH('b) \<and> bit (w::'a::len word) (k + n))"
  by (auto simp: bit_simps dest: bit_imp_le_length)

lemma and_1_iff: "(w AND 1 \<noteq> (0::'a::len word)) = bit w 0"
  by (simp add: and_one_eq odd_iff_mod_2_eq_one bit_0)

lemma word_bits_eqI:
  assumes "\<And>n. n < LENGTH('a) \<Longrightarrow> bit (x::'a::len word) n = bit y n"
  shows "x = y"
  using assms by (rule bit_word_eqI)

section \<open>Counters\<close>

lemma unat_inc: "Suc (unat (x::'a::len word)) < 2 ^ LENGTH('a) \<Longrightarrow> unat (x + 1) = Suc (unat x)"
  by (simp add: unat_word_ariths(1))

lemma unat_dec: "0 < unat (x::'a::len word) \<Longrightarrow> unat (x - 1) = unat x - 1"
  by (metis One_nat_def Suc_leI unat_1 unat_sub word_le_nat_alt)

lemma word_le_1: "(x::'a::len word) \<le> 1 \<longleftrightarrow> unat x \<le> 1"
  by (simp add: word_le_nat_alt)

lemma unat_shr: "unat (drop_bit n (w::'a::len word)) = unat w div 2 ^ n"
  unfolding unat_drop_bit_eq by (simp add: drop_bit_eq_div)

lemma unat_shl:
  assumes "unat w * 2 ^ n < 2 ^ LENGTH('a)"
  shows "unat (push_bit n (w::'a::len word)) = unat w * 2 ^ n"
  unfolding unsigned_push_bit_eq using assms by (simp add: take_bit_eq_mod push_bit_eq_mult)

lemma unat_ucast_up:
  assumes "LENGTH('a) \<le> LENGTH('b)"
  shows "unat (ucast (w::'a::len word) :: 'b::len word) = unat w"
proof -
  have "unat w < 2 ^ LENGTH('b)"
    using unsigned_less [of w, where ?'a = nat] power_increasing [OF assms, of "2::nat"] by linarith
  then show ?thesis by (simp add: unsigned_ucast_eq take_bit_nat_eq_self)
qed

section \<open>Scanning an array\<close>

text \<open>
  The kernel's pools are fixed arrays scanned by an index loop
  \<^verbatim>\<open>for (i = 0; i < N; i++) if (P(i)) return i;\<close>. An array of \<^verbatim>\<open>N\<close> entries is modelled as a
  function on indices; the loop is \<open>first_index P 0 N\<close>.
\<close>

function first_index :: "(nat \<Rightarrow> bool) \<Rightarrow> nat \<Rightarrow> nat \<Rightarrow> nat option" where
  "first_index P i n =
     (if i < n then (if P i then Some i else first_index P (Suc i) n) else None)"
  by pat_completeness auto
termination by (relation "measure (\<lambda>(P, i, n). n - i)") auto

declare first_index.simps [simp del]

lemma ge_cases: "(\<forall>k. i \<le> k \<and> k < n \<longrightarrow> Q k) \<longleftrightarrow> (i < n \<longrightarrow> Q i \<and> (\<forall>k. Suc i \<le> k \<and> k < n \<longrightarrow> Q k))"
  by (auto simp: Suc_le_eq) (metis le_neq_implies_less)

lemma first_index_Some:
  "first_index P i n = Some j \<Longrightarrow> i \<le> j \<and> j < n \<and> P j \<and> (\<forall>k. i \<le> k \<and> k < j \<longrightarrow> \<not> P k)"
proof (induction P i n rule: first_index.induct)
  case (1 P i n)
  from "1.prems" show ?case
    unfolding first_index.simps [of P i n] ge_cases [of i]
    using "1.IH" by (auto split: if_splits)
qed

lemma first_index_None_iff: "first_index P i n = None \<longleftrightarrow> (\<forall>k. i \<le> k \<and> k < n \<longrightarrow> \<not> P k)"
proof (induction P i n rule: first_index.induct)
  case (1 P i n)
  then show ?case
    unfolding first_index.simps [of P i n] ge_cases [of i] by simp
qed

lemma first_index_SomeD:
  assumes "first_index P i n = Some j"
  shows "j < n" "P j"
  using first_index_Some [OF assms] by auto

lemma first_index_exI:
  assumes "P k" "k < n"
  obtains j where "first_index P 0 n = Some j"
  using assms first_index_None_iff [of P 0 n] by (cases "first_index P 0 n") auto

end
