(* ===== verification/Cap_Word.thy ===== *)
theory Cap_Word
  imports Mazu_Prelude
begin

text \<open>
  The two bit-packed words of the capability system (\<^verbatim>\<open>kernel/proc/cap.c\<close>): the slot word
  stored in a process's capability table, and the 64-bit handle (token) given to user space.
\<close>

section \<open>Slot words\<close>

text \<open>\<^verbatim>\<open>struct cap_slot_view\<close> of \<^verbatim>\<open>include/mazu/cap.h\<close>.\<close>

record cap_slot_view =
  sv_valid :: bool
  sv_slot_index :: u8
  sv_object_index :: u16
  sv_type :: u8
  sv_rights :: u8
  sv_type_meta :: u16
  sv_generation :: u32

definition cap_pack_slot :: "bool \<Rightarrow> u16 \<Rightarrow> u8 \<Rightarrow> u8 \<Rightarrow> u16 \<Rightarrow> u32 \<Rightarrow> u64" where
  "cap_pack_slot vld obj ty rts meta gen =
     push_bit 0 (if vld then 1 else 0)
     OR push_bit 1 (ucast (obj AND 0xFFF))
     OR push_bit 13 (ucast (ty AND 0xF))
     OR push_bit 17 (ucast (rts AND 0xF))
     OR push_bit 21 (ucast (meta AND 0x7FF))
     OR push_bit 32 (ucast gen)"

definition cap_unpack_slot :: "u64 \<Rightarrow> u8 \<Rightarrow> cap_slot_view" where
  "cap_unpack_slot w idx =
     \<lparr>sv_valid = (w AND push_bit 0 1 \<noteq> 0),
      sv_slot_index = idx,
      sv_object_index = ucast (drop_bit 1 w AND 0xFFF),
      sv_type = ucast (drop_bit 13 w AND 0xF),
      sv_rights = ucast (drop_bit 17 w AND 0xF),
      sv_type_meta = ucast (drop_bit 21 w AND 0x7FF),
      sv_generation = ucast (drop_bit 32 w)\<rparr>"

definition cap_next_generation :: "u32 \<Rightarrow> u32" where
  "cap_next_generation gen = gen + 1"

section \<open>Handles\<close>

text \<open>
  \<^verbatim>\<open>cap_make_handle\<close> takes a pointer to a slot view; \<open>None\<close> is the null pointer.
\<close>

definition cap_make_handle :: "cap_slot_view option \<Rightarrow> u64" where
  "cap_make_handle s =
     (case s of
        None \<Rightarrow> 0
      | Some sv \<Rightarrow>
          if \<not> sv_valid sv then 0
          else ucast (sv_generation sv)
               OR push_bit 32 (ucast (sv_type sv))
               OR push_bit 36 (ucast (sv_rights sv))
               OR push_bit 40 (ucast (sv_slot_index sv)))"

text \<open>The fields \<^verbatim>\<open>cap_validate_token_locked\<close> reads out of a token.\<close>

definition token_generation :: "u64 \<Rightarrow> u32" where
  "token_generation token = ucast (token AND 0xFFFFFFFF)"

definition token_type :: "u64 \<Rightarrow> u8" where
  "token_type token = ucast (drop_bit 32 token AND 0xF)"

definition token_rights :: "u64 \<Rightarrow> u8" where
  "token_rights token = ucast (drop_bit 36 token AND 0xF)"

definition token_slot :: "u64 \<Rightarrow> u32" where
  "token_slot token = ucast (drop_bit 40 token AND 0xFF)"

section \<open>The slot word is a faithful encoding\<close>

lemma bit_cap_pack_slot:
  "bit (cap_pack_slot v oi ty ri tm gen) n =
   ((n = 0 \<and> v) \<or> (1 \<le> n \<and> n < 64 \<and> n - 1 < 12 \<and> bit oi (n - 1)) \<or>
    (13 \<le> n \<and> n < 64 \<and> n - 13 < 4 \<and> bit ty (n - 13)) \<or>
    (17 \<le> n \<and> n < 64 \<and> n - 17 < 4 \<and> bit ri (n - 17)) \<or>
    (21 \<le> n \<and> n < 64 \<and> n - 21 < 11 \<and> bit tm (n - 21)) \<or>
    (32 \<le> n \<and> n < 64 \<and> bit gen (n - 32)))"
  unfolding cap_pack_slot_def mask_lits
  by (simp add: bit_or_iff bit_fields bit_1_iff disj_assoc del: push_bit_Suc One_nat_def)

lemma unpack_pack_object: "ucast (drop_bit 1 (cap_pack_slot v oi ty ri tm gen) AND 0xFFF) = oi AND 0xFFF"
  unfolding mask_lits by (rule word_bits_eqI) (auto simp: bit_fields bit_cap_pack_slot)

lemma unpack_pack_type: "ucast (drop_bit 13 (cap_pack_slot v oi ty ri tm gen) AND 0xF) = ty AND 0xF"
  unfolding mask_lits by (rule word_bits_eqI) (auto simp: bit_fields bit_cap_pack_slot)

lemma unpack_pack_rights: "ucast (drop_bit 17 (cap_pack_slot v oi ty ri tm gen) AND 0xF) = ri AND 0xF"
  unfolding mask_lits by (rule word_bits_eqI) (auto simp: bit_fields bit_cap_pack_slot)

lemma unpack_pack_meta: "ucast (drop_bit 21 (cap_pack_slot v oi ty ri tm gen) AND 0x7FF) = tm AND 0x7FF"
  unfolding mask_lits by (rule word_bits_eqI) (auto simp: bit_fields bit_cap_pack_slot)

lemma unpack_pack_generation: "ucast (drop_bit 32 (cap_pack_slot v oi ty ri tm gen)) = gen"
  by (rule word_bits_eqI) (auto simp: bit_fields bit_cap_pack_slot)

lemma unpack_pack_valid: "(cap_pack_slot v oi ty ri tm gen AND 1 \<noteq> 0) = v"
  by (simp add: and_1_iff bit_cap_pack_slot)

lemma cap_unpack_pack [simp]:
  "cap_unpack_slot (cap_pack_slot v oi ty ri tm gen) idx =
   \<lparr>sv_valid = v, sv_slot_index = idx, sv_object_index = oi AND 0xFFF, sv_type = ty AND 0xF,
    sv_rights = ri AND 0xF, sv_type_meta = tm AND 0x7FF, sv_generation = gen\<rparr>"
  using unpack_pack_valid [of v oi ty ri tm gen]
  by (simp add: cap_unpack_slot_def unpack_pack_object unpack_pack_type unpack_pack_rights
      unpack_pack_meta unpack_pack_generation del: One_nat_def)

lemma bit_cap_unpack_slot:
  "sv_valid (cap_unpack_slot w idx) = bit w 0"
  "bit (sv_object_index (cap_unpack_slot w idx)) n = (n < 12 \<and> bit w (1 + n))"
  "bit (sv_type (cap_unpack_slot w idx)) n = (n < 4 \<and> bit w (13 + n))"
  "bit (sv_rights (cap_unpack_slot w idx)) n = (n < 4 \<and> bit w (17 + n))"
  "bit (sv_type_meta (cap_unpack_slot w idx)) n = (n < 11 \<and> bit w (21 + n))"
  "bit (sv_generation (cap_unpack_slot w idx)) n = (n < 32 \<and> bit w (32 + n))"
  unfolding cap_unpack_slot_def mask_lits
  by (auto simp: bit_fields and_1_iff simp del: One_nat_def)

lemma cap_pack_unpack:
  "cap_pack_slot (sv_valid s) (sv_object_index s) (sv_type s) (sv_rights s) (sv_type_meta s) (sv_generation s) = w"
  if "s = cap_unpack_slot w idx"
proof (rule word_bits_eqI)
  fix n :: nat
  assume "n < LENGTH(64)"
  then consider "n = 0" | "1 \<le> n" "n < 13" | "13 \<le> n" "n < 17" | "17 \<le> n" "n < 21"
    | "21 \<le> n" "n < 32" | "32 \<le> n" "n < 64"
    by fastforce
  then show "bit (cap_pack_slot (sv_valid s) (sv_object_index s) (sv_type s) (sv_rights s) (sv_type_meta s)
      (sv_generation s)) n = bit w n"
    unfolding that bit_cap_pack_slot bit_cap_unpack_slot
    by cases (auto simp: less_diff_conv2)
qed

section \<open>Handles determine the fields they were made from\<close>

text \<open>
  A view read from a slot word has a type and rights of four bits: these views are the ones
  handles are made of.
\<close>

definition view_ok :: "cap_slot_view \<Rightarrow> bool" where
  "view_ok s \<longleftrightarrow> sv_type s AND 0xF = sv_type s \<and> sv_rights s AND 0xF = sv_rights s"

lemma view_ok_unpack [simp]: "view_ok (cap_unpack_slot w idx)"
proof -
  have "ucast (x AND mask 4) AND mask 4 = (ucast (x AND mask 4) :: u8)" for x :: u64
    by (rule word_bits_eqI) (auto simp: bit_fields bit_simps)
  then show ?thesis
    unfolding view_ok_def cap_unpack_slot_def mask_lits by simp
qed

lemma view_ok_bits:
  assumes "view_ok s"
  shows "bit (sv_type s) n \<Longrightarrow> n < 4" "bit (sv_rights s) n \<Longrightarrow> n < 4"
  using assms bit_andmask [of "sv_type s" 4 n] bit_andmask [of "sv_rights s" 4 n]
  unfolding view_ok_def mask_lits by auto

lemma bit_cap_make_handle:
  assumes "view_ok s" and "sv_valid s"
  shows "bit (cap_make_handle (Some s)) n =
    (n < 32 \<and> bit (sv_generation s) n \<or>
     32 \<le> n \<and> n < 36 \<and> bit (sv_type s) (n - 32) \<or>
     36 \<le> n \<and> n < 40 \<and> bit (sv_rights s) (n - 36) \<or>
     40 \<le> n \<and> n < 48 \<and> bit (sv_slot_index s) (n - 40))"
proof -
  have "bit (ucast x :: u64) n = (n < 32 \<and> bit x n)" for x :: u32
    by (auto simp: bit_simps dest: bit_imp_le_length)
  moreover have "(32 \<le> n \<and> n < 64 \<and> bit (sv_type s) (n - 32)) =
      (32 \<le> n \<and> n < 36 \<and> bit (sv_type s) (n - 32))"
    using view_ok_bits(1) [OF assms(1), of "n - 32"] by linarith
  moreover have "(36 \<le> n \<and> n < 64 \<and> bit (sv_rights s) (n - 36)) =
      (36 \<le> n \<and> n < 40 \<and> bit (sv_rights s) (n - 36))"
    using view_ok_bits(2) [OF assms(1), of "n - 36"] by linarith
  moreover have "(40 \<le> n \<and> n < 64 \<and> bit (sv_slot_index s) (n - 40)) =
      (40 \<le> n \<and> n < 48 \<and> bit (sv_slot_index s) (n - 40))"
    using bit_imp_le_length [of "sv_slot_index s" "n - 40"] by auto
  ultimately show ?thesis
    using assms(2) by (simp add: cap_make_handle_def bit_or_iff bit_push_ucast)
qed

lemma bit_token_fields [bit_fields]:
  "bit (token_generation t) n = (n < 32 \<and> bit t n)"
  "bit (token_type t) n = (n < 4 \<and> bit t (32 + n))"
  "bit (token_rights t) n = (n < 4 \<and> bit t (36 + n))"
  "bit (token_slot t) n = (n < 8 \<and> bit t (40 + n))"
proof -
  have "bit (ucast (t AND mask 32) :: u32) n = (n < 32 \<and> bit t n)"
    by (auto simp: bit_simps)
  then show "bit (token_generation t) n = (n < 32 \<and> bit t n)"
    unfolding token_generation_def mask_lits .
qed (unfold token_type_def token_rights_def token_slot_def mask_lits, auto simp: bit_fields)

lemma token_fields_of_handle:
  assumes "view_ok s" and "sv_valid s"
  shows "token_generation (cap_make_handle (Some s)) = sv_generation s"
    and "token_type (cap_make_handle (Some s)) = sv_type s"
    and "token_rights (cap_make_handle (Some s)) = sv_rights s"
    and "token_slot (cap_make_handle (Some s)) = ucast (sv_slot_index s)"
  by (rule word_bits_eqI; auto simp: bit_token_fields bit_cap_make_handle [OF assms] bit_unsigned_iff
      dest: view_ok_bits [OF assms(1)] bit_imp_le_length)+

lemma token_fields_mask:
  "token_generation (t AND mask 48) = token_generation t"
  "token_type (t AND mask 48) = token_type t"
  "token_rights (t AND mask 48) = token_rights t"
  "token_slot (t AND mask 48) = token_slot t"
  by (rule word_bits_eqI, auto simp: bit_fields)+

lemma token_matches_iff:
  assumes "view_ok s" and "sv_valid s"
  shows "(token_generation t = sv_generation s \<and> token_type t = sv_type s \<and>
          token_rights t = sv_rights s \<and> token_slot t = ucast (sv_slot_index s)) \<longleftrightarrow>
         t AND mask 48 = cap_make_handle (Some s)"
    (is "?fields \<longleftrightarrow> _")
proof
  assume f: ?fields
  have slot: "bit (sv_slot_index s) n = (n < 8 \<and> bit t (40 + n))" for n
    using arg_cong [of _ _ "\<lambda>w. bit w n", OF f [THEN conjunct2, THEN conjunct2, THEN conjunct2]]
    by (auto simp: bit_token_fields bit_simps dest: bit_imp_le_length)
  show "t AND mask 48 = cap_make_handle (Some s)"
  proof (rule word_bits_eqI)
    fix n :: nat
    assume "n < LENGTH(64)"
    then consider "n < 32" | "32 \<le> n" "n < 36" | "36 \<le> n" "n < 40" | "40 \<le> n" "n < 48"
      | "48 \<le> n" by linarith
    then show "bit (t AND mask 48) n = bit (cap_make_handle (Some s)) n"
      unfolding bit_cap_make_handle [OF assms] bit_andmask slot f [THEN conjunct1, symmetric]
        f [THEN conjunct2, THEN conjunct1, symmetric]
        f [THEN conjunct2, THEN conjunct2, THEN conjunct1, symmetric] bit_token_fields
      by cases (auto simp: less_diff_conv2)
  qed
next
  assume h: "t AND mask 48 = cap_make_handle (Some s)"
  show ?fields
    using token_fields_of_handle [OF assms] unfolding h [symmetric] token_fields_mask by simp
qed

lemma cap_make_handle_small:
  assumes "view_ok s"
  shows "unat (cap_make_handle (Some s)) < 2 ^ 48"
proof -
  have "cap_make_handle (Some s) AND mask 48 = cap_make_handle (Some s)"
  proof (cases "sv_valid s")
    case True
    then show ?thesis
      by (intro word_bits_eqI) (auto simp: bit_andmask bit_cap_make_handle [OF assms])
  qed (simp add: cap_make_handle_def)
  then have "unat (cap_make_handle (Some s)) = unat (cap_make_handle (Some s)) mod 2 ^ 48"
    by (metis take_bit_eq_mask take_bit_eq_mod unsigned_take_bit_eq)
  then show ?thesis
    by (metis mod_less_divisor zero_less_numeral zero_less_power)
qed

end
