(* ===== verification/Ordered_Queue.thy ===== *)
theory Ordered_Queue
  imports Mazu_Prelude "HOL-Library.Multiset"
begin

text \<open>
  The contract of the kernel's ordered lists (armed callouts by deadline, queued messages by
  priority, waiters by priority): insertion walks the list and places the new element before the
  first one that must come after it, so that the list stays ordered and elements of equal rank
  stay in arrival order. Each such list interprets the locale in its own theory.
\<close>

locale ordered_insert =
  fixes before :: "'a \<Rightarrow> 'a \<Rightarrow> bool"
    and ins :: "'a \<Rightarrow> 'a list \<Rightarrow> 'a list"
  assumes before_asym: "before x y \<Longrightarrow> \<not> before y x"
    and before_neg_trans: "\<lbrakk>\<not> before x y; \<not> before y z\<rbrakk> \<Longrightarrow> \<not> before x z"
    and ins_Nil: "ins x [] = [x]"
    and ins_Cons: "ins x (y # ys) = (if before x y then x # y # ys else y # ins x ys)"
begin

abbreviation ordered :: "'a list \<Rightarrow> bool" where
  "ordered \<equiv> sorted_wrt (\<lambda>x y. \<not> before y x)"

abbreviation same_rank :: "'a \<Rightarrow> 'a \<Rightarrow> bool" where
  "same_rank x y \<equiv> \<not> before x y \<and> \<not> before y x"

lemma mset_ins: "mset (ins x xs) = add_mset x (mset xs)"
  by (induction xs) (simp_all add: ins_Nil ins_Cons)

lemma set_ins: "set (ins x xs) = insert x (set xs)"
  by (induction xs) (auto simp: ins_Nil ins_Cons)

lemma length_ins: "length (ins x xs) = Suc (length xs)"
  by (induction xs) (simp_all add: ins_Nil ins_Cons)

lemma distinct_ins: "distinct (ins x xs) \<longleftrightarrow> x \<notin> set xs \<and> distinct xs"
  by (induction xs) (auto simp: ins_Nil ins_Cons set_ins)

lemma before_trans: "before x y \<Longrightarrow> \<not> before z y \<Longrightarrow> before x z"
  using before_neg_trans by blast

lemma ordered_ins: "ordered xs \<Longrightarrow> ordered (ins x xs)"
proof (induction xs)
  case (Cons y ys)
  then show ?case
    using before_asym [of x] before_trans [of x y]
    by (auto simp: ins_Cons set_ins)
qed (simp add: ins_Nil)

text \<open>Among elements of the same rank the new one is last: the list is first-in first-out per rank.\<close>

lemma ins_fifo: "ordered xs \<Longrightarrow> filter (same_rank x) (ins x xs) = filter (same_rank x) xs @ [x]"
proof (induction xs)
  case (Cons y ys)
  show ?case
  proof (cases "before x y")
    case True
    then have "\<forall>z \<in> set (y # ys). before x z"
      using Cons.prems before_trans [of x y] by auto
    then have "filter (same_rank x) (y # ys) = []"
      by (auto simp: filter_empty_conv)
    with True show ?thesis
      using before_asym [of x x] by (auto simp: ins_Cons)
  qed (use Cons in \<open>simp add: ins_Cons\<close>)
qed (use before_asym in \<open>auto simp: ins_Nil\<close>)

lemma ins_others: "(\<And>y. P y \<Longrightarrow> y \<noteq> x) \<Longrightarrow> filter P (ins x xs) = filter P xs"
  by (induction xs) (auto simp: ins_Nil ins_Cons)

lemma ordered_hd: "ordered xs \<Longrightarrow> y \<in> set xs \<Longrightarrow> \<not> before y (hd xs)"
  using before_asym by (cases xs) auto

end

end
