(* ===== verification/Mazu_Time.thy ===== *)
theory Mazu_Time
  imports Mazu_Prelude
begin

text \<open>
  The time base (\<^verbatim>\<open>arch/riscv64/time.c\<close>): the fixed-point conversions between clock ticks and
  milliseconds or microseconds, and the merging of a hart's three deadline sources into the one
  deadline its hardware timer is programmed to. The clock register \<^verbatim>\<open>time\<close> is read outside the
  model: an operation that samples it takes the sample \<open>now\<close> as an argument.
\<close>

section \<open>Fixed-point tick conversion\<close>

record freq_frac =
  ff_mul :: u64
  ff_shift :: int

text \<open>The loop of \<^verbatim>\<open>log2_floor\<close>, with its two local variables.\<close>

function log2_floor_loop :: "u64 \<Rightarrow> int \<Rightarrow> int" where
  "log2_floor_loop x r = (if x > 1 then log2_floor_loop (drop_bit 1 x) (r + 1) else r)"
  by pat_completeness auto
termination
  by (relation "measure (\<lambda>(x, r). unat x)")
    (auto simp: word_less_nat_alt unat_shr simp del: drop_bit_Suc)

declare log2_floor_loop.simps [simp del]

definition log2_floor :: "u64 \<Rightarrow> int" where
  "log2_floor x = log2_floor_loop x 0"

text \<open>\<open>None\<close> is a failed assertion.\<close>

definition freq_frac_init :: "u64 \<Rightarrow> u64 \<Rightarrow> freq_frac option" where
  "freq_frac_init numerator denominator =
     (if \<not> denominator > 0 then None
      else if \<not> numerator > 0 then None
      else let shift = 63 - log2_floor numerator;
               shift = (if shift < 0 then 0 else shift)
        in Some \<lparr>ff_mul = (push_bit (nat shift) numerator + denominator div 2) div denominator,
                 ff_shift = shift\<rparr>)"

definition freq_frac_apply :: "freq_frac \<Rightarrow> u64 \<Rightarrow> u64" where
  "freq_frac_apply ff ticks =
     (let product = (ucast (ff_mul ff) :: 128 word) * ucast ticks;
          product = drop_bit (nat (ff_shift ff)) product
      in if drop_bit 64 product \<noteq> 0 then - 1 else ucast product)"

section \<open>The merged deadline of a hart\<close>

datatype clockevent_mode = CLOCKEVENT_SHUTDOWN | CLOCKEVENT_ONESHOT

text \<open>
  The timer part of \<^verbatim>\<open>struct pcpu\<close>. The extra field \<open>hw_timer\<close> is the compare value last given
  to the firmware by \<^verbatim>\<open>sbi_set_timer\<close>.
\<close>

record pcpu =
  timer_deadline :: u64
  preempt_deadline :: u64
  watchdog_deadline :: u64
  current_deadline :: u64
  nr_timer_writes :: u64
  nr_timer_skips :: u64
  clockevent :: clockevent_mode
  pending_ipis :: u32
  need_resched :: bool
  hw_timer :: u64

definition U64_MAX :: u64 where
  "U64_MAX = 0xFFFFFFFFFFFFFFFF"

definition time_pcpu_merged_deadline :: "pcpu \<Rightarrow> u64" where
  "time_pcpu_merged_deadline pc =
     (let combined = timer_deadline pc;
          combined = (if preempt_deadline pc < combined then preempt_deadline pc else combined);
          combined = (if watchdog_deadline pc < combined then watchdog_deadline pc else combined)
      in combined)"

definition update_pcpu_deadline :: "pcpu \<Rightarrow> pcpu" where
  "update_pcpu_deadline pc =
     (let combined = time_pcpu_merged_deadline pc;
          pc = pc\<lparr>clockevent := (if combined = U64_MAX then CLOCKEVENT_SHUTDOWN else CLOCKEVENT_ONESHOT)\<rparr>
      in if combined \<noteq> current_deadline pc
         then pc\<lparr>current_deadline := combined, hw_timer := combined,
                 nr_timer_writes := nr_timer_writes pc + 1\<rparr>
         else pc\<lparr>nr_timer_skips := nr_timer_skips pc + 1\<rparr>)"

definition time_init_hart :: "pcpu \<Rightarrow> pcpu" where
  "time_init_hart pc =
     pc\<lparr>timer_deadline := U64_MAX, preempt_deadline := U64_MAX, watchdog_deadline := U64_MAX,
        current_deadline := U64_MAX, clockevent := CLOCKEVENT_SHUTDOWN,
        nr_timer_writes := 0, nr_timer_skips := 0, hw_timer := U64_MAX\<rparr>"

text \<open>The part of \<^verbatim>\<open>time_handle_timer_interrupt\<close> before it calls \<^verbatim>\<open>callout_process\<close>.\<close>

definition clear_fired_deadlines :: "u64 \<Rightarrow> pcpu \<Rightarrow> pcpu" where
  "clear_fired_deadlines now pc =
     (let pc = (if timer_deadline pc \<le> now then pc\<lparr>timer_deadline := U64_MAX\<rparr> else pc);
          pc = (if preempt_deadline pc \<le> now then pc\<lparr>preempt_deadline := U64_MAX\<rparr> else pc);
          pc = (if watchdog_deadline pc \<le> now then pc\<lparr>watchdog_deadline := U64_MAX\<rparr> else pc)
      in pc)"

section \<open>The binary logarithm\<close>

lemma log2_floor_loop_bounds:
  assumes "0 < unat x"
  shows "\<exists>k. log2_floor_loop x r = r + int k \<and> 2 ^ k \<le> unat x \<and> unat x < 2 ^ (k + 1)"
  using assms
proof (induction x r rule: log2_floor_loop.induct)
  case (1 x r)
  show ?case
  proof (cases "x > 1")
    case True
    then have half: "unat (drop_bit 1 x) = unat x div 2" and two: "2 \<le> unat x"
      by (auto simp: unat_shr word_less_nat_alt)
    with True "1.IH" obtain k where k: "log2_floor_loop (drop_bit 1 x) (r + 1) = r + 1 + int k"
        "2 ^ k \<le> unat x div 2" "unat x div 2 < 2 ^ (k + 1)"
      by (auto simp: div_greater_zero_iff)
    from k(2,3) have "2 ^ (k + 1) \<le> unat x" "unat x < 2 ^ (k + 2)" by auto
    moreover have "log2_floor_loop x r = r + int (k + 1)"
      using True k(1) by (subst log2_floor_loop.simps) simp
    ultimately show ?thesis by (intro exI [of _ "k + 1"]) simp
  next
    case False
    with "1.prems" have "unat x = 1"
      by (simp add: word_less_nat_alt)
    with False show ?thesis
      by (subst log2_floor_loop.simps) (intro exI [of _ 0], simp)
  qed
qed

lemma log2_floor_bounds:
  assumes "x \<noteq> 0"
  obtains k where "log2_floor x = int k" "2 ^ k \<le> unat x" "unat x < 2 ^ (k + 1)" "k < 64"
proof -
  from assms have "0 < unat x" by (simp add: unat_gt_0)
  with log2_floor_loop_bounds [of x 0] obtain k where k: "log2_floor x = int k"
    "2 ^ k \<le> unat x" "unat x < 2 ^ (k + 1)"
    by (auto simp: log2_floor_def)
  moreover have "(2::nat) ^ k < 2 ^ 64"
    using k(2) unsigned_less [of x, where ?'a = nat] by simp
  then have "k < 64" by (rule power_less_imp_less_exp [rotated]) simp
  ultimately show thesis by (rule that)
qed

section \<open>Accuracy of the conversion\<close>

lemma freq_frac_init_unat:
  assumes "freq_frac_init numerator denominator = Some ff"
  obtains s where "ff_shift ff = int s" "s < 64" "2 ^ 63 \<le> unat numerator * 2 ^ s"
    "unat numerator * 2 ^ s < 2 ^ 64" "0 < unat numerator" "0 < unat denominator"
    "unat numerator * 2 ^ s + unat denominator div 2 < 2 ^ 64 \<Longrightarrow>
     unat (ff_mul ff) = (unat numerator * 2 ^ s + unat denominator div 2) div unat denominator"
proof -
  from assms have pos: "numerator \<noteq> 0" "denominator \<noteq> 0"
    by (auto simp: freq_frac_init_def word_gt_0 split: if_splits)
  obtain k where k: "log2_floor numerator = int k" "2 ^ k \<le> unat numerator"
    "unat numerator < 2 ^ (k + 1)" "k < 64"
    using log2_floor_bounds [OF pos(1)] .
  define s where "s = 63 - k"
  have s: "int s = 63 - int k" "s < 64" "nat (63 - int k) = s" using k(4) by (auto simp: s_def)
  have ks: "k + s = 63" using k(4) by (simp add: s_def)
  have ff: "ff = \<lparr>ff_mul = (push_bit s numerator + denominator div 2) div denominator,
      ff_shift = int s\<rparr>"
    using assms pos k(1,4) s by (auto simp: freq_frac_init_def Let_def split: if_splits)
  have lo: "2 ^ 63 \<le> unat numerator * 2 ^ s"
    using mult_right_mono [OF k(2), of "2 ^ s"] by (simp flip: power_add add: ks)
  have "unat numerator * 2 ^ s < 2 ^ (k + 1) * 2 ^ s"
    using k(3) by simp
  also have "\<dots> = 2 ^ (k + s + 1)"
    by (simp add: power_add)
  finally have hi: "unat numerator * 2 ^ s < 2 ^ 64"
    using ks by simp
  have push: "unat (push_bit s numerator) = unat numerator * 2 ^ s"
    using hi by (simp add: unat_shl)
  have "unat (ff_mul ff) = (unat numerator * 2 ^ s + unat denominator div 2) div unat denominator"
    if "unat numerator * 2 ^ s + unat denominator div 2 < 2 ^ 64"
    using that by (simp add: ff unat_div unat_word_ariths(1) push)
  then show thesis
    using that [of s] ff s(2) lo hi pos by (simp add: unat_gt_0)
qed

lemma freq_frac_apply_unat:
  assumes "ff_shift ff = int s"
  shows "unat (freq_frac_apply ff t) = min (unat (ff_mul ff) * unat t div 2 ^ s) (2 ^ 64 - 1)"
proof -
  let ?m = "unat (ff_mul ff)" and ?t = "unat t"
  let ?p = "(ucast (ff_mul ff) :: 128 word) * ucast t"
  have "?m * ?t < 2 ^ 64 * 2 ^ 64"
    using unsigned_less [of "ff_mul ff", where ?'a = nat] unsigned_less [of t, where ?'a = nat]
    by (intro mult_strict_mono) auto
  then have p: "unat ?p = ?m * ?t"
    by (simp add: unat_word_ariths(2) unat_ucast_up)
  have zero: "drop_bit 64 (drop_bit s ?p) = 0 \<longleftrightarrow> ?m * ?t div 2 ^ s < 2 ^ 64"
    by (simp add: p unat_shr div_less_iff_less_mult div_eq_0_iff power_add flip: unat_eq_zero)
  show ?thesis
  proof (cases "?m * ?t div 2 ^ s < 2 ^ 64")
    case True
    then have "unat (ucast (drop_bit s ?p) :: u64) = ?m * ?t div 2 ^ s"
      by (simp add: p unat_shr unsigned_ucast_eq take_bit_eq_mod)
    with True zero assms show ?thesis
      by (simp add: freq_frac_apply_def)
  next
    case False
    with zero assms show ?thesis
      by (simp add: freq_frac_apply_def Let_def unsigned_minus_1_eq_mask mask_eq_exp_minus_1 min_def)
  qed
qed

lemma fixed_point_error:
  fixes N D P T :: nat
  assumes D: "0 < D" and T: "T \<le> P" and P: "0 < P"
  defines "M \<equiv> (N * P + D div 2) div D"
  shows "M * T div P \<le> N * T div D + 1" "N * T div D \<le> M * T div P + 1"
proof -
  let ?R = "M * T div P" and ?q = "N * T div D"
  have MD_hi: "M * D \<le> N * P + D"
    unfolding M_def using div_times_less_eq_dividend [of "N * P + D div 2" D] by linarith
  have MD_lo: "N * P \<le> M * D + D"
    unfolding M_def using dividend_less_div_times [OF D, of "N * P + D div 2"] by linarith
  show "?R \<le> ?q + 1"
  proof (rule ccontr)
    assume "\<not> ?R \<le> ?q + 1"
    then have "(?q + 2) * P \<le> M * T"
      using div_times_less_eq_dividend [of "M * T" P] mult_right_mono [of "?q + 2" ?R P] by linarith
    then have "(?q + 2) * P * D \<le> M * D * T"
      using mult_right_mono [of "(?q + 2) * P" "M * T" D] by (simp add: ac_simps)
    also have "\<dots> \<le> (N * P + D) * T"
      using MD_hi by (rule mult_right_mono) simp
    also have "\<dots> \<le> N * T * P + D * P"
      using mult_left_mono [OF T, of D] by (simp add: algebra_simps)
    also have "\<dots> < (?q + 1) * D * P + D * P"
      using dividend_less_div_times [OF D, of "N * T"] P by (simp add: ac_simps)
    finally show False by (simp add: algebra_simps)
  qed
  show "?q \<le> ?R + 1"
  proof (rule ccontr)
    assume "\<not> ?q \<le> ?R + 1"
    then have "(?R + 2) * D \<le> N * T"
      using div_times_less_eq_dividend [of "N * T" D] mult_right_mono [of "?R + 2" ?q D] by linarith
    then have "(?R + 2) * D * P \<le> N * P * T"
      using mult_right_mono [of "(?R + 2) * D" "N * T" P] by (simp add: ac_simps)
    also have "\<dots> \<le> (M * D + D) * T"
      using MD_lo by (rule mult_right_mono) simp
    also have "\<dots> \<le> M * T * D + D * P"
      using mult_left_mono [OF T, of D] by (simp add: algebra_simps)
    also have "\<dots> < (?R + 1) * P * D + D * P"
      using dividend_less_div_times [OF P, of "M * T"] D by (simp add: ac_simps)
    finally show False by (simp add: algebra_simps)
  qed
qed

lemma freq_frac_mono:
  assumes "0 \<le> ff_shift ff" and "t \<le> u"
  shows "freq_frac_apply ff t \<le> freq_frac_apply ff u"
proof -
  have s: "ff_shift ff = int (nat (ff_shift ff))" using assms(1) by simp
  show ?thesis
    using assms(2) unfolding word_le_nat_alt freq_frac_apply_unat [OF s]
    by (intro min.mono div_le_mono mult_le_mono2) simp_all
qed

section \<open>The merged deadline\<close>

lemma merged_deadline_min:
  "time_pcpu_merged_deadline pc =
     min (timer_deadline pc) (min (preempt_deadline pc) (watchdog_deadline pc))"
  by (auto simp: time_pcpu_merged_deadline_def Let_def min_def)

text \<open>
  The hart's timer state is in step when the firmware has the current deadline, and the mode says
  whether a deadline is armed.
\<close>

definition deadline_ok :: "pcpu \<Rightarrow> bool" where
  "deadline_ok pc \<longleftrightarrow> hw_timer pc = current_deadline pc \<and>
     current_deadline pc = time_pcpu_merged_deadline pc \<and>
     (clockevent pc = CLOCKEVENT_SHUTDOWN \<longleftrightarrow> current_deadline pc = U64_MAX)"

lemma update_pcpu_deadline_sources [simp]:
  "timer_deadline (update_pcpu_deadline pc) = timer_deadline pc"
  "preempt_deadline (update_pcpu_deadline pc) = preempt_deadline pc"
  "watchdog_deadline (update_pcpu_deadline pc) = watchdog_deadline pc"
  "pending_ipis (update_pcpu_deadline pc) = pending_ipis pc"
  "need_resched (update_pcpu_deadline pc) = need_resched pc"
  by (simp_all add: update_pcpu_deadline_def Let_def)

lemma update_pcpu_deadline_ok:
  "hw_timer pc = current_deadline pc \<Longrightarrow> deadline_ok (update_pcpu_deadline pc)"
  by (auto simp: deadline_ok_def update_pcpu_deadline_def Let_def time_pcpu_merged_deadline_def)

lemma time_init_hart_ok: "deadline_ok (time_init_hart pc)"
  by (simp add: deadline_ok_def time_init_hart_def time_pcpu_merged_deadline_def)

lemma le_U64_MAX [simp]: "x \<le> U64_MAX"
  using unsigned_less [of x, where ?'a = nat] by (simp add: U64_MAX_def word_le_nat_alt)

lemma le_add_bounded: "ticks \<le> U64_MAX - now \<Longrightarrow> now \<le> now + ticks"
proof -
  assume "ticks \<le> U64_MAX - now"
  then have "unat ticks \<le> unat U64_MAX - unat now"
    using unat_sub [OF le_U64_MAX, of now] by (simp add: word_le_nat_alt)
  moreover have "unat U64_MAX = 2 ^ 64 - 1" by (simp add: U64_MAX_def)
  moreover have "unat now \<le> unat U64_MAX" using le_U64_MAX by (simp add: word_le_nat_alt)
  ultimately have "unat now + unat ticks < 2 ^ 64" by simp
  then show ?thesis by (simp add: word_le_nat_alt unat_word_ariths(1))
qed

section \<open>Properties\<close>

text \<open>
  C18: The fixed-point conversion is within one unit of exact division. When the rounded numerator
  fits in 64 bits, converting a count of at most \<open>2 ^ shift\<close> gives a value that differs by at most
  one from the true quotient, and never saturates.
\<close>

theorem freq_frac_accuracy:
  assumes "freq_frac_init numerator denominator = Some ff"
    and "unat numerator * 2 ^ nat (ff_shift ff) + unat denominator div 2 < 2 ^ 64"
    and "unat ticks \<le> 2 ^ nat (ff_shift ff)"
    and q: "q = unat numerator * unat ticks div unat denominator"
  shows "unat (freq_frac_apply ff ticks) \<le> q + 1 \<and> q \<le> unat (freq_frac_apply ff ticks) + 1"
proof -
  obtain s where s: "ff_shift ff = int s" "0 < unat denominator"
    and m: "unat (ff_mul ff) = (unat numerator * 2 ^ s + unat denominator div 2) div unat denominator"
    using freq_frac_init_unat [OF assms(1)] assms(2) by (metis nat_int)
  have "unat (ff_mul ff) * unat ticks div 2 ^ s \<le> unat (ff_mul ff) * 2 ^ s div 2 ^ s"
    using assms(3) s(1) by (intro div_le_mono mult_le_mono2) simp
  also have "\<dots> \<le> 2 ^ 64 - 1"
    using unsigned_less [of "ff_mul ff", where ?'a = nat] by simp
  finally have "unat (freq_frac_apply ff ticks) = unat (ff_mul ff) * unat ticks div 2 ^ s"
    by (simp add: freq_frac_apply_unat [OF s(1)])
  then show ?thesis
    using fixed_point_error [OF s(2), of "unat ticks" "2 ^ s" "unat numerator"] assms(3) s(1)
    by (simp add: m q)
qed

text \<open>With a 10 MHz time base, one second is 1000 milliseconds of 10000 ticks.\<close>

theorem freq_frac_accuracy_witness:
  "\<exists>ff. freq_frac_init 1000 10000000 = Some ff \<and>
     unat (freq_frac_apply ff 10000000) \<le> 1000 + 1 \<and> 1000 \<le> unat (freq_frac_apply ff 10000000) + 1"
proof -
  let ?ff = "\<lparr>ff_mul = 1801439850948, ff_shift = 54\<rparr>"
  have log: "log2_floor 1000 = 9" by code_simp
  have ff: "freq_frac_init 1000 10000000 = Some ?ff"
    unfolding freq_frac_init_def log Let_def by simp
  have "unat (freq_frac_apply ?ff 10000000) \<le> 1000 + 1 \<and> 1000 \<le> unat (freq_frac_apply ?ff 10000000) + 1"
    by (rule freq_frac_accuracy [OF ff]) simp_all
  with ff show ?thesis by blast
qed

end
