(* ===== verification/Callout.thy ===== *)
theory Callout
  imports Ordered_Queue Mazu_Time
begin

text \<open>
  The tickless callout engine (\<^verbatim>\<open>kernel/timer/callout.c\<close>): per-hart lists of one-shot timers,
  sorted by deadline, and the reprogramming of the hart's timer when the head of its list
  changes. A callout is named by its address, a natural number; its list links are not stored in
  it, the list of a hart is a list of callouts. Each operation runs under the hart's callout lock
  with interrupts off and is one atomic step, so the re-check of \<^verbatim>\<open>c->cpu\<close> after taking the lock
  always succeeds. The harts are numbered from 0; \<open>me\<close> is \<^verbatim>\<open>get_cpuid()\<close>.
\<close>

section \<open>State\<close>

text \<open>\<^verbatim>\<open>struct callout\<close>; the bits of \<^verbatim>\<open>flags\<close> are the two booleans.\<close>

record callout =
  co_deadline :: u64
  co_func :: "nat option"
  co_arg :: nat
  co_armed :: bool
  co_running :: bool
  co_cpu :: nat

record callouts =
  callout_of :: "nat \<Rightarrow> callout"
  callout_list :: "nat \<Rightarrow> nat list"
  pcpu_array :: "nat \<Rightarrow> pcpu"
  callout_dispatched :: "nat \<Rightarrow> u64"
  callout_missed :: "nat \<Rightarrow> u64"
  callout_max_late_ticks :: "nat \<Rightarrow> u64"
  callout_late_hist :: "nat \<Rightarrow> nat \<Rightarrow> u64"

abbreviation (input) "IPI_SCHED \<equiv> (1 :: u32)"
abbreviation (input) "IPI_TLB \<equiv> (2 :: u32)"
abbreviation (input) "IPI_TIMER \<equiv> (4 :: u32)"

abbreviation deadline_of :: "callouts \<Rightarrow> nat \<Rightarrow> u64" where
  "deadline_of st c \<equiv> co_deadline (callout_of st c)"

definition upd_callout :: "nat \<Rightarrow> (callout \<Rightarrow> callout) \<Rightarrow> callouts \<Rightarrow> callouts" where
  "upd_callout c f st = st\<lparr>callout_of := (callout_of st)(c := f (callout_of st c))\<rparr>"

definition upd_list :: "nat \<Rightarrow> (nat list \<Rightarrow> nat list) \<Rightarrow> callouts \<Rightarrow> callouts" where
  "upd_list cpu f st = st\<lparr>callout_list := (callout_list st)(cpu := f (callout_list st cpu))\<rparr>"

definition upd_pcpu :: "nat \<Rightarrow> (pcpu \<Rightarrow> pcpu) \<Rightarrow> callouts \<Rightarrow> callouts" where
  "upd_pcpu cpu f st = st\<lparr>pcpu_array := (pcpu_array st)(cpu := f (pcpu_array st cpu))\<rparr>"

section \<open>Inter-processor interrupts\<close>

definition ipi_send :: "nat \<Rightarrow> u32 \<Rightarrow> callouts \<Rightarrow> callouts" where
  "ipi_send cpu ty = upd_pcpu cpu (\<lambda>pc. pc\<lparr>pending_ipis := pending_ipis pc OR ty\<rparr>)"

section \<open>Operations\<close>

definition callout_reprogram_locked :: "nat \<Rightarrow> callouts \<Rightarrow> callouts" where
  "callout_reprogram_locked cpu st =
     upd_pcpu cpu (\<lambda>pc. update_pcpu_deadline
       (pc\<lparr>timer_deadline := (case callout_list st cpu of
             [] \<Rightarrow> U64_MAX
           | head # _ \<Rightarrow> deadline_of st head)\<rparr>)) st"

definition callout_reprogram_local :: "nat \<Rightarrow> callouts \<Rightarrow> callouts" where
  "callout_reprogram_local me = callout_reprogram_locked me"

text \<open>\<^verbatim>\<open>callout_insert_locked\<close>: before the first callout with a later deadline.\<close>

fun callout_insert :: "(nat \<Rightarrow> u64) \<Rightarrow> nat \<Rightarrow> nat list \<Rightarrow> nat list" where
  "callout_insert dl c [] = [c]"
| "callout_insert dl c (cur # rest) =
     (if dl cur > dl c then c # cur # rest else cur # callout_insert dl c rest)"

definition callout_insert_locked :: "nat \<Rightarrow> nat \<Rightarrow> callouts \<Rightarrow> callouts" where
  "callout_insert_locked c cpu st = upd_list cpu (callout_insert (deadline_of st) c) st"

definition callout_init :: "nat \<Rightarrow> callouts \<Rightarrow> callouts" where
  "callout_init c = upd_callout c
     (\<lambda>_. \<lparr>co_deadline = 0, co_func = None, co_arg = 0, co_armed = False, co_running = False,
           co_cpu = 0\<rparr>)"

definition list_head_of :: "'a list \<Rightarrow> 'a option" where
  "list_head_of xs = (case xs of [] \<Rightarrow> None | x # _ \<Rightarrow> Some x)"

definition callout_set_ticks :: "nat \<Rightarrow> u64 \<Rightarrow> nat \<Rightarrow> u64 \<Rightarrow> nat \<Rightarrow> nat \<Rightarrow> callouts \<Rightarrow> callouts" where
  "callout_set_ticks me now c ticks func arg st =
     (let cpu = (if co_armed (callout_of st c) then co_cpu (callout_of st c) else me);
          old_head = list_head_of (callout_list st cpu);
          st = (if co_armed (callout_of st c) then upd_list cpu (remove1 c) st else st);
          st = upd_callout c (\<lambda>co. co
                 \<lparr>co_deadline := (if ticks > U64_MAX - now then U64_MAX else now + ticks),
                  co_func := Some func, co_arg := arg, co_cpu := cpu, co_armed := True\<rparr>) st;
          st = callout_insert_locked c cpu st;
          new_head = list_head_of (callout_list st cpu)
      in if new_head \<noteq> old_head \<or> old_head = Some c
         then if cpu = me then callout_reprogram_locked cpu st else ipi_send cpu IPI_SCHED st
         else st)"

definition callout_set_usec ::
    "(u64 \<Rightarrow> u64) \<Rightarrow> nat \<Rightarrow> u64 \<Rightarrow> nat \<Rightarrow> u64 \<Rightarrow> nat \<Rightarrow> nat \<Rightarrow> callouts \<Rightarrow> callouts" where
  "callout_set_usec time_usec_to_ticks me now c usec func arg =
     callout_set_ticks me now c (time_usec_to_ticks usec) func arg"

definition callout_cancel :: "nat \<Rightarrow> nat \<Rightarrow> callouts \<Rightarrow> callouts" where
  "callout_cancel me c st =
     (if \<not> co_armed (callout_of st c) then st
      else let cpu = co_cpu (callout_of st c);
               was_head = (list_head_of (callout_list st cpu) = Some c);
               st = upd_list cpu (remove1 c) st;
               st = upd_callout c (\<lambda>co. co\<lparr>co_armed := False\<rparr>) st
        in if was_head
           then if cpu = me then callout_reprogram_locked cpu st else ipi_send cpu IPI_TIMER st
           else st)"

text \<open>
  \<^verbatim>\<open>ipi_handle\<close>: the hart takes its pending bits; the reschedule bit only raises
  \<^verbatim>\<open>need_resched\<close>, the timer bit recomputes the deadline from the list. (The TLB fence has no
  counterpart in this state.)
\<close>

definition ipi_handle :: "nat \<Rightarrow> callouts \<Rightarrow> callouts" where
  "ipi_handle me st =
     (let pending = pending_ipis (pcpu_array st me);
          st = upd_pcpu me (\<lambda>pc. pc\<lparr>pending_ipis := 0\<rparr>) st;
          st = (if pending AND IPI_SCHED \<noteq> 0
                then upd_pcpu me (\<lambda>pc. pc\<lparr>need_resched := True\<rparr>) st else st)
      in if pending AND IPI_TIMER \<noteq> 0 then callout_reprogram_local me st else st)"

text \<open>
  \<^verbatim>\<open>callout_process\<close>. One pass of its outer loop collects at most \<^verbatim>\<open>CALLOUT_BATCH\<close> expired callouts
  under the lock, then runs their callbacks without it. A callback is code outside this component:
  \<open>callback\<close> is its effect on the state. The clock is sampled once per pass; \<open>nows\<close> are the samples,
  and running out of them is the value \<open>None\<close>.
\<close>

abbreviation (input) "CALLOUT_BATCH \<equiv> 8 :: nat"

type_synonym batch_entry = "nat \<times> u64 \<times> nat option \<times> nat"

definition callout_pop :: "nat \<Rightarrow> nat \<Rightarrow> callouts \<Rightarrow> callouts" where
  "callout_pop c cpu st =
     upd_callout c (\<lambda>co. co\<lparr>co_armed := False, co_running := True\<rparr>) (upd_list cpu (remove1 c) st)"

fun callout_collect :: "nat \<Rightarrow> u64 \<Rightarrow> nat \<Rightarrow> callouts \<Rightarrow> batch_entry list \<times> callouts" where
  "callout_collect 0 now cpu st = ([], st)"
| "callout_collect (Suc n) now cpu st =
     (case callout_list st cpu of
        [] \<Rightarrow> ([], st)
      | c # _ \<Rightarrow>
          if deadline_of st c > now then ([], st)
          else let co = callout_of st c;
                   (batch, st) = callout_collect n now cpu (callout_pop c cpu st)
            in ((c, co_deadline co, co_func co, co_arg co) # batch, st))"

definition latency_us_to_bin :: "u64 \<Rightarrow> nat" where
  "latency_us_to_bin us =
     (if us \<le> 10 then 0 else if us \<le> 100 then 1 else if us \<le> 1000 then 2
      else if us \<le> 10000 then 3 else if us \<le> 100000 then 4 else 5)"

definition callout_note_late :: "(u64 \<Rightarrow> u64) \<Rightarrow> u64 \<Rightarrow> nat \<Rightarrow> u64 \<Rightarrow> callouts \<Rightarrow> callouts" where
  "callout_note_late time_ticks_to_us now cpu deadline st =
     (let late_ticks = now - deadline;
          st = (if late_ticks > callout_max_late_ticks st cpu
                then st\<lparr>callout_max_late_ticks := (callout_max_late_ticks st)(cpu := late_ticks)\<rparr>
                else st);
          late_us = time_ticks_to_us late_ticks;
          st = (if late_us > 100
                then st\<lparr>callout_missed := (callout_missed st)(cpu := callout_missed st cpu + 1)\<rparr>
                else st);
          b = latency_us_to_bin late_us
      in st\<lparr>callout_late_hist := (callout_late_hist st)
              (cpu := (callout_late_hist st cpu)(b := callout_late_hist st cpu b + 1))\<rparr>)"

definition callout_fire ::
    "(u64 \<Rightarrow> u64) \<Rightarrow> (nat option \<Rightarrow> nat \<Rightarrow> callouts \<Rightarrow> callouts) \<Rightarrow> u64 \<Rightarrow> nat \<Rightarrow> batch_entry \<Rightarrow>
     callouts \<Rightarrow> callouts" where
  "callout_fire time_ticks_to_us callback now cpu e st =
     (case e of (c, deadline, func, arg) \<Rightarrow>
        let st = callout_note_late time_ticks_to_us now cpu deadline st;
            st = callback func arg st;
            st = st\<lparr>callout_dispatched :=
                      (callout_dispatched st)(cpu := callout_dispatched st cpu + 1)\<rparr>
        in upd_callout c (\<lambda>co. co\<lparr>co_running := False\<rparr>) st)"

fun callout_process ::
    "(u64 \<Rightarrow> u64) \<Rightarrow> (nat option \<Rightarrow> nat \<Rightarrow> callouts \<Rightarrow> callouts) \<Rightarrow> nat \<Rightarrow> u64 list \<Rightarrow> callouts \<Rightarrow>
     callouts option" where
  "callout_process time_ticks_to_us callback me [] st = None"
| "callout_process time_ticks_to_us callback me (now # nows) st =
     (case callout_collect CALLOUT_BATCH now me st of
        ([], st) \<Rightarrow> Some (callout_reprogram_locked me st)
      | (batch, st) \<Rightarrow>
          callout_process time_ticks_to_us callback me nows
            (fold (callout_fire time_ticks_to_us callback now me) batch st))"

definition time_handle_timer_interrupt ::
    "(u64 \<Rightarrow> u64) \<Rightarrow> (nat option \<Rightarrow> nat \<Rightarrow> callouts \<Rightarrow> callouts) \<Rightarrow> nat \<Rightarrow> u64 \<Rightarrow> u64 list \<Rightarrow> callouts \<Rightarrow>
     callouts option" where
  "time_handle_timer_interrupt time_ticks_to_us callback me now nows st =
     callout_process time_ticks_to_us callback me nows
       (upd_pcpu me (clear_fired_deadlines now) st)"

definition callout_subsys_init :: "nat \<Rightarrow> callouts \<Rightarrow> callouts" where
  "callout_subsys_init me = upd_list me (\<lambda>_. [])"

definition callout_list_empty :: "nat \<Rightarrow> callouts \<Rightarrow> bool" where
  "callout_list_empty me st \<longleftrightarrow> callout_list st me = []"

section \<open>The lists are sorted by deadline\<close>

interpretation callout_q: ordered_insert "\<lambda>x y. dl x < dl y" "callout_insert dl" for dl :: "nat \<Rightarrow> u64"
  by unfold_locales auto

named_theorems callout_frame \<open>which components an update of the callout state leaves alone\<close>

lemma upd_callout_frame [callout_frame, simp]:
  "callout_list (upd_callout c f st) = callout_list st"
  "pcpu_array (upd_callout c f st) = pcpu_array st"
  "callout_of (upd_callout c f st) = (callout_of st)(c := f (callout_of st c))"
  by (simp_all add: upd_callout_def)

lemma upd_list_frame [callout_frame, simp]:
  "callout_of (upd_list cpu g st) = callout_of st"
  "pcpu_array (upd_list cpu g st) = pcpu_array st"
  "callout_list (upd_list cpu g st) = (callout_list st)(cpu := g (callout_list st cpu))"
  by (simp_all add: upd_list_def)

lemma upd_pcpu_frame [callout_frame, simp]:
  "callout_of (upd_pcpu cpu h st) = callout_of st"
  "callout_list (upd_pcpu cpu h st) = callout_list st"
  "pcpu_array (upd_pcpu cpu h st) = (pcpu_array st)(cpu := h (pcpu_array st cpu))"
  by (simp_all add: upd_pcpu_def)

lemma reprogram_frame [callout_frame, simp]:
  "callout_of (callout_reprogram_locked cpu st) = callout_of st"
  "callout_list (callout_reprogram_locked cpu st) = callout_list st"
  by (simp_all add: callout_reprogram_locked_def)

lemma ipi_send_frame [callout_frame, simp]:
  "callout_of (ipi_send cpu ty st) = callout_of st"
  "callout_list (ipi_send cpu ty st) = callout_list st"
  by (simp_all add: ipi_send_def)

lemma insert_locked_frame [callout_frame, simp]:
  "callout_of (callout_insert_locked c cpu st) = callout_of st"
  "callout_list (callout_insert_locked c cpu st) =
     (callout_list st)(cpu := callout_insert (deadline_of st) c (callout_list st cpu))"
  "pcpu_array (callout_insert_locked c cpu st) = pcpu_array st"
  by (simp_all add: callout_insert_locked_def)

text \<open>
  The invariant: every list is sorted and duplicate-free, and a callout is on the list of a hart
  exactly when it is armed there.
\<close>

definition sorted_by :: "(nat \<Rightarrow> callout) \<Rightarrow> nat list \<Rightarrow> bool" where
  "sorted_by cf xs \<longleftrightarrow> sorted_wrt (\<lambda>x y. co_deadline (cf x) \<le> co_deadline (cf y)) xs"

definition callouts_ok :: "callouts \<Rightarrow> bool" where
  "callouts_ok st \<longleftrightarrow>
     (\<forall>cpu. distinct (callout_list st cpu) \<and> sorted_by (callout_of st) (callout_list st cpu)) \<and>
     (\<forall>c cpu. c \<in> set (callout_list st cpu) \<longleftrightarrow>
        co_armed (callout_of st c) \<and> co_cpu (callout_of st c) = cpu)"

lemma callouts_okD:
  assumes "callouts_ok st"
  shows "distinct (callout_list st cpu)" "sorted_by (callout_of st) (callout_list st cpu)"
    "c \<in> set (callout_list st cpu) \<longleftrightarrow> co_armed (callout_of st c) \<and> co_cpu (callout_of st c) = cpu"
  using assms by (auto simp: callouts_ok_def)

lemma callouts_ok_cong:
  "callout_of st = callout_of st' \<Longrightarrow> callout_list st = callout_list st' \<Longrightarrow>
     callouts_ok st = callouts_ok st'"
  by (simp add: callouts_ok_def)

lemma sorted_by_upd: "c \<notin> set xs \<Longrightarrow> sorted_by (cf(c := co)) xs \<longleftrightarrow> sorted_by cf xs"
  unfolding sorted_by_def by (induction xs) auto

lemma sorted_by_remove1: "sorted_by cf xs \<Longrightarrow> sorted_by cf (remove1 c xs)"
  unfolding sorted_by_def
  by (induction xs) (auto dest: set_remove1_subset [THEN subsetD])

lemma sorted_by_insert:
  "sorted_by cf xs \<Longrightarrow> sorted_by cf (callout_insert (\<lambda>x. co_deadline (cf x)) c xs)"
  unfolding sorted_by_def
  using callout_q.ordered_ins [of "\<lambda>x. co_deadline (cf x)" xs c] by (simp add: not_less)

text \<open>Unlinking a callout and giving it any new contents that are not armed keeps the invariant.\<close>

lemma unlink_ok:
  assumes ok: "callouts_ok st" and off: "\<not> co_armed (f (callout_of st c))"
    and k: "co_armed (callout_of st c) \<Longrightarrow> co_cpu (callout_of st c) = k"
  shows "callouts_ok (upd_callout c f (upd_list k (remove1 c) st))"
proof -
  note D = callouts_okD [OF ok]
  have gone: "c \<notin> set (remove1 c (callout_list st k))" "cpu \<noteq> k \<Longrightarrow> c \<notin> set (callout_list st cpu)" for cpu
    using D(1,3) k by (auto simp: set_remove1_eq)
  show ?thesis
    using D gone off k unfolding callouts_ok_def
    by (auto simp: sorted_by_upd sorted_by_remove1 distinct_remove1 set_remove1_eq)
qed

text \<open>Arming an unlinked callout and inserting it keeps the invariant.\<close>

lemma link_ok:
  assumes ok: "callouts_ok st" and off: "\<not> co_armed (callout_of st c)"
    and f: "co_armed (f (callout_of st c))" "co_cpu (f (callout_of st c)) = k"
  shows "callouts_ok (callout_insert_locked c k (upd_callout c f st))"
proof -
  note D = callouts_okD [OF ok]
  let ?cf = "(callout_of st)(c := f (callout_of st c))"
  have gone: "c \<notin> set (callout_list st cpu)" for cpu
    using D(3) off by auto
  then have sorted: "sorted_by ?cf (callout_list st cpu)" for cpu
    using D(2) by (simp add: sorted_by_upd)
  define xs where "xs = callout_insert (\<lambda>x. co_deadline (?cf x)) c (callout_list st k)"
  have xs: "set xs = insert c (set (callout_list st k))" "distinct xs" "sorted_by ?cf xs"
    using gone D(1) sorted_by_insert [OF sorted]
    by (simp_all add: xs_def callout_q.set_ins callout_q.distinct_ins del: fun_upd_apply)
  have "callout_list (callout_insert_locked c k (upd_callout c f st)) = (callout_list st)(k := xs)"
    by (simp add: xs_def)
  then show ?thesis
    using D gone f xs sorted unfolding callouts_ok_def by simp
qed

section \<open>Arming and cancelling\<close>

text \<open>The list and callout part of \<open>callout_set_ticks\<close>: everything but the reprogramming.\<close>

definition armed_on :: "nat \<Rightarrow> nat \<Rightarrow> callouts \<Rightarrow> nat" where
  "armed_on me c st = (if co_armed (callout_of st c) then co_cpu (callout_of st c) else me)"

definition set_core :: "nat \<Rightarrow> u64 \<Rightarrow> nat \<Rightarrow> u64 \<Rightarrow> nat \<Rightarrow> nat \<Rightarrow> callouts \<Rightarrow> callouts" where
  "set_core me now c ticks func arg st =
     (let cpu = armed_on me c st;
          st = (if co_armed (callout_of st c) then upd_list cpu (remove1 c) st else st);
          st = upd_callout c (\<lambda>co. co
                 \<lparr>co_deadline := (if ticks > U64_MAX - now then U64_MAX else now + ticks),
                  co_func := Some func, co_arg := arg, co_cpu := cpu, co_armed := True\<rparr>) st
      in callout_insert_locked c cpu st)"

lemma callout_set_ticks_core:
  "callout_set_ticks me now c ticks func arg st =
     (let cpu = armed_on me c st;
          old_head = list_head_of (callout_list st cpu);
          st' = set_core me now c ticks func arg st
      in if list_head_of (callout_list st' cpu) \<noteq> old_head \<or> old_head = Some c
         then if cpu = me then callout_reprogram_locked cpu st' else ipi_send cpu IPI_SCHED st'
         else st')"
  by (simp add: callout_set_ticks_def set_core_def armed_on_def Let_def)

lemma set_core_ok:
  assumes "callouts_ok st"
  shows "callouts_ok (set_core me now c ticks func arg st)"
proof (cases "co_armed (callout_of st c)")
  case True
  let ?k = "co_cpu (callout_of st c)"
  let ?st = "upd_callout c (\<lambda>co. co\<lparr>co_armed := False\<rparr>) (upd_list ?k (remove1 c) st)"
  let ?f = "\<lambda>co. co\<lparr>co_deadline := (if ticks > U64_MAX - now then U64_MAX else now + ticks),
      co_func := Some func, co_arg := arg, co_cpu := ?k, co_armed := True\<rparr>"
  have "callouts_ok ?st" using assms by (rule unlink_ok) auto
  then have "callouts_ok (callout_insert_locked c ?k (upd_callout c ?f ?st))"
    by (rule link_ok) auto
  moreover have "set_core me now c ticks func arg st = callout_insert_locked c ?k (upd_callout c ?f ?st)"
    using True by (simp add: set_core_def armed_on_def Let_def upd_callout_def)
  ultimately show ?thesis by simp
next
  case False
  then show ?thesis
    unfolding set_core_def Let_def armed_on_def using assms by (auto intro!: link_ok simp del: insert_locked_frame)
qed

lemma set_core_callout:
  "callout_of (set_core me now c ticks func arg st) = (callout_of st)(c := (callout_of st c)
     \<lparr>co_deadline := (if ticks > U64_MAX - now then U64_MAX else now + ticks),
      co_func := Some func, co_arg := arg, co_cpu := armed_on me c st, co_armed := True\<rparr>)"
  by (simp add: set_core_def Let_def)

lemma set_core_list_other:
  "cpu \<noteq> armed_on me c st \<Longrightarrow> callout_list (set_core me now c ticks func arg st) cpu = callout_list st cpu"
  by (simp add: set_core_def Let_def)

lemma set_core_pcpu: "pcpu_array (set_core me now c ticks func arg st) = pcpu_array st"
  by (simp add: set_core_def Let_def)

lemma set_ticks_frame:
  "callout_of (callout_set_ticks me now c ticks func arg st) = callout_of (set_core me now c ticks func arg st)"
  "callout_list (callout_set_ticks me now c ticks func arg st) = callout_list (set_core me now c ticks func arg st)"
  by (simp_all add: callout_set_ticks_core Let_def)

lemma callout_set_ticks_ok:
  "callouts_ok st \<Longrightarrow> callouts_ok (callout_set_ticks me now c ticks func arg st)"
  using set_core_ok callouts_ok_cong [OF set_ticks_frame] by blast

lemma callout_cancel_frame:
  "callout_of (callout_cancel me c st) = (callout_of st)(c := (callout_of st c)\<lparr>co_armed := False\<rparr>)"
  "callout_list (callout_cancel me c st) = (if co_armed (callout_of st c)
     then (callout_list st)(co_cpu (callout_of st c) := remove1 c (callout_list st (co_cpu (callout_of st c))))
     else callout_list st)"
  by (auto simp: callout_cancel_def Let_def)

lemma callout_cancel_ok: "callouts_ok st \<Longrightarrow> callouts_ok (callout_cancel me c st)"
proof -
  assume ok: "callouts_ok st"
  let ?st = "upd_callout c (\<lambda>co. co\<lparr>co_armed := False\<rparr>) (upd_list (co_cpu (callout_of st c)) (remove1 c) st)"
  have "c \<notin> set (callout_list st (co_cpu (callout_of st c)))" if "\<not> co_armed (callout_of st c)"
    using callouts_okD(3) [OF ok] that by simp
  then have "callout_list (callout_cancel me c st) = callout_list ?st"
    by (auto simp: callout_cancel_frame remove1_idem)
  moreover have "callout_of (callout_cancel me c st) = callout_of ?st"
    by (simp add: callout_cancel_frame)
  moreover have "callouts_ok ?st" using ok by (rule unlink_ok) auto
  ultimately show ?thesis using callouts_ok_cong by blast
qed

section \<open>The hart's timer follows the head of its list\<close>

definition head_deadline :: "nat \<Rightarrow> callouts \<Rightarrow> u64" where
  "head_deadline cpu st =
     (case callout_list st cpu of [] \<Rightarrow> U64_MAX | c # _ \<Rightarrow> deadline_of st c)"

definition in_sync :: "nat \<Rightarrow> callouts \<Rightarrow> bool" where
  "in_sync cpu st \<longleftrightarrow> timer_deadline (pcpu_array st cpu) = head_deadline cpu st"

lemma reprogram_in_sync: "in_sync cpu (callout_reprogram_locked cpu st)"
  by (simp add: in_sync_def head_deadline_def callout_reprogram_locked_def split: list.split)

lemma reprogram_pcpu_other:
  "cpu' \<noteq> cpu \<Longrightarrow> pcpu_array (callout_reprogram_locked cpu st) cpu' = pcpu_array st cpu'"
  by (simp add: callout_reprogram_locked_def)

lemma head_deadline_cong:
  "list_head_of (callout_list st' cpu) = list_head_of (callout_list st cpu) \<Longrightarrow>
   (\<And>c. list_head_of (callout_list st cpu) = Some c \<Longrightarrow> deadline_of st' c = deadline_of st c) \<Longrightarrow>
     head_deadline cpu st' = head_deadline cpu st"
  by (auto simp: head_deadline_def list_head_of_def split: list.splits)

lemma set_ticks_in_sync:
  assumes "in_sync me st" and "armed_on me c st = me"
  shows "in_sync me (callout_set_ticks me now c ticks func arg st)"
proof -
  let ?st = "set_core me now c ticks func arg st"
  show ?thesis
  proof (cases "list_head_of (callout_list ?st me) = list_head_of (callout_list st me) \<and>
      list_head_of (callout_list st me) \<noteq> Some c")
    case True
    then have "head_deadline me ?st = head_deadline me st"
      by (intro head_deadline_cong) (auto simp: set_core_callout)
    with True assms show ?thesis
      by (simp add: callout_set_ticks_core Let_def in_sync_def set_core_pcpu)
  next
    case False
    with assms(2) have "callout_set_ticks me now c ticks func arg st = callout_reprogram_locked me ?st"
      by (auto simp: callout_set_ticks_core Let_def)
    then show ?thesis by (simp add: reprogram_in_sync)
  qed
qed

lemma cancel_not_head_in_sync:
  assumes "in_sync k st" "list_head_of (callout_list st k) \<noteq> Some c \<or> \<not> co_armed (callout_of st c)"
    "co_armed (callout_of st c) \<Longrightarrow> co_cpu (callout_of st c) = k"
  shows "in_sync k (callout_cancel me c st)"
proof (cases "co_armed (callout_of st c)")
  case True
  have "head_deadline k (callout_cancel me c st) = head_deadline k st"
    by (rule head_deadline_cong)
      (use assms(2,3) True in \<open>auto simp: callout_cancel_frame list_head_of_def split: list.splits\<close>)
  with assms True show ?thesis
    by (simp add: in_sync_def callout_cancel_def Let_def)
qed (use assms in \<open>simp add: callout_cancel_def\<close>)

lemma cancel_in_sync:
  assumes "in_sync me st" and "armed_on me c st = me"
  shows "in_sync me (callout_cancel me c st)"
proof (cases "co_armed (callout_of st c) \<and> list_head_of (callout_list st me) = Some c")
  case True
  with assms(2) show ?thesis
    by (simp add: callout_cancel_def armed_on_def Let_def reprogram_in_sync)
next
  case False
  show ?thesis
    by (rule cancel_not_head_in_sync) (use False assms in \<open>auto simp: armed_on_def\<close>)
qed

section \<open>Processing expired callouts\<close>

lemma callout_pop_frame [simp]:
  "pcpu_array (callout_pop c cpu st) = pcpu_array st"
  "callout_list (callout_pop c cpu st) = (callout_list st)(cpu := remove1 c (callout_list st cpu))"
  "deadline_of (callout_pop c cpu st) x = deadline_of st x"
  by (simp_all add: callout_pop_def)

lemma callout_pop_ok:
  assumes "callouts_ok st" "c \<in> set (callout_list st cpu)"
  shows "callouts_ok (callout_pop c cpu st)"
  unfolding callout_pop_def using assms(1)
  by (rule unlink_ok) (use callouts_okD(3) [OF assms(1)] assms(2) in auto)

lemma collect_SucE:
  assumes "callout_collect (Suc n) now cpu st = (batch, st')"
  obtains (stop) "batch = []" "st' = st" "\<And>c cs. callout_list st cpu = c # cs \<Longrightarrow> now < deadline_of st c"
  | (pop) c cs b where "callout_list st cpu = c # cs" "deadline_of st c \<le> now"
      "callout_collect n now cpu (callout_pop c cpu st) = (b, st')"
      "batch = (c, deadline_of st c, co_func (callout_of st c), co_arg (callout_of st c)) # b"
  using assms by (auto simp: Let_def not_less split: list.splits if_splits prod.splits)



lemma collect_ok: "callouts_ok st \<Longrightarrow> callout_collect n now cpu st = (batch, st') \<Longrightarrow> callouts_ok st'"
proof (induction n arbitrary: st batch)
  case (Suc n)
  from Suc.prems(2) show ?case
  proof (cases rule: collect_SucE)
    case (pop c cs b)
    then show ?thesis
      using Suc.IH [OF callout_pop_ok [OF Suc.prems(1)] pop(3)] by simp
  qed (use Suc.prems in simp)
qed simp




lemma callouts_ok_same:
  assumes "callouts_ok st" "callout_list st' = callout_list st"
    "\<And>c. co_deadline (callout_of st' c) = deadline_of st c \<and> co_armed (callout_of st' c) = co_armed (callout_of st c)
       \<and> co_cpu (callout_of st' c) = co_cpu (callout_of st c)"
  shows "callouts_ok st'"
  using assms by (simp add: callouts_ok_def sorted_by_def)

lemma note_late_frame [simp]:
  "callout_of (callout_note_late to_us now cpu d st) = callout_of st"
  "callout_list (callout_note_late to_us now cpu d st) = callout_list st"
  by (simp_all add: callout_note_late_def Let_def)





section \<open>Cross-hart requests\<close>

lemma ipi_handle_frame [simp]:
  "callout_of (ipi_handle me st) = callout_of st" "callout_list (ipi_handle me st) = callout_list st"
  by (simp_all add: ipi_handle_def callout_reprogram_local_def Let_def)

lemma ipi_handle_timer:
  "pending_ipis (pcpu_array st me) AND IPI_TIMER \<noteq> 0 \<Longrightarrow> in_sync me (ipi_handle me st)"
  by (simp add: ipi_handle_def callout_reprogram_local_def Let_def reprogram_in_sync)

lemma ipi_handle_no_timer:
  "pending_ipis (pcpu_array st me) AND IPI_TIMER = 0 \<Longrightarrow>
     timer_deadline (pcpu_array (ipi_handle me st) me) = timer_deadline (pcpu_array st me)"
  by (simp add: ipi_handle_def Let_def)

lemma insert_new_head:
  "(\<And>x. x \<in> set xs \<Longrightarrow> dl c < dl x) \<Longrightarrow> callout_insert dl c xs = c # xs"
  by (cases xs) auto


lemma set_core_new_head:
  assumes "callouts_ok st" "co_armed (callout_of st c)"
    and "deadline_of (set_core me now c ticks func arg st) c < head_deadline (armed_on me c st) st"
  shows "callout_list (set_core me now c ticks func arg st) (armed_on me c st) =
    c # remove1 c (callout_list st (armed_on me c st))"
proof -
  let ?k = "armed_on me c st" and ?st = "set_core me now c ticks func arg st"
  have on: "c \<in> set (callout_list st ?k)" "distinct (callout_list st ?k)"
    using callouts_okD [OF assms(1)] assms(2) by (auto simp: armed_on_def)
  have "deadline_of ?st c < deadline_of ?st x" if "x \<in> set (remove1 c (callout_list st ?k))" for x
  proof -
    from that on have x: "x \<in> set (callout_list st ?k)" "x \<noteq> c" by auto
    then obtain h hs where l: "callout_list st ?k = h # hs" by (cases "callout_list st ?k") auto
    with x callouts_okD(2) [OF assms(1), of ?k] have "deadline_of st h \<le> deadline_of st x"
      by (auto simp: sorted_by_def)
    with assms(3) l x(2) show ?thesis by (simp add: head_deadline_def set_core_callout)
  qed
  then have "callout_insert (deadline_of ?st) c (remove1 c (callout_list st ?k)) = c # remove1 c (callout_list st ?k)"
    by (rule insert_new_head)
  moreover have "callout_list ?st ?k = callout_insert (deadline_of ?st) c (remove1 c (callout_list st ?k))"
    using assms(2) by (simp add: set_core_def Let_def)
  ultimately show ?thesis by simp
qed

lemma remote_set_ticks:
  assumes "armed_on me c st \<noteq> me"
  shows "timer_deadline (pcpu_array (callout_set_ticks me now c ticks func arg st) k) =
      timer_deadline (pcpu_array st k)"
    "pending_ipis (pcpu_array (callout_set_ticks me now c ticks func arg st) k) AND IPI_TIMER =
      pending_ipis (pcpu_array st k) AND IPI_TIMER"
proof -
  have "(w OR 1) AND 4 = w AND (4 :: u32)" for w
    by (rule word_bits_eqI) (auto simp: bit_simps)
  then show "pending_ipis (pcpu_array (callout_set_ticks me now c ticks func arg st) k) AND IPI_TIMER =
      pending_ipis (pcpu_array st k) AND IPI_TIMER"
    using assms by (simp add: callout_set_ticks_core Let_def set_core_pcpu ipi_send_def)
qed (use assms in \<open>simp add: callout_set_ticks_core Let_def set_core_pcpu ipi_send_def\<close>)

lemma ipi_handle_in_sync: "in_sync k st \<Longrightarrow> in_sync k (ipi_handle k st)"
  using ipi_handle_timer [of st k] ipi_handle_no_timer [of st k]
  by (cases "pending_ipis (pcpu_array st k) AND IPI_TIMER = 0")
    (simp_all add: in_sync_def head_deadline_def cong: list.case_cong)

lemma remote_cancel:
  assumes "in_sync k st" "armed_on me c st = k" "k \<noteq> me"
  shows "in_sync k (ipi_handle k (callout_cancel me c st))"
proof (cases "co_armed (callout_of st c) \<and> list_head_of (callout_list st k) = Some c")
  case True
  have "(w OR 4) AND 4 = (4 :: u32)" for w :: u32
    by (rule word_bits_eqI) (auto simp: bit_simps)
  with True assms(2,3) show ?thesis
    by (intro ipi_handle_timer) (simp add: callout_cancel_def armed_on_def Let_def ipi_send_def)
next
  case False
  with assms show ?thesis
    by (intro ipi_handle_in_sync cancel_not_head_in_sync) (auto simp: armed_on_def split: if_splits)
qed

section \<open>Runs of the engine\<close>

inductive callout_step :: "callouts \<Rightarrow> callouts \<Rightarrow> bool" where
  step_set: "callout_step st (callout_set_ticks me now c ticks func arg st)"
| step_cancel: "callout_step st (callout_cancel me c st)"
| step_ipi: "callout_step st (ipi_handle me st)"
| step_reprogram: "callout_step st (callout_reprogram_local me st)"
| step_collect: "callout_collect n now me st = (batch, st') \<Longrightarrow> callout_step st st'"
| step_done: "callout_step st (upd_callout c (\<lambda>co. co\<lparr>co_running := False\<rparr>) st)"

inductive_cases callout_stepE: "callout_step st st'"

lemma callout_step_ok: "callout_step st st' \<Longrightarrow> callouts_ok st \<Longrightarrow> callouts_ok st'"
proof (erule callout_stepE, goal_cases)
  case (3 me)
  then show ?case using callouts_ok_cong [of st' st] by simp
next
  case (4 me)
  then show ?case using callouts_ok_cong [of st' st] by (simp add: callout_reprogram_local_def)
next
  case (6 c)
  then show ?case using callouts_ok_same [of st st'] by simp
qed (auto intro: callout_set_ticks_ok callout_cancel_ok collect_ok)

lemma callout_steps_ok: "callout_step\<^sup>*\<^sup>* st st' \<Longrightarrow> callouts_ok st \<Longrightarrow> callouts_ok st'"
  by (induction rule: rtranclp_induct) (auto intro: callout_step_ok)

section \<open>Properties\<close>

text \<open>A hart is served when its timer follows its list and the firmware has the merged deadline.\<close>

definition hart_ok :: "nat \<Rightarrow> callouts \<Rightarrow> bool" where
  "hart_ok cpu st \<longleftrightarrow> in_sync cpu st \<and> deadline_ok (pcpu_array st cpu)"

lemma hart_ok_reprogram:
  "deadline_ok (pcpu_array st cpu) \<Longrightarrow> hart_ok cpu (callout_reprogram_locked cpu st)"
proof -
  assume "deadline_ok (pcpu_array st cpu)"
  then have "deadline_ok (update_pcpu_deadline (pcpu_array st cpu\<lparr>timer_deadline := d\<rparr>))" for d
    by (intro update_pcpu_deadline_ok) (simp add: deadline_ok_def)
  then show ?thesis
    using reprogram_in_sync [of cpu st] by (simp add: hart_ok_def callout_reprogram_locked_def)
qed


lemma set_ticks_hart_ok:
  assumes "hart_ok me st" "armed_on me c st = me"
  shows "hart_ok me (callout_set_ticks me now c ticks func arg st)"
  using set_ticks_in_sync [of me st c now ticks func arg] assms
    hart_ok_reprogram [of "set_core me now c ticks func arg st" me]
  by (auto simp: hart_ok_def callout_set_ticks_core Let_def set_core_pcpu split: if_splits)

text \<open>A state with two harts whose lists are empty and whose timers are initialised.\<close>

definition idle_callout :: callout where
  "idle_callout = \<lparr>co_deadline = 0, co_func = None, co_arg = 0, co_armed = False, co_running = False,
     co_cpu = 0\<rparr>"

definition idle_pcpu :: pcpu where
  "idle_pcpu = \<lparr>timer_deadline = U64_MAX, preempt_deadline = U64_MAX, watchdog_deadline = U64_MAX,
     current_deadline = U64_MAX, nr_timer_writes = 0, nr_timer_skips = 0,
     clockevent = CLOCKEVENT_SHUTDOWN, pending_ipis = 0, need_resched = False, hw_timer = U64_MAX\<rparr>"

definition idle_callouts :: callouts where
  "idle_callouts = \<lparr>callout_of = (\<lambda>_. idle_callout), callout_list = (\<lambda>_. []),
     pcpu_array = (\<lambda>_. idle_pcpu), callout_dispatched = (\<lambda>_. 0), callout_missed = (\<lambda>_. 0),
     callout_max_late_ticks = (\<lambda>_. 0), callout_late_hist = (\<lambda>_ _. 0)\<rparr>"

lemma idle_callouts_ok: "callouts_ok idle_callouts" "hart_ok cpu idle_callouts"
  by (simp_all add: callouts_ok_def idle_callouts_def idle_callout_def sorted_by_def hart_ok_def in_sync_def
      head_deadline_def deadline_ok_def idle_pcpu_def time_pcpu_merged_deadline_def)

text \<open>Callout 7 armed on hart 1 for tick 100.\<close>

definition armed_callouts :: callouts where
  "armed_callouts = callout_set_ticks 1 0 7 100 3 0 idle_callouts"

lemma armed_callouts_facts:
  "callouts_ok armed_callouts" "hart_ok 1 armed_callouts" "armed_on 0 7 armed_callouts = 1"
  "co_armed (callout_of armed_callouts 7)" "deadline_of armed_callouts 7 = 100"
  "callout_list armed_callouts 1 = [7]" "pending_ipis (pcpu_array armed_callouts 1) = 0"
proof -
  have *: "armed_on 1 7 idle_callouts = 1" by (simp add: armed_on_def idle_callouts_def idle_callout_def)
  show "callouts_ok armed_callouts" "hart_ok 1 armed_callouts"
    unfolding armed_callouts_def
    using callout_set_ticks_ok idle_callouts_ok set_ticks_hart_ok * by blast+
qed (simp_all add: armed_callouts_def callout_set_ticks_def armed_on_def idle_callouts_def idle_callout_def
    list_head_of_def Let_def U64_MAX_def callout_reprogram_locked_def idle_pcpu_def update_pcpu_deadline_def
    time_pcpu_merged_deadline_def)

text \<open>
  C10: In every run of the callout engine, from any state that has it, each hart's list stays sorted
  by deadline and free of duplicates, and holds exactly the callouts that are armed on that hart.
\<close>

theorem callout_lists_invariant:
  assumes "callout_step\<^sup>*\<^sup>* st st'" and "callouts_ok st"
  shows "callouts_ok st'"
  using callout_steps_ok [OF assms] .

theorem callout_lists_invariant_witness:
  "callouts_ok (callout_cancel 0 7 (callout_set_ticks 1 0 7 100 3 0 idle_callouts))"
proof (rule callout_lists_invariant [OF _ idle_callouts_ok(1)])
  show "callout_step\<^sup>*\<^sup>* idle_callouts
      (callout_cancel 0 7 (callout_set_ticks 1 0 7 100 3 0 idle_callouts))"
    by (rule rtranclp.rtrancl_into_rtrancl [OF r_into_rtranclp]) (rule step_set step_cancel)+
qed





text \<open>
  C17: Re-arming a callout of another hart with an earlier deadline does not reach that hart's timer.
  The request is announced with the reschedule interrupt, whose handler does not recompute the
  deadline: after the other hart has handled it, its timer is still set to the old deadline, later
  than the one now at the head of its list.
\<close>

theorem callout_remote_rearm_late:
  assumes "callouts_ok st" "in_sync k st" "armed_on me c st = k" "k \<noteq> me"
    and "co_armed (callout_of st c)" "pending_ipis (pcpu_array st k) = 0"
    and st': "st' = callout_set_ticks me now c ticks func arg st"
    and earlier: "deadline_of st' c < head_deadline k st"
  shows "head_deadline k (ipi_handle k st') = deadline_of st' c \<and>
    timer_deadline (pcpu_array (ipi_handle k st') k) = timer_deadline (pcpu_array st k) \<and>
    head_deadline k (ipi_handle k st') < timer_deadline (pcpu_array (ipi_handle k st') k)"
proof -
  have no: "armed_on me c st \<noteq> me" using assms(3,4) by simp
  have "timer_deadline (pcpu_array (ipi_handle k st') k) = timer_deadline (pcpu_array st' k)"
    using remote_set_ticks(2) [OF no, of now ticks func arg k] assms(6)
    by (intro ipi_handle_no_timer) (simp add: st')
  also have "\<dots> = timer_deadline (pcpu_array st k)"
    using remote_set_ticks(1) [OF no] by (simp add: st')
  finally have t: "timer_deadline (pcpu_array (ipi_handle k st') k) = timer_deadline (pcpu_array st k)" .
  have "callout_list st' k = c # remove1 c (callout_list st k)"
    using set_core_new_head [OF assms(1,5), of me now ticks func arg] earlier assms(3)
    by (simp add: st' set_ticks_frame)
  then have h: "head_deadline k (ipi_handle k st') = deadline_of st' c"
    by (simp add: head_deadline_def)
  show ?thesis
    using t h earlier assms(2) by (simp add: in_sync_def)
qed

theorem callout_remote_rearm_late_witness:
  "head_deadline 1 (ipi_handle 1 (callout_set_ticks 0 0 7 10 3 0 armed_callouts)) <
   timer_deadline (pcpu_array (ipi_handle 1 (callout_set_ticks 0 0 7 10 3 0 armed_callouts)) 1)"
proof -
  note a = armed_callouts_facts
  have s: "in_sync 1 armed_callouts" using a(2) by (simp add: hart_ok_def)
  have d: "deadline_of (callout_set_ticks 0 0 7 10 3 0 armed_callouts) 7 < head_deadline 1 armed_callouts"
    using a(6) by (simp add: set_ticks_frame set_core_callout head_deadline_def a(5) U64_MAX_def)
  show ?thesis
    using callout_remote_rearm_late [OF a(1) s a(3) one_neq_zero a(4) a(7) refl d] by blast
qed

end
