(* ===== verification/Counted_Pool.thy ===== *)
theory Counted_Pool
  imports Mazu_Prelude
begin

text \<open>
  The contract that every reference-counted pool of the kernel keeps (file descriptions,
  timers, synchronisation objects, message queues): an allocated entry is live with one
  reference, taking a reference adds one, and dropping one frees the entry exactly when it
  drops the last. The contract is a locale; each pool interprets it in its own theory. What a
  client of such a pool may rely on is proved here once.
\<close>

section \<open>Histories of a pool\<close>

datatype pool_op = New | Inc nat | Put nat

fun pool_run :: "('s \<Rightarrow> (nat \<times> 's) option) \<Rightarrow> ('s \<Rightarrow> nat \<Rightarrow> 's) \<Rightarrow> ('s \<Rightarrow> nat \<Rightarrow> 's) \<Rightarrow>
    pool_op list \<Rightarrow> 's \<Rightarrow> 's" where
  "pool_run new inc put [] s = s"
| "pool_run new inc put (New # ops) s =
     pool_run new inc put ops (case new s of None \<Rightarrow> s | Some (i, s') \<Rightarrow> s')"
| "pool_run new inc put (Inc i # ops) s = pool_run new inc put ops (inc s i)"
| "pool_run new inc put (Put i # ops) s = pool_run new inc put ops (put s i)"

text \<open>
  The references outstanding on entry \<open>i\<close> after a history, from \<open>c\<close> references at its start;
  \<open>None\<close> when the history takes or drops a reference that its holder no longer has, or counts
  beyond 32 bits.
\<close>

fun pool_balance :: "nat \<Rightarrow> pool_op list \<Rightarrow> nat \<Rightarrow> nat option" where
  "pool_balance i [] c = Some c"
| "pool_balance i (New # ops) c = (if 0 < c then pool_balance i ops c else None)"
| "pool_balance i (Inc j # ops) c =
     (if j \<noteq> i then pool_balance i ops c
      else if 0 < c \<and> Suc c < 2 ^ 32 then pool_balance i ops (Suc c) else None)"
| "pool_balance i (Put j # ops) c =
     (if j \<noteq> i then pool_balance i ops c
      else if 0 < c then pool_balance i ops (c - 1) else None)"

fun pool_op_in :: "nat \<Rightarrow> pool_op \<Rightarrow> bool" where
  "pool_op_in n New = True"
| "pool_op_in n (Inc i) = (i < n)"
| "pool_op_in n (Put i) = (i < n)"

section \<open>The contract\<close>

locale counted_pool =
  fixes limit :: nat
    and live :: "'s \<Rightarrow> nat \<Rightarrow> bool"
    and count :: "'s \<Rightarrow> nat \<Rightarrow> nat"
    and new :: "'s \<Rightarrow> (nat \<times> 's) option"
    and inc :: "'s \<Rightarrow> nat \<Rightarrow> 's"
    and put :: "'s \<Rightarrow> nat \<Rightarrow> 's"
  assumes new_Some: "new s = Some (i, s') \<Longrightarrow>
      i < limit \<and> \<not> live s i \<and> live s' i \<and> count s' i = 1"
    and new_frame: "\<lbrakk>new s = Some (i, s'); j \<noteq> i\<rbrakk> \<Longrightarrow> live s' j = live s j \<and> count s' j = count s j"
    and new_None: "\<lbrakk>new s = None; i < limit\<rbrakk> \<Longrightarrow> live s i"
    and inc_live: "\<lbrakk>i < limit; live s i; Suc (count s i) < 2 ^ 32\<rbrakk> \<Longrightarrow>
      live (inc s i) i \<and> count (inc s i) i = Suc (count s i)"
    and inc_frame: "\<lbrakk>i < limit; j \<noteq> i\<rbrakk> \<Longrightarrow> live (inc s i) j = live s j \<and> count (inc s i) j = count s j"
    and put_shared: "\<lbrakk>i < limit; live s i; 1 < count s i\<rbrakk> \<Longrightarrow>
      live (put s i) i \<and> count (put s i) i = count s i - 1"
    and put_last: "\<lbrakk>i < limit; live s i; count s i = 1\<rbrakk> \<Longrightarrow> \<not> live (put s i) i"
    and put_frame: "\<lbrakk>i < limit; j \<noteq> i\<rbrakk> \<Longrightarrow> live (put s i) j = live s j \<and> count (put s i) j = count s j"
begin

lemma new_other: "live s i \<Longrightarrow> new s = Some (j, s') \<Longrightarrow> live s' i \<and> count s' i = count s i"
  using new_Some [of s j s'] new_frame [of s j s' i] by (cases "i = j") auto

lemma put_step:
  assumes "i < limit" "live s i" "count s i = c" "0 < c"
  shows "live (put s i) i \<longleftrightarrow> 1 < c" "1 < c \<Longrightarrow> count (put s i) i = c - 1"
  using put_shared [OF assms(1,2)] put_last [OF assms(1,2)] assms(3,4)
  by (cases "c = 1"; simp)+

text \<open>The entry lives exactly as long as references to it are outstanding.\<close>

lemma lifetime:
  assumes "i < limit" "live s i \<longleftrightarrow> 0 < c" "0 < c \<Longrightarrow> count s i = c"
    and "pool_balance i ops c = Some d" "list_all (pool_op_in limit) ops"
  shows "(live (pool_run new inc put ops s) i \<longleftrightarrow> 0 < d) \<and>
         (0 < d \<longrightarrow> count (pool_run new inc put ops s) i = d)"
  using assms(2-)
proof (induction ops arbitrary: s c)
  case (Cons a ops)
  show ?case
  proof (cases a)
    case New
    with Cons.prems have c: "0 < c" "pool_balance i ops c = Some d" "live s i" "count s i = c"
      "list_all (pool_op_in limit) ops"
      by (auto split: if_splits)
    show ?thesis
    proof (cases "new s")
      case None
      with New c show ?thesis using Cons.IH [of s c] by simp
    next
      case (Some r)
      then obtain j s' where "new s = Some (j, s')" by (cases r) auto
      with New c new_other [of s i j s'] show ?thesis using Cons.IH [of s' c] by simp
    qed
  next
    case (Inc j)
    show ?thesis
    proof (cases "j = i")
      case True
      with Inc Cons.prems inc_live [OF assms(1), of s] show ?thesis
        using Cons.IH [of "inc s i" "Suc c"] by (auto split: if_splits)
    next
      case False
      with Inc Cons.prems inc_frame [of j i s] show ?thesis
        using Cons.IH [of "inc s j" c] by auto
    qed
  next
    case (Put j)
    show ?thesis
    proof (cases "j = i")
      case True
      with Put Cons.prems have "0 < c" "pool_balance i ops (c - 1) = Some d" "live s i" "count s i = c"
        "list_all (pool_op_in limit) ops"
        by (auto split: if_splits)
      with True Put put_step [OF assms(1), of s c] show ?thesis
        using Cons.IH [of "put s i" "c - 1"] by auto
    next
      case False
      with Put Cons.prems put_frame [of j i s] show ?thesis
        using Cons.IH [of "put s j" c] by auto
    qed
  qed
qed auto

lemma new_lifetime:
  assumes "new s = Some (i, s')" "pool_balance i ops 1 = Some d" "list_all (pool_op_in limit) ops"
  shows "live (pool_run new inc put ops s') i \<longleftrightarrow> 0 < d"
  using lifetime [of i s' 1 ops d] new_Some [OF assms(1)] assms(2,3) by auto

end

end
