(* ===== verification/Proc_Table.thy ===== *)
theory Proc_Table
  imports Mazu_Prelude
begin

text \<open>
  The process table (\<^verbatim>\<open>kernel/proc/proc.c\<close>, \<^verbatim>\<open>include/mazu/proc.h\<close>): the parts of
  \<^verbatim>\<open>struct proc\<close> and \<^verbatim>\<open>struct sched_task\<close> that the modelled subsystems read and write, lookup by
  pid, pid allocation, and the collection of the descendants of a process. The table is a function
  on the indices below \<^verbatim>\<open>PROC_MAX\<close>; a \<^verbatim>\<open>struct proc *\<close> is an index, and \<open>None\<close> is the null pointer.
  Operations run under \<^verbatim>\<open>proc_table_lock\<close> and are atomic.
\<close>

section \<open>Tasks and processes\<close>

record sched_task =
  td_id :: u16
  td_state :: td_state
  td_join_state :: td_join_state
  td_sig_pending :: u32

datatype proc_state =
    PROC_STATE_FREE | PROC_STATE_EMBRYO | PROC_STATE_RUNNING | PROC_STATE_SLEEPING
  | PROC_STATE_STOPPED | PROC_STATE_ZOMBIE

record proc =
  p_pid :: u16
  p_parent_pid :: u16
  p_parent_generation :: u32
  p_magic :: u32
  p_generation :: u32
  p_state :: proc_state
  p_is_exiting :: bool
  p_exit_code :: int
  p_tasks :: "nat \<Rightarrow> nat option"
  p_sig_pending :: u32
  p_slots :: "nat \<Rightarrow> u64"
  p_delegate_epoch :: "nat \<Rightarrow> u64"

type_synonym procs = "nat \<Rightarrow> proc"

abbreviation (input) "PROC_MAX \<equiv> 16 :: nat"
abbreviation (input) "PROC_THREAD_MAX \<equiv> 4 :: nat"
abbreviation (input) "CAP_SPACE_SLOTS \<equiv> 128 :: nat"
abbreviation (input) "PROC_FD_MAX \<equiv> CAP_SPACE_SLOTS - PROC_THREAD_MAX"
abbreviation (input) "PROC_MAGIC \<equiv> 0x70726F63 :: u32"
abbreviation (input) "PROC_POISON \<equiv> 0xDEADDEAD :: u32"

section \<open>Lookup\<close>

definition proc_find_locked :: "procs \<Rightarrow> u16 \<Rightarrow> nat option" where
  "proc_find_locked pt pid =
     first_index (\<lambda>i. p_state (pt i) \<noteq> PROC_STATE_FREE \<and> p_pid (pt i) = pid) 0 PROC_MAX"

definition proc_find :: "procs \<Rightarrow> u16 \<Rightarrow> nat option" where
  "proc_find pt pid = proc_find_locked pt pid"

definition proc_child_matches_parent :: "procs \<Rightarrow> nat \<Rightarrow> nat \<Rightarrow> bool" where
  "proc_child_matches_parent pt child parent \<longleftrightarrow>
     child \<noteq> parent \<and> p_parent_pid (pt child) = p_pid (pt parent) \<and>
     p_parent_generation (pt child) = p_generation (pt parent)"

definition has_zombie_child_locked :: "procs \<Rightarrow> nat \<Rightarrow> bool" where
  "has_zombie_child_locked pt parent =
     (first_index (\<lambda>i. p_state (pt i) = PROC_STATE_ZOMBIE \<and> proc_child_matches_parent pt i parent)
        0 PROC_MAX \<noteq> None)"

definition has_any_child_locked :: "procs \<Rightarrow> nat \<Rightarrow> bool" where
  "has_any_child_locked pt parent =
     (first_index (\<lambda>i. i \<noteq> parent \<and> p_state (pt i) \<noteq> PROC_STATE_FREE \<and>
        proc_child_matches_parent pt i parent) 0 PROC_MAX \<noteq> None)"

definition proc_is_missing_or_zombie :: "procs \<Rightarrow> u16 \<Rightarrow> bool" where
  "proc_is_missing_or_zombie pt pid =
     (case first_index (\<lambda>i. p_state (pt i) \<noteq> PROC_STATE_FREE \<and> p_pid (pt i) = pid) 0 PROC_MAX of
        None \<Rightarrow> True
      | Some i \<Rightarrow> p_state (pt i) = PROC_STATE_ZOMBIE)"

definition proc_count_children :: "procs \<Rightarrow> u16 \<Rightarrow> nat" where
  "proc_count_children pt parent_pid =
     length (filter (\<lambda>i. p_state (pt i) \<noteq> PROC_STATE_FREE \<and> p_pid (pt i) \<noteq> parent_pid \<and>
       p_parent_pid (pt i) = parent_pid) [0..<PROC_MAX])"

section \<open>Pid allocation\<close>

text \<open>
  \<^verbatim>\<open>proc_alloc_pid_locked\<close>: at most \<^verbatim>\<open>U16_MAX\<close> attempts, each taking the next number (0 skipped) and
  testing whether a live process has it. The result is the pid (0 for failure) and the new counter.
\<close>

fun proc_alloc_pid_loop :: "nat \<Rightarrow> procs \<Rightarrow> u16 \<Rightarrow> u16 \<times> u16" where
  "proc_alloc_pid_loop 0 pt next_pid = (0, next_pid)"
| "proc_alloc_pid_loop (Suc attempts) pt next_pid =
     (let next_pid = (if next_pid = 0 then 1 else next_pid);
          pid = next_pid;
          next_pid = next_pid + 1
      in if proc_find_locked pt pid = None then (pid, next_pid)
         else proc_alloc_pid_loop attempts pt next_pid)"

definition proc_alloc_pid_locked :: "procs \<Rightarrow> u16 \<Rightarrow> u16 \<times> u16" where
  "proc_alloc_pid_locked pt next_pid = proc_alloc_pid_loop 65535 pt next_pid"

section \<open>Descendants\<close>

text \<open>
  \<^verbatim>\<open>proc_collect_descendants_locked\<close>: the output array is the list \<open>out\<close>. One pass of the outer
  loop scans the table and appends each live process that is a child of a listed one and not listed.
\<close>

definition collect_candidate :: "procs \<Rightarrow> nat \<Rightarrow> nat \<Rightarrow> nat list \<Rightarrow> nat list" where
  "collect_candidate pt mx i out =
     (if \<not> length out < mx then out
      else if p_state (pt i) = PROC_STATE_FREE then out
      else if \<not> list_ex (\<lambda>j. proc_child_matches_parent pt i j) out then out
      else if i \<in> set out then out
      else out @ [i])"

definition collect_pass :: "procs \<Rightarrow> nat \<Rightarrow> nat list \<Rightarrow> nat list" where
  "collect_pass pt mx out = fold (collect_candidate pt mx) [0..<PROC_MAX] out"

lemma collect_candidate_grows:
  "\<exists>ys. collect_candidate pt mx i out = out @ ys"
  by (auto simp: collect_candidate_def)

lemma collect_pass_grows: "\<exists>ys. fold (collect_candidate pt mx) is out = out @ ys"
proof (induction "is" arbitrary: out)
  case (Cons i "is")
  then show ?case using collect_candidate_grows [of pt mx i out] by (metis append.assoc fold_simps(2))
qed simp

function collect_loop :: "procs \<Rightarrow> nat \<Rightarrow> bool \<Rightarrow> nat list \<Rightarrow> nat list" where
  "collect_loop pt mx added out =
     (if added \<and> length out < mx
      then let out' = collect_pass pt mx out in collect_loop pt mx (length out < length out') out'
      else out)"
  by pat_completeness auto

termination
proof (relation "measure (\<lambda>(pt, mx, added, out). (if added then 1 else 0) + (mx - length out) * 2)", goal_cases)
  case (2 pt mx added out x)
  then obtain ys where "x = out @ ys"
    using collect_pass_grows unfolding collect_pass_def by blast
  then have "mx - length x \<le> mx - length out"
    "length out < length x \<Longrightarrow> mx - length x < mx - length out"
    using 2(1) by (simp_all add: diff_le_mono2 diff_less_mono2)
  then show ?case using 2(1) by auto
qed simp

declare collect_loop.simps [simp del]

definition proc_collect_descendants_locked :: "procs \<Rightarrow> nat option \<Rightarrow> u32 \<Rightarrow> nat \<Rightarrow> (nat \<times> u32) list" where
  "proc_collect_descendants_locked pt root root_generation mx =
     (case root of
        None \<Rightarrow> []
      | Some r \<Rightarrow>
          if mx = 0 then []
          else if p_state (pt r) = PROC_STATE_FREE \<or> p_generation (pt r) \<noteq> root_generation then []
          else map (\<lambda>i. (i, p_generation (pt i))) (collect_loop pt mx True [r]))"

section \<open>The descendants are exactly the live processes below the root\<close>

definition live_child :: "procs \<Rightarrow> nat \<Rightarrow> nat \<Rightarrow> bool" where
  "live_child pt parent child \<longleftrightarrow>
     child < PROC_MAX \<and> p_state (pt child) \<noteq> PROC_STATE_FREE \<and> proc_child_matches_parent pt child parent"

abbreviation descends :: "procs \<Rightarrow> nat \<Rightarrow> nat \<Rightarrow> bool" where
  "descends pt \<equiv> (live_child pt)\<^sup>*\<^sup>*"

definition listed_ok :: "procs \<Rightarrow> nat \<Rightarrow> nat list \<Rightarrow> bool" where
  "listed_ok pt r out \<longleftrightarrow>
     distinct out \<and> r \<in> set out \<and> (\<forall>i \<in> set out. i < PROC_MAX \<and> descends pt r i)"

lemma collect_candidate_ok:
  assumes "listed_ok pt r out" "i < PROC_MAX"
  shows "listed_ok pt r (collect_candidate pt mx i out)"
proof (cases "collect_candidate pt mx i out = out")
  case False
  then obtain j where "collect_candidate pt mx i out = out @ [i]" "i \<notin> set out" "j \<in> set out"
    "live_child pt j i"
    using assms(2) by (auto simp: collect_candidate_def list_ex_iff live_child_def split: if_splits)
  with assms show ?thesis
    by (auto simp: listed_ok_def intro: rtranclp.rtrancl_into_rtrancl)
qed (use assms in simp)

lemma collect_pass_ok: "listed_ok pt r out \<Longrightarrow> listed_ok pt r (collect_pass pt mx out)"
proof -
  have "listed_ok pt r out \<Longrightarrow> \<forall>i \<in> set is. i < PROC_MAX \<Longrightarrow>
      listed_ok pt r (fold (collect_candidate pt mx) is out)" for "is"
    by (induction "is" arbitrary: out) (auto intro: collect_candidate_ok)
  from this [of "[0..<PROC_MAX]"] show "listed_ok pt r out \<Longrightarrow> ?thesis"
    by (simp add: collect_pass_def)
qed

lemma collect_fold_fix:
  "fold (collect_candidate pt mx) is out = out \<Longrightarrow> i \<in> set is \<Longrightarrow> collect_candidate pt mx i out = out"
proof (induction "is" arbitrary: out)
  case (Cons a "is")
  obtain ys where ys: "collect_candidate pt mx a out = out @ ys"
    using collect_candidate_grows by blast
  obtain zs where "fold (collect_candidate pt mx) is (out @ ys) = (out @ ys) @ zs"
    using collect_pass_grows by blast
  with Cons.prems(1) ys have "ys = []" by simp
  with Cons ys show ?case by auto
qed simp

text \<open>A list that one pass does not extend holds every live child of its members.\<close>

lemma collect_pass_fix:
  assumes "length (collect_pass pt mx out) \<le> length out" "length out < mx"
    and "j \<in> set out" "live_child pt j i"
  shows "i \<in> set out"
proof -
  obtain ys where ys: "collect_pass pt mx out = out @ ys"
    using collect_pass_grows unfolding collect_pass_def by blast
  with assms(1) have fx: "fold (collect_candidate pt mx) [0..<PROC_MAX] out = out"
    by (simp add: collect_pass_def)
  have "i \<in> set [0..<PROC_MAX]" using assms(4) by (simp add: live_child_def)
  from collect_fold_fix [OF fx this] show ?thesis
    using assms(2-4) by (auto simp: collect_candidate_def live_child_def list_ex_iff split: if_splits)
qed

definition child_closed :: "procs \<Rightarrow> nat list \<Rightarrow> bool" where
  "child_closed pt out \<longleftrightarrow> (\<forall>j i. j \<in> set out \<and> live_child pt j i \<longrightarrow> i \<in> set out)"

lemma collect_loop_ok:
  assumes "listed_ok pt r out" "\<not> added \<longrightarrow> child_closed pt out"
  shows "listed_ok pt r (collect_loop pt mx added out) \<and>
    (child_closed pt (collect_loop pt mx added out) \<or> mx \<le> length (collect_loop pt mx added out))"
  using assms
proof (induction pt mx added out rule: collect_loop.induct)
  case (1 pt mx added out)
  let ?out = "collect_pass pt mx out"
  show ?case
  proof (cases "added \<and> length out < mx")
    case True
    have closed: "child_closed pt ?out" if "\<not> length out < length ?out"
    proof -
      obtain ys where "?out = out @ ys"
        using collect_pass_grows unfolding collect_pass_def by blast
      with that have "?out = out" by simp
      then show ?thesis
        using collect_pass_fix [of pt mx out] True by (auto simp: child_closed_def)
    qed
    have "collect_loop pt mx added out = collect_loop pt mx (length out < length ?out) ?out"
      using True by (subst collect_loop.simps) (simp add: Let_def)
    with "1.IH" [OF True refl collect_pass_ok [OF "1.prems"(1)]] closed show ?thesis by simp
  next
    case False
    then have "collect_loop pt mx added out = out"
      by (subst collect_loop.simps) auto
    with False "1.prems" show ?thesis by auto
  qed
qed

lemma listed_full_closed:
  assumes "listed_ok pt r out" "PROC_MAX \<le> length out"
  shows "child_closed pt out"
proof -
  have "set out \<subseteq> {..<PROC_MAX}" "card (set out) = length out"
    using assms(1) by (auto simp: listed_ok_def distinct_card)
  then have "set out = {..<PROC_MAX}"
    using assms(2) by (intro card_subset_eq) (auto dest: card_mono [rotated])
  then show ?thesis by (auto simp: child_closed_def live_child_def)
qed

lemma collect_loop_descendants:
  assumes "r < PROC_MAX"
  shows "set (collect_loop pt PROC_MAX True [r]) = {i. descends pt r i}"
    "distinct (collect_loop pt PROC_MAX True [r])"
proof -
  have "listed_ok pt r [r]" using assms by (simp add: listed_ok_def)
  from collect_loop_ok [OF this, of True PROC_MAX]
  have ok: "listed_ok pt r (collect_loop pt PROC_MAX True [r])"
    "child_closed pt (collect_loop pt PROC_MAX True [r])"
    using listed_full_closed by auto
  then show "distinct (collect_loop pt PROC_MAX True [r])" by (simp add: listed_ok_def)
  have "i \<in> set (collect_loop pt PROC_MAX True [r])" if "descends pt r i" for i
    using that by (induction rule: rtranclp_induct) (use ok in \<open>auto simp: listed_ok_def child_closed_def\<close>)
  with ok(1) show "set (collect_loop pt PROC_MAX True [r]) = {i. descends pt r i}"
    by (auto simp: listed_ok_def)
qed

lemma proc_find_Some:
  "proc_find_locked pt pid = Some i \<Longrightarrow> i < PROC_MAX \<and> p_state (pt i) \<noteq> PROC_STATE_FREE \<and> p_pid (pt i) = pid"
  by (auto simp: proc_find_locked_def dest: first_index_SomeD)

lemma proc_find_None:
  "proc_find_locked pt pid = None \<longleftrightarrow> (\<forall>i < PROC_MAX. p_state (pt i) = PROC_STATE_FREE \<or> p_pid (pt i) \<noteq> pid)"
  by (auto simp: proc_find_locked_def first_index_None_iff)

section \<open>Pid allocation always finds a free pid\<close>

definition skip0 :: "u16 \<Rightarrow> u16" where
  "skip0 x = (if x = 0 then 1 else x)"

text \<open>The pid tried in round \<open>k\<close>: the non-zero pids in a cycle of length 65535.\<close>

definition pid_at :: "u16 \<Rightarrow> nat \<Rightarrow> u16" where
  "pid_at x k = word_of_nat ((unat (skip0 x) - 1 + k) mod 65535 + 1)"

lemma skip0_pos: "1 \<le> unat (skip0 x)" "unat (skip0 x) \<le> 65535"
  using unsigned_less [of "skip0 x", where ?'a = nat]
  by (auto simp: skip0_def unat_gt_0 Suc_le_eq)

lemma pid_at_0: "pid_at x 0 = skip0 x"
  using skip0_pos [of x] by (simp add: pid_at_def)

lemma skip0_Suc: "unat (skip0 (skip0 x + 1)) - 1 = (unat (skip0 x) - 1 + 1) mod 65535"
proof (cases "unat (skip0 x) = 65535")
  case True
  then have "skip0 x + 1 = 0"
    by (simp add: word_unat_eq_iff unat_word_ariths(1))
  then show ?thesis by (simp add: skip0_def True [simplified skip0_def] split: if_splits) 
next
  case False
  then have "Suc (unat (skip0 x)) < 2 ^ LENGTH(16)" using skip0_pos [of x] by simp
  then have s: "unat (skip0 x + 1) = Suc (unat (skip0 x))" by (rule unat_inc)
  then have "skip0 (skip0 x + 1) = skip0 x + 1" by (auto simp: skip0_def unat_eq_0 [symmetric])
  with s False skip0_pos [of x] show ?thesis by simp
qed

lemma pid_at_Suc: "pid_at x (Suc k) = pid_at (skip0 x + 1) k"
proof -
  have "(unat (skip0 (skip0 x + 1)) - 1 + k) mod 65535 = (unat (skip0 x) - 1 + Suc k) mod 65535"
    unfolding skip0_Suc by (simp add: mod_add_left_eq)
  then show ?thesis by (simp add: pid_at_def)
qed

lemma alloc_pid_loop_cases:
  "(\<exists>y. proc_alloc_pid_loop n pt x = (0, y)) \<and> (\<forall>k<n. proc_find_locked pt (pid_at x k) \<noteq> None) \<or>
   (\<exists>pid y. proc_alloc_pid_loop n pt x = (pid, y) \<and> pid \<noteq> 0 \<and> proc_find_locked pt pid = None)"
proof (induction n arbitrary: x)
  case (Suc n)
  have pid: "(if x = 0 then 1 else x) = skip0 x" by (simp add: skip0_def)
  show ?case
  proof (cases "proc_find_locked pt (skip0 x)")
    case None
    then show ?thesis using skip0_pos [of x] by (auto simp: pid Let_def)
  next
    case (Some i)
    then show ?thesis
      using Suc.IH [of "skip0 x + 1"]
      by (auto simp: pid Let_def pid_at_Suc pid_at_0 less_Suc_eq_0_disj)
  qed
qed simp

lemma pid_at_inj: "inj_on (pid_at x) {..<17}"
proof (rule inj_onI)
  fix k l assume kl: "k \<in> {..<17::nat}" "l \<in> {..<17::nat}" and eq: "pid_at x k = pid_at x l"
  let ?a = "unat (skip0 x) - 1"
  have "(?a + k) mod 65535 + 1 < 2 ^ LENGTH(16)" "(?a + l) mod 65535 + 1 < 2 ^ LENGTH(16)"
    using mod_less_divisor [of 65535 "?a + k"] mod_less_divisor [of 65535 "?a + l"] by simp_all
  with eq have "(?a + k) mod 65535 = (?a + l) mod 65535"
    unfolding pid_at_def by (metis add_right_cancel of_nat_inverse)
  moreover have "?a < 65535" using skip0_pos [of x] by simp
  ultimately show "k = l"
    using kl by (simp add: mod_if split: if_splits)
qed

lemma alloc_pid_fresh:
  "\<exists>pid y. proc_alloc_pid_locked pt x = (pid, y) \<and> pid \<noteq> 0 \<and> proc_find_locked pt pid = None"
proof -
  have "\<not> (\<forall>k<65535. proc_find_locked pt (pid_at x k) \<noteq> None)"
  proof
    assume "\<forall>k<65535. proc_find_locked pt (pid_at x k) \<noteq> None"
    then have used: "\<exists>i. proc_find_locked pt (pid_at x k) = Some i" if "k < 17" for k
      using that by simp
    have "pid_at x ` {..<17} \<subseteq> (\<lambda>i. p_pid (pt i)) ` {..<PROC_MAX}"
    proof (rule image_subsetI)
      fix k :: nat assume "k \<in> {..<17}"
      then have "k < 17" by simp
      with used obtain i where "proc_find_locked pt (pid_at x k) = Some i" by auto
      then show "pid_at x k \<in> (\<lambda>i. p_pid (pt i)) ` {..<PROC_MAX}"
        using proc_find_Some [of pt "pid_at x k" i] by (intro image_eqI [of _ _ i]) auto
    qed
    then have "card (pid_at x ` {..<17}) \<le> card {..<PROC_MAX}"
      by (rule surj_card_le [rotated]) simp
    then show False
      using card_image [OF pid_at_inj [of x]] by simp
  qed
  then show ?thesis
    using alloc_pid_loop_cases [of 65535 pt x] unfolding proc_alloc_pid_locked_def by blast
qed

section \<open>Properties\<close>

text \<open>
  C23: Collecting the descendants of a live process into an array of \<^verbatim>\<open>PROC_MAX\<close> entries yields
  each live process reachable from it through parent links exactly once, the process itself
  included, with its current generation; the loop always terminates.
\<close>

theorem proc_collect_descendants_exact:
  assumes "r < PROC_MAX" "p_state (pt r) \<noteq> PROC_STATE_FREE" "p_generation (pt r) = gen"
  shows "set (proc_collect_descendants_locked pt (Some r) gen PROC_MAX) =
      {(i, p_generation (pt i)) | i. descends pt r i} \<and>
    distinct (map fst (proc_collect_descendants_locked pt (Some r) gen PROC_MAX))"
  using assms collect_loop_descendants [OF assms(1), of pt]
  by (auto simp: proc_collect_descendants_locked_def comp_def)

definition free_proc :: proc where
  "free_proc = \<lparr>p_pid = 0, p_parent_pid = 0, p_parent_generation = 0, p_magic = 0, p_generation = 0,
     p_state = PROC_STATE_FREE, p_is_exiting = False, p_exit_code = 0, p_tasks = (\<lambda>_. None),
     p_sig_pending = 0, p_slots = (\<lambda>_. 0), p_delegate_epoch = (\<lambda>_. 0)\<rparr>"

text \<open>Process 0 has pid 1, its child in slot 3 has pid 2; every other slot is free.\<close>

definition two_procs :: procs where
  "two_procs = (\<lambda>_. free_proc)
     (0 := free_proc\<lparr>p_pid := 1, p_generation := 5, p_magic := PROC_MAGIC, p_state := PROC_STATE_RUNNING\<rparr>,
      3 := free_proc\<lparr>p_pid := 2, p_generation := 7, p_magic := PROC_MAGIC, p_state := PROC_STATE_RUNNING,
             p_parent_pid := 1, p_parent_generation := 5\<rparr>)"

theorem proc_collect_descendants_exact_witness:
  "(3, 7) \<in> set (proc_collect_descendants_locked two_procs (Some 0) 5 PROC_MAX)"
proof -
  have "descends two_procs 0 3"
    by (rule r_into_rtranclp) (simp add: live_child_def proc_child_matches_parent_def two_procs_def)
  then show ?thesis
    using proc_collect_descendants_exact [of 0 two_procs 5] by (auto simp: two_procs_def)
qed

text \<open>
  C24: Pid allocation never fails and never reuses a live pid: whatever the counter, the result is
  non-zero and no live process of the table has it.
\<close>

theorem proc_alloc_pid_unique:
  "fst (proc_alloc_pid_locked pt next_pid) \<noteq> 0 \<and>
   proc_find_locked pt (fst (proc_alloc_pid_locked pt next_pid)) = None"
  using alloc_pid_fresh [of pt next_pid] by auto

end
