(* ===== verification/Posix_Timer.thy ===== *)
theory Posix_Timer
  imports Callout Counted_Pool Proc_Table
begin

text \<open>
  POSIX interval timers (\<^verbatim>\<open>kernel/timer/posix_timer.c\<close>): the reference-counted pool of timers and
  the arming, expiry and teardown of a timer on the callout engine. The callout embedded in timer
  \<open>i\<close> of the pool has address \<open>i\<close>. The pool lives in a state record together with the process
  table, the tasks and the callout engine; the capability layer extends the record. Delivering a
  signal to a process and waking a sleeping task belong to other components and are parameters.
\<close>

section \<open>State\<close>

record posix_timer =
  pt_owner :: "nat option"
  pt_owner_generation :: u32
  pt_interval_ticks :: u64
  pt_overrun :: u32
  pt_armed :: bool
  pt_in_use :: bool
  pt_refcount :: u32
  pt_target_tid :: u16

record timer_state =
  proc_table :: procs
  task_of :: "nat \<Rightarrow> sched_task"
  co_state :: callouts
  cur_cpu :: nat
  timer_pool :: "nat \<Rightarrow> posix_timer"

abbreviation (input) "POSIX_TIMER_MAX \<equiv> 8 :: nat"
abbreviation (input) "TIMER_EXPIRY_FN \<equiv> 1 :: nat"
abbreviation (input) "SIGALRM \<equiv> 14 :: nat"

definition sig_bit :: "nat \<Rightarrow> u32" where
  "sig_bit signo = push_bit signo 1"

definition upd_timer :: "nat \<Rightarrow> (posix_timer \<Rightarrow> posix_timer) \<Rightarrow> 'z timer_state_scheme \<Rightarrow> 'z timer_state_scheme" where
  "upd_timer i f st = st\<lparr>timer_pool := (timer_pool st)(i := f (timer_pool st i))\<rparr>"

definition upd_callouts :: "(callouts \<Rightarrow> callouts) \<Rightarrow> 'z timer_state_scheme \<Rightarrow> 'z timer_state_scheme" where
  "upd_callouts f st = st\<lparr>co_state := f (co_state st)\<rparr>"

section \<open>Allocation and release\<close>

definition posix_timer_alloc :: "nat option \<Rightarrow> 'z timer_state_scheme \<Rightarrow> nat result \<times> 'z timer_state_scheme" where
  "posix_timer_alloc p st =
     (case p of
        None \<Rightarrow> (Inl EINVAL, st)
      | Some pi \<Rightarrow>
          (case first_index (\<lambda>i. \<not> pt_in_use (timer_pool st i)) 0 POSIX_TIMER_MAX of
             None \<Rightarrow> (Inl EAGAIN, st)
           | Some i \<Rightarrow>
               (Inr i, upd_callouts (callout_init i) (upd_timer i (\<lambda>t. t
                  \<lparr>pt_in_use := True, pt_owner := Some pi,
                   pt_owner_generation := p_generation (proc_table st pi), pt_armed := False,
                   pt_overrun := 0, pt_interval_ticks := 0, pt_target_tid := 0, pt_refcount := 1\<rparr>) st))))"

definition posix_timer_ptr :: "u16 \<Rightarrow> nat option" where
  "posix_timer_ptr object_index =
     (if unat object_index \<ge> POSIX_TIMER_MAX then None else Some (unat object_index))"

text \<open>
  \<^verbatim>\<open>callout_cancel_sync\<close> is \<^verbatim>\<open>callout_cancel\<close> followed by a spin until a running callback has
  returned; callbacks are atomic here, so the spin ends at once.
\<close>

definition posix_timer_free :: "nat \<Rightarrow> 'z timer_state_scheme \<Rightarrow> 'z timer_state_scheme" where
  "posix_timer_free i st =
     (let st = upd_timer i (\<lambda>t. t\<lparr>pt_armed := False\<rparr>) st;
          st = upd_callouts (callout_cancel (cur_cpu st) i) st
      in upd_timer i (\<lambda>t. t
           \<lparr>pt_in_use := False, pt_owner := None, pt_owner_generation := 0, pt_interval_ticks := 0,
            pt_overrun := 0, pt_target_tid := 0, pt_refcount := 0\<rparr>) st)"

definition posix_timer_put_idx :: "u16 \<Rightarrow> 'z timer_state_scheme \<Rightarrow> 'z timer_state_scheme" where
  "posix_timer_put_idx object_index st =
     (case posix_timer_ptr object_index of
        None \<Rightarrow> st
      | Some i \<Rightarrow>
          if \<not> pt_in_use (timer_pool st i) then st
          else let rc = pt_refcount (timer_pool st i) - 1;
                   st = upd_timer i (\<lambda>t. t\<lparr>pt_refcount := rc\<rparr>) st
            in if rc = 0 then posix_timer_free i st else st)"

definition posix_timer_teardown_one :: "nat \<Rightarrow> nat \<Rightarrow> 'z timer_state_scheme \<Rightarrow> 'z timer_state_scheme" where
  "posix_timer_teardown_one p i st =
     (let t = timer_pool st i in
      if pt_in_use t \<and> pt_owner t = Some p \<and> pt_owner_generation t = p_generation (proc_table st p)
      then posix_timer_free i st else st)"

definition posix_timer_teardown_proc :: "nat \<Rightarrow> 'z timer_state_scheme \<Rightarrow> 'z timer_state_scheme" where
  "posix_timer_teardown_proc p st = fold (posix_timer_teardown_one p) [0..<POSIX_TIMER_MAX] st"

section \<open>Arming and reading a timer\<close>

definition posix_timer_target_is_live :: "'z timer_state_scheme \<Rightarrow> nat option \<Rightarrow> bool" where
  "posix_timer_target_is_live st td =
     (case td of
        None \<Rightarrow> False
      | Some t \<Rightarrow> td_join_state (task_of st t) \<noteq> TD_JOIN_EXITED \<and>
                  td_join_state (task_of st t) \<noteq> TD_JOIN_REAPED \<and>
                  td_state (task_of st t) \<noteq> TD_STATE_TERMINATING)"

definition find_target_thread :: "'z timer_state_scheme \<Rightarrow> nat \<Rightarrow> u16 \<Rightarrow> nat option" where
  "find_target_thread st owner tid =
     (case first_index (\<lambda>i. case p_tasks (proc_table st owner) i of
                 None \<Rightarrow> False
               | Some t \<Rightarrow> td_id (task_of st t) = tid \<and> posix_timer_target_is_live st (Some t))
             0 PROC_THREAD_MAX of
        None \<Rightarrow> None
      | Some i \<Rightarrow> p_tasks (proc_table st owner) i)"


definition posix_timer_gettime_idx ::
    "(u64 \<Rightarrow> u64) \<Rightarrow> u64 \<Rightarrow> u16 \<Rightarrow> 'z timer_state_scheme \<Rightarrow> u64 result" where
  "posix_timer_gettime_idx time_ticks_to_ms now object_index st =
     (if unat object_index \<ge> POSIX_TIMER_MAX then Inl EINVAL
      else let i = unat object_index; t = timer_pool st i in
        if \<not> pt_in_use t then Inl EINVAL
        else if \<not> pt_armed t then Inr 0
        else let deadline = deadline_of (co_state st) i in
          if deadline \<le> now then Inr 0 else Inr (time_ticks_to_ms (deadline - now)))"

definition posix_timer_getoverrun_idx :: "u16 \<Rightarrow> 'z timer_state_scheme \<Rightarrow> u32 result" where
  "posix_timer_getoverrun_idx object_index st =
     (if unat object_index \<ge> POSIX_TIMER_MAX then Inl EINVAL
      else let t = timer_pool st (unat object_index) in
        if \<not> pt_in_use t then Inl EINVAL else Inr (pt_overrun t))"

section \<open>Expiry\<close>

definition posix_timer_owner_alive :: "'z timer_state_scheme \<Rightarrow> posix_timer \<Rightarrow> bool" where
  "posix_timer_owner_alive st t =
     (case pt_owner t of
        None \<Rightarrow> False
      | Some owner \<Rightarrow>
          let p = proc_table st owner in
          p_magic p = PROC_MAGIC \<and> pt_owner_generation t = p_generation p \<and>
          p_state p \<noteq> PROC_STATE_ZOMBIE \<and> p_state p \<noteq> PROC_STATE_FREE)"

definition posix_timer_signal_pending_locked :: "'z timer_state_scheme \<Rightarrow> nat \<Rightarrow> nat \<Rightarrow> bool" where
  "posix_timer_signal_pending_locked st owner signo =
     (let mask = sig_bit signo in
      if p_sig_pending (proc_table st owner) AND mask \<noteq> 0 then True
      else first_index (\<lambda>i. case p_tasks (proc_table st owner) i of
               None \<Rightarrow> False
             | Some td \<Rightarrow> td_sig_pending (task_of st td) AND mask \<noteq> 0) 0 PROC_THREAD_MAX \<noteq> None)"

definition timer_deliver ::
    "(nat \<Rightarrow> nat \<Rightarrow> 'z timer_state_scheme \<Rightarrow> 'z timer_state_scheme) \<Rightarrow>
     (nat \<Rightarrow> 'z timer_state_scheme \<Rightarrow> 'z timer_state_scheme) \<Rightarrow> nat \<Rightarrow> u16 \<Rightarrow>
     'z timer_state_scheme \<Rightarrow> 'z timer_state_scheme" where
  "timer_deliver signal_send sched_wake_sleeping owner target_tid st =
     (if target_tid \<noteq> 0
      then (case find_target_thread st owner target_tid of
              None \<Rightarrow> st
            | Some td \<Rightarrow>
                let st = st\<lparr>task_of := (task_of st)(td := (task_of st td)
                      \<lparr>td_sig_pending := td_sig_pending (task_of st td) OR sig_bit SIGALRM\<rparr>)\<rparr>
                in if td_state (task_of st td) = TD_STATE_SLEEPING then sched_wake_sleeping td st else st)
      else signal_send owner SIGALRM st)"

definition timer_expiry_fn ::
    "(nat \<Rightarrow> nat \<Rightarrow> 'z timer_state_scheme \<Rightarrow> 'z timer_state_scheme) \<Rightarrow>
     (nat \<Rightarrow> 'z timer_state_scheme \<Rightarrow> 'z timer_state_scheme) \<Rightarrow> u64 \<Rightarrow> nat \<Rightarrow>
     'z timer_state_scheme \<Rightarrow> 'z timer_state_scheme" where
  "timer_expiry_fn signal_send sched_wake_sleeping now i st =
     (let t = timer_pool st i in
      case pt_owner t of
        None \<Rightarrow> st
      | Some owner \<Rightarrow>
          if \<not> pt_armed t \<or> \<not> pt_in_use t then st
          else if \<not> posix_timer_owner_alive st t then upd_timer i (\<lambda>t. t\<lparr>pt_armed := False\<rparr>) st
          else let st = timer_deliver signal_send sched_wake_sleeping owner (pt_target_tid t) st;
                   t = timer_pool st i
            in if pt_interval_ticks t > 0
               then if \<not> pt_armed t then st
                    else let alrm_pending = posix_timer_signal_pending_locked st owner SIGALRM;
                             st = (if alrm_pending
                                   then upd_timer i (\<lambda>t. t\<lparr>pt_overrun := pt_overrun t + 1\<rparr>) st else st)
                      in upd_callouts (callout_set_ticks (cur_cpu st) now i
                           (pt_interval_ticks (timer_pool st i)) TIMER_EXPIRY_FN i) st
               else upd_timer i (\<lambda>t. t\<lparr>pt_armed := False\<rparr>) st)"

section \<open>Frames\<close>

lemma upd_timer_frame [simp]:
  "timer_pool (upd_timer i f st) = (timer_pool st)(i := f (timer_pool st i))"
  "co_state (upd_timer i f st) = co_state st" "proc_table (upd_timer i f st) = proc_table st"
  "task_of (upd_timer i f st) = task_of st" "cur_cpu (upd_timer i f st) = cur_cpu st"
  "timer_state.more (upd_timer i f st) = timer_state.more st"
  by (simp_all add: upd_timer_def)

lemma upd_callouts_frame [simp]:
  "co_state (upd_callouts f st) = f (co_state st)"
  "timer_pool (upd_callouts f st) = timer_pool st" "proc_table (upd_callouts f st) = proc_table st"
  "task_of (upd_callouts f st) = task_of st" "cur_cpu (upd_callouts f st) = cur_cpu st"
  "timer_state.more (upd_callouts f st) = timer_state.more st"
  by (simp_all add: upd_callouts_def)

lemma posix_timer_free_frame [simp]:
  "timer_pool (posix_timer_free i st) = (timer_pool st)(i := (timer_pool st i)
     \<lparr>pt_armed := False, pt_in_use := False, pt_owner := None, pt_owner_generation := 0,
      pt_interval_ticks := 0, pt_overrun := 0, pt_target_tid := 0, pt_refcount := 0\<rparr>)"
  "co_state (posix_timer_free i st) = callout_cancel (cur_cpu st) i (co_state st)"
  "proc_table (posix_timer_free i st) = proc_table st" "task_of (posix_timer_free i st) = task_of st"
  "cur_cpu (posix_timer_free i st) = cur_cpu st" "timer_state.more (posix_timer_free i st) = timer_state.more st"
  by (simp_all add: posix_timer_free_def Let_def)

lemma posix_timer_put_frame [simp]:
  "proc_table (posix_timer_put_idx idx st) = proc_table st" "task_of (posix_timer_put_idx idx st) = task_of st"
  "cur_cpu (posix_timer_put_idx idx st) = cur_cpu st" "timer_state.more (posix_timer_put_idx idx st) = timer_state.more st"
  by (simp_all add: posix_timer_put_idx_def Let_def split: option.splits)

section \<open>The timer pool keeps the counted-pool contract\<close>

text \<open>Taking a reference is the atomic increment of \<^verbatim>\<open>cap_pinned_lookup\<close>.\<close>

definition timer_get_ref :: "nat \<Rightarrow> 'z timer_state_scheme \<Rightarrow> 'z timer_state_scheme" where
  "timer_get_ref i = upd_timer i (\<lambda>t. t\<lparr>pt_refcount := pt_refcount t + 1\<rparr>)"

definition timer_new :: "nat \<Rightarrow> 'z timer_state_scheme \<Rightarrow> (nat \<times> 'z timer_state_scheme) option" where
  "timer_new p st = (case posix_timer_alloc (Some p) st of (Inl e, _) \<Rightarrow> None | (Inr i, st') \<Rightarrow> Some (i, st'))"

lemma timer_new_Some:
  "timer_new p st = Some (i, st') \<Longrightarrow> i < POSIX_TIMER_MAX \<and> \<not> pt_in_use (timer_pool st i) \<and>
     pt_in_use (timer_pool st' i) \<and> pt_refcount (timer_pool st' i) = 1 \<and>
     (\<forall>j. j \<noteq> i \<longrightarrow> timer_pool st' j = timer_pool st j)"
  by (auto simp: timer_new_def posix_timer_alloc_def dest: first_index_SomeD split: option.splits)

lemma timer_new_None: "timer_new p st = None \<Longrightarrow> i < POSIX_TIMER_MAX \<Longrightarrow> pt_in_use (timer_pool st i)"
  by (auto simp: timer_new_def posix_timer_alloc_def first_index_None_iff split: option.splits)

lemma timer_put_small:
  "i < POSIX_TIMER_MAX \<Longrightarrow> posix_timer_ptr (word_of_nat i) = Some i"
  by (auto simp: posix_timer_ptr_def unat_of_nat)

interpretation timer_pool: counted_pool POSIX_TIMER_MAX
    "\<lambda>st i. pt_in_use (timer_pool st i)" "\<lambda>st i. unat (pt_refcount (timer_pool st i))"
    "timer_new p" "\<lambda>st i. timer_get_ref i st" "\<lambda>st i. posix_timer_put_idx (word_of_nat i) st"
  for p :: nat
proof (unfold_locales, goal_cases)
  case (4 i st)
  then show ?case by (simp add: timer_get_ref_def unat_inc)
next
  case (6 i st)
  then have "pt_refcount (timer_pool st i) - 1 \<noteq> 0" "0 < unat (pt_refcount (timer_pool st i))"
    using unat_dec [of "pt_refcount (timer_pool st i)"] by auto
  with 6 show ?case
    by (simp add: posix_timer_put_idx_def timer_put_small unat_dec Let_def)
next
  case (7 i st)
  then have "pt_refcount (timer_pool st i) - 1 = 0"
    by (simp add: word_unat_eq_iff [of _ 1])
  with 7 show ?case
    by (simp add: posix_timer_put_idx_def timer_put_small Let_def)
next
  case (8 i j st)
  then show ?case by (simp add: posix_timer_put_idx_def timer_put_small Let_def)
qed (auto simp: timer_get_ref_def dest: timer_new_Some timer_new_None)

section \<open>A timer that is not in use never fires\<close>



lemma callout_init_frame [simp]:
  "callout_list (callout_init c cs) = callout_list cs"
  "co_armed (callout_of (callout_init c cs) x) = (x \<noteq> c \<and> co_armed (callout_of cs x))"
  by (simp_all add: callout_init_def)






definition torn_down :: "nat \<Rightarrow> u32 \<Rightarrow> posix_timer \<Rightarrow> posix_timer" where
  "torn_down p gen t =
     (if pt_in_use t \<and> pt_owner t = Some p \<and> pt_owner_generation t = gen
      then t\<lparr>pt_armed := False, pt_in_use := False, pt_owner := None, pt_owner_generation := 0,
             pt_interval_ticks := 0, pt_overrun := 0, pt_target_tid := 0, pt_refcount := 0\<rparr>
      else t)"

lemma teardown_one_frame:
  "timer_pool (posix_timer_teardown_one p i st) =
     (timer_pool st)(i := torn_down p (p_generation (proc_table st p)) (timer_pool st i))"
  "proc_table (posix_timer_teardown_one p i st) = proc_table st"
  "cur_cpu (posix_timer_teardown_one p i st) = cur_cpu st"
  "timer_state.more (posix_timer_teardown_one p i st) = timer_state.more st"
  by (simp_all add: posix_timer_teardown_one_def torn_down_def Let_def)

lemma torn_down_idem: "torn_down p gen (torn_down p gen t) = torn_down p gen t"
  by (simp add: torn_down_def)

lemma fold_teardown:
  "timer_pool (fold (posix_timer_teardown_one p) is st) =
     (\<lambda>i. if i \<in> set is then torn_down p (p_generation (proc_table st p)) (timer_pool st i) else timer_pool st i)
   \<and> proc_table (fold (posix_timer_teardown_one p) is st) = proc_table st
   \<and> timer_state.more (fold (posix_timer_teardown_one p) is st) = timer_state.more st"
  by (induction "is" arbitrary: st) (auto simp: teardown_one_frame torn_down_idem)

lemma teardown_proc_frame:
  "timer_pool (posix_timer_teardown_proc p st) =
     (\<lambda>i. if i < POSIX_TIMER_MAX then torn_down p (p_generation (proc_table st p)) (timer_pool st i)
          else timer_pool st i)"
  "proc_table (posix_timer_teardown_proc p st) = proc_table st"
  "timer_state.more (posix_timer_teardown_proc p st) = timer_state.more st"
  using fold_teardown [of p "[0..<POSIX_TIMER_MAX]" st]
  by (auto simp: posix_timer_teardown_proc_def)

section \<open>Expiry\<close>

lemma expiry_dead_owner:
  "\<not> posix_timer_owner_alive st (timer_pool st i) \<Longrightarrow>
     timer_expiry_fn snd_sig wake now i st = st \<or>
     timer_expiry_fn snd_sig wake now i st = upd_timer i (\<lambda>t. t\<lparr>pt_armed := False\<rparr>) st"
  by (auto simp: timer_expiry_fn_def Let_def split: option.splits)








section \<open>Properties\<close>

definition idle_timer :: posix_timer where
  "idle_timer = \<lparr>pt_owner = None, pt_owner_generation = 0, pt_interval_ticks = 0, pt_overrun = 0,
     pt_armed = False, pt_in_use = False, pt_refcount = 0, pt_target_tid = 0\<rparr>"

definition idle_task :: sched_task where
  "idle_task = \<lparr>td_id = 0, td_state = TD_STATE_READY, td_join_state = TD_JOIN_FREE, td_sig_pending = 0\<rparr>"

definition idle_timers :: timer_state where
  "idle_timers = \<lparr>proc_table = two_procs, task_of = (\<lambda>_. idle_task), co_state = idle_callouts,
     cur_cpu = 0, timer_pool = (\<lambda>_. idle_timer)\<rparr>"






text \<open>
  A thread-directed timer whose target thread is gone loses the signal: the expiry of such a
  timer, with its owner alive, changes no pending signal of any task or process, whatever process-directed delivery
  would have done.
\<close>

theorem posix_timer_dead_target_lost:
  assumes "pt_owner (timer_pool st i) = Some owner" "pt_target_tid (timer_pool st i) \<noteq> 0"
    and "find_target_thread st owner (pt_target_tid (timer_pool st i)) = None"
  shows "task_of (timer_expiry_fn signal_send wake now i st) = task_of st \<and>
    proc_table (timer_expiry_fn signal_send wake now i st) = proc_table st"
  using assms by (simp add: timer_expiry_fn_def timer_deliver_def Let_def)

theorem posix_timer_dead_target_lost_witness:
  "\<exists>st :: timer_state. posix_timer_owner_alive st (timer_pool st 0) \<and> pt_armed (timer_pool st 0) \<and>
     pt_target_tid (timer_pool st 0) = 9 \<and>
     proc_table (timer_expiry_fn (\<lambda>p s st. st\<lparr>proc_table := (proc_table st)(p := (proc_table st p)
        \<lparr>p_sig_pending := p_sig_pending (proc_table st p) OR sig_bit s\<rparr>)\<rparr>) (\<lambda>_ st. st) 0 0 st) = proc_table st"
proof -
  let ?st = "upd_timer 0 (\<lambda>t. t\<lparr>pt_owner := Some 0, pt_owner_generation := 5, pt_in_use := True,
      pt_armed := True, pt_target_tid := 9\<rparr>) idle_timers"
  have none: "find_target_thread ?st 0 9 = None"
    by (simp add: find_target_thread_def idle_timers_def two_procs_def free_proc_def first_index_None_iff
        split: option.splits)
  show ?thesis
    using posix_timer_dead_target_lost [of ?st 0 0] none
    by (intro exI [of _ ?st])
      (simp add: posix_timer_owner_alive_def idle_timers_def two_procs_def)
qed

end
