(* ===== verification/Sync_Pool.thy ===== *)
theory Sync_Pool
  imports Counted_Pool
begin

text \<open>
  The handle table of the synchronisation objects (\<^verbatim>\<open>kernel/sync/sync_handle.c\<close>): five pools
  (mutexes, condition variables, semaphores, barriers, reader-writer locks) whose operations
  are generated by the macros \<^verbatim>\<open>SYNC_POOL_DEFINE\<close>, \<^verbatim>\<open>SYNC_POOL_RESERVE\<close> and
  \<^verbatim>\<open>SYNC_TEARDOWN_POOL\<close>. A macro is a definition with the macro's parameters; the pools are its
  instances. The primitive stored in a slot is a type parameter. Every operation runs under
  \<^verbatim>\<open>sync_lock\<close> and is one atomic step.
\<close>

section \<open>Slots\<close>

text \<open>
  A process pointer is \<open>None\<close> (null) or an index of the process table. An operation that reads
  \<^verbatim>\<open>caller->generation\<close> gets the pointer together with the generation it reads.
\<close>

type_synonym proc_ptr = "nat option"
type_synonym proc_ref = "(nat \<times> u32) option"

definition proc_ptr_of :: "proc_ref \<Rightarrow> proc_ptr" where
  "proc_ptr_of r = map_option fst r"

record 'p sync_slot =
  ss_prim :: 'p
  ss_owner :: proc_ptr
  ss_owner_gen :: u32
  ss_refcount :: u32
  ss_in_use :: bool

type_synonym 'p sync_pool = "nat \<Rightarrow> 'p sync_slot"

abbreviation (input) "SYNC_MAX_MUTEXES \<equiv> 16 :: nat"
abbreviation (input) "SYNC_MAX_CONDVARS \<equiv> 16 :: nat"
abbreviation (input) "SYNC_MAX_SEMAPHORES \<equiv> 16 :: nat"
abbreviation (input) "SYNC_MAX_BARRIERS \<equiv> 8 :: nat"
abbreviation (input) "SYNC_MAX_RWLOCKS \<equiv> 16 :: nat"

definition sync_owner_ok :: "proc_ptr \<Rightarrow> u32 \<Rightarrow> proc_ref \<Rightarrow> bool" where
  "sync_owner_ok owner gen caller =
     (case (owner, caller) of
        (None, None) \<Rightarrow> True
      | (_, None) \<Rightarrow> False
      | (_, Some (c, cgen)) \<Rightarrow> owner = Some c \<and> gen = cgen)"

section \<open>Operations\<close>

definition sync_get :: "nat \<Rightarrow> 'p sync_pool \<Rightarrow> int \<Rightarrow> 'p option" where
  "sync_get pool_size pool handle =
     (if handle < 0 \<or> handle \<ge> int pool_size then None
      else let s = pool (nat handle) in
        if \<not> ss_in_use s then None else Some (ss_prim s))"

definition sync_inc_idx :: "nat \<Rightarrow> 'p sync_pool \<Rightarrow> int \<Rightarrow> bool \<times> 'p sync_pool" where
  "sync_inc_idx pool_size pool handle =
     (if handle < 0 \<or> handle \<ge> int pool_size then (False, pool)
      else let s = pool (nat handle) in
        if \<not> ss_in_use s then (False, pool)
        else (True, pool(nat handle := s\<lparr>ss_refcount := ss_refcount s + 1\<rparr>)))"

definition sync_free :: "nat \<Rightarrow> 'p sync_pool \<Rightarrow> int \<Rightarrow> proc_ref \<Rightarrow> 'p sync_pool" where
  "sync_free pool_size pool handle caller =
     (if handle < 0 \<or> handle \<ge> int pool_size then pool
      else let s = pool (nat handle) in
        if ss_in_use s \<and> sync_owner_ok (ss_owner s) (ss_owner_gen s) caller
        then pool(nat handle := s\<lparr>ss_in_use := False, ss_owner := None\<rparr>)
        else pool)"

definition sync_free_idx :: "nat \<Rightarrow> 'p sync_pool \<Rightarrow> int \<Rightarrow> 'p sync_pool" where
  "sync_free_idx pool_size pool handle =
     (if handle < 0 \<or> handle \<ge> int pool_size then pool
      else pool(nat handle := (pool (nat handle))
             \<lparr>ss_in_use := False, ss_owner := None, ss_refcount := 0\<rparr>))"

definition sync_put_idx :: "nat \<Rightarrow> 'p sync_pool \<Rightarrow> int \<Rightarrow> 'p sync_pool" where
  "sync_put_idx pool_size pool handle =
     (if handle < 0 \<or> handle \<ge> int pool_size then pool
      else let s = pool (nat handle) in
        if \<not> ss_in_use s then pool
        else if ss_refcount s \<le> 1
        then pool(nat handle := s\<lparr>ss_refcount := 0, ss_in_use := False, ss_owner := None\<rparr>)
        else pool(nat handle := s\<lparr>ss_refcount := ss_refcount s - 1\<rparr>))"

definition sync_reserve :: "nat \<Rightarrow> 'p sync_pool \<Rightarrow> proc_ref \<Rightarrow> (nat \<times> 'p sync_pool) option" where
  "sync_reserve pool_size pool owner =
     (case first_index (\<lambda>i. \<not> ss_in_use (pool i)) 0 pool_size of
        None \<Rightarrow> None
      | Some i \<Rightarrow> Some (i, pool(i := (pool i)
          \<lparr>ss_in_use := True, ss_owner := proc_ptr_of owner,
           ss_owner_gen := (case owner of None \<Rightarrow> 0 | Some (_, g) \<Rightarrow> g),
           ss_refcount := 1\<rparr>)))"

text \<open>The allocators reserve a slot and initialise the primitive in it.\<close>

definition sync_alloc_with :: "nat \<Rightarrow> 'p \<Rightarrow> 'p sync_pool \<Rightarrow> proc_ref \<Rightarrow> nat result \<times> 'p sync_pool" where
  "sync_alloc_with pool_size prim pool owner =
     (case sync_reserve pool_size pool owner of
        None \<Rightarrow> (Inl EAGAIN, pool)
      | Some (i, pool') \<Rightarrow> (Inr i, pool'(i := (pool' i)\<lparr>ss_prim := prim\<rparr>)))"

definition sync_mutex_alloc :: "'p \<Rightarrow> 'p sync_pool \<Rightarrow> proc_ref \<Rightarrow> nat result \<times> 'p sync_pool" where
  "sync_mutex_alloc init = sync_alloc_with SYNC_MAX_MUTEXES init"

definition sync_condvar_alloc :: "'p \<Rightarrow> 'p sync_pool \<Rightarrow> proc_ref \<Rightarrow> nat result \<times> 'p sync_pool" where
  "sync_condvar_alloc init = sync_alloc_with SYNC_MAX_CONDVARS init"

definition sync_sem_alloc ::
    "(int \<Rightarrow> 'p) \<Rightarrow> 'p sync_pool \<Rightarrow> proc_ref \<Rightarrow> int \<Rightarrow> nat result \<times> 'p sync_pool" where
  "sync_sem_alloc init pool owner initial_count =
     (if initial_count < 0 then (Inl EINVAL, pool)
      else sync_alloc_with SYNC_MAX_SEMAPHORES (init initial_count) pool owner)"

definition sync_barrier_alloc ::
    "(u32 \<Rightarrow> 'p) \<Rightarrow> 'p sync_pool \<Rightarrow> proc_ref \<Rightarrow> u32 \<Rightarrow> nat result \<times> 'p sync_pool" where
  "sync_barrier_alloc init pool owner cnt =
     (if cnt = 0 then (Inl EINVAL, pool)
      else sync_alloc_with SYNC_MAX_BARRIERS (init cnt) pool owner)"

definition sync_rwlock_alloc :: "'p \<Rightarrow> 'p sync_pool \<Rightarrow> proc_ref \<Rightarrow> nat result \<times> 'p sync_pool" where
  "sync_rwlock_alloc init = sync_alloc_with SYNC_MAX_RWLOCKS init"

definition sync_handle_init :: "nat \<Rightarrow> 'p sync_pool \<Rightarrow> 'p sync_pool" where
  "sync_handle_init pool_size pool =
     (\<lambda>i. if i < pool_size then (pool i)\<lparr>ss_in_use := False\<rparr> else pool i)"

text \<open>\<^verbatim>\<open>SYNC_TEARDOWN_POOL\<close>: the loop body touches one slot, so the loop is pointwise.\<close>

definition sync_teardown_pool :: "nat \<Rightarrow> 'p sync_pool \<Rightarrow> proc_ref \<Rightarrow> 'p sync_pool" where
  "sync_teardown_pool pool_size pool p =
     (\<lambda>i. let s = pool i in
        if i < pool_size \<and> ss_in_use s \<and> sync_owner_ok (ss_owner s) (ss_owner_gen s) p
        then s\<lparr>ss_in_use := False, ss_owner := None\<rparr> else s)"

section \<open>Every pool keeps the counted-pool contract\<close>

lemmas sync_pool_defs =
  sync_inc_idx_def sync_put_idx_def sync_reserve_def sync_alloc_with_def sync_free_def
  sync_free_idx_def sync_get_def

lemma counted_sync_pool:
  "counted_pool pool_size (\<lambda>pool i. ss_in_use (pool i)) (\<lambda>pool i. unat (ss_refcount (pool i)))
     (\<lambda>pool. sync_reserve pool_size pool owner)
     (\<lambda>pool i. snd (sync_inc_idx pool_size pool (int i)))
     (\<lambda>pool i. sync_put_idx pool_size pool (int i))"
proof (unfold_locales, goal_cases)
  case (3 s i)
  then show ?case
    by (auto simp: sync_reserve_def first_index_None_iff split: option.splits)
next
  case (4 i s)
  then show ?case by (simp add: sync_pool_defs Let_def unat_inc)
next
  case (6 i s)
  then show ?case by (simp add: sync_pool_defs Let_def word_le_1 unat_dec)
next
  case (7 i s)
  then show ?case by (simp add: sync_pool_defs Let_def word_le_1)
qed (auto simp: sync_pool_defs Let_def dest: first_index_SomeD split: option.splits)

interpretation sync_pool: counted_pool pool_size
    "\<lambda>pool i. ss_in_use (pool i)" "\<lambda>pool i. unat (ss_refcount (pool i))"
    "\<lambda>pool. sync_reserve pool_size pool owner"
    "\<lambda>pool i. snd (sync_inc_idx pool_size pool (int i))"
    "\<lambda>pool i. sync_put_idx pool_size pool (int i)"
  for pool_size :: nat and owner :: proc_ref
  by (rule counted_sync_pool)

section \<open>Allocation, release by owner, teardown\<close>

lemma sync_alloc_with_Inr:
  assumes "sync_alloc_with pool_size prim pool owner = (Inr i, pool')"
  shows "i < pool_size" "\<not> ss_in_use (pool i)" "ss_in_use (pool' i)" "ss_refcount (pool' i) = 1"
    "ss_owner (pool' i) = proc_ptr_of owner" "sync_get pool_size pool' (int i) = Some prim"
    "j \<noteq> i \<Longrightarrow> pool' j = pool j"
  using assms
  by (auto simp: sync_pool_defs Let_def split: option.splits prod.splits dest: first_index_SomeD)

lemma sync_alloc_with_Inl:
  "sync_alloc_with pool_size prim pool owner = (Inl e, pool') \<longleftrightarrow>
     e = EAGAIN \<and> pool' = pool \<and> (\<forall>i. i < pool_size \<longrightarrow> ss_in_use (pool i))"
  by (auto simp: sync_alloc_with_def sync_reserve_def first_index_None_iff dest: first_index_SomeD
      split: option.splits prod.splits)

lemma sync_free_other: "j \<noteq> nat handle \<Longrightarrow> sync_free pool_size pool handle caller j = pool j"
  by (simp add: sync_free_def Let_def)

lemma sync_free_denied:
  "\<not> sync_owner_ok (ss_owner (pool (nat handle))) (ss_owner_gen (pool (nat handle))) caller \<Longrightarrow>
     sync_free pool_size pool handle caller = pool"
  by (simp add: sync_free_def Let_def)

lemma sync_teardown_live:
  "ss_in_use (sync_teardown_pool pool_size pool p i) \<longleftrightarrow>
     ss_in_use (pool i) \<and>
     \<not> (i < pool_size \<and> sync_owner_ok (ss_owner (pool i)) (ss_owner_gen (pool i)) p)"
  by (auto simp: sync_teardown_pool_def Let_def)

lemma sync_teardown_kept:
  "ss_in_use (sync_teardown_pool pool_size pool p i) \<Longrightarrow> sync_teardown_pool pool_size pool p i = pool i"
  by (auto simp: sync_teardown_pool_def Let_def split: if_splits)

end
