(* ===== verification/Mqueue.thy ===== *)
theory Mqueue
  imports Ordered_Queue Counted_Pool Sync_Pool
begin

text \<open>
  POSIX message queues (\<^verbatim>\<open>kernel/ipc/mqueue.c\<close>): a pool of queues with a static pool of message
  slots each, priority-ordered delivery, and blocking senders and receivers. A critical section of
  the queue's lock is one atomic step: an operation that blocks is an entry step, which ends
  with \<open>Block\<close>, and a resume step, which runs from the return of the yield to the next yield or to
  the end. A waiter is named by its task. The linked lists of messages and waiters are lists of
  slot indices and tasks.
\<close>

section \<open>State\<close>

text \<open>The valid prefix \<^verbatim>\<open>data[0..len)\<close> of a message is the list \<open>mm_data\<close>.\<close>

record mq_msg =
  mm_data :: "u8 list"
  mm_priority :: u32
  mm_in_use :: bool

record mqueue =
  mq_msgs :: "nat list"
  mq_send_waitq :: "nat list"
  mq_recv_waitq :: "nat list"
  mq_owner :: proc_ptr
  mq_owner_gen :: u32
  mq_generation :: u32
  mq_msg_count :: u32
  mq_max_msgs :: u32
  mq_max_msg_size :: int
  mq_refcount :: u32
  mq_in_use :: bool

text \<open>
  \<open>mq_waiter_woken\<close> and \<open>mq_waiter_timed_out\<close> are the flags in the waiting task's stack frame;
  \<open>mq_wakes\<close> records the calls of \<^verbatim>\<open>sched_wake_ready\<close>, latest first.
\<close>

record mq_state =
  mq_pool :: "nat \<Rightarrow> mqueue"
  msg_pool :: "nat \<Rightarrow> nat \<Rightarrow> mq_msg"
  mq_waiter_woken :: "nat \<Rightarrow> bool"
  mq_waiter_timed_out :: "nat \<Rightarrow> bool"
  mq_wakes :: "nat list"

abbreviation (input) "MQ_MAX_QUEUES \<equiv> 8 :: nat"
abbreviation (input) "MQ_MAX_MSGS \<equiv> 16 :: nat"
abbreviation (input) "MQ_MAX_MSG_SIZE \<equiv> 256 :: int"

definition upd_mq :: "nat \<Rightarrow> (mqueue \<Rightarrow> mqueue) \<Rightarrow> mq_state \<Rightarrow> mq_state" where
  "upd_mq q f st = st\<lparr>mq_pool := (mq_pool st)(q := f (mq_pool st q))\<rparr>"

definition upd_msg :: "nat \<Rightarrow> nat \<Rightarrow> (mq_msg \<Rightarrow> mq_msg) \<Rightarrow> mq_state \<Rightarrow> mq_state" where
  "upd_msg q i f st = st\<lparr>msg_pool := (msg_pool st)(q := (msg_pool st q)(i := f (msg_pool st q i)))\<rparr>"

section \<open>Open, close, reference counting\<close>

definition mqueue_init_one :: "mqueue \<Rightarrow> mqueue" where
  "mqueue_init_one mq =
     mq\<lparr>mq_msgs := [], mq_send_waitq := [], mq_recv_waitq := [], mq_msg_count := 0, mq_in_use := False\<rparr>"

definition mqueue_reset_storage_locked :: "nat \<Rightarrow> mq_state \<Rightarrow> mq_state" where
  "mqueue_reset_storage_locked qidx st =
     (upd_mq qidx (\<lambda>mq. mq\<lparr>mq_msgs := [], mq_msg_count := 0\<rparr>) st)
       \<lparr>msg_pool := (msg_pool st)(qidx := (\<lambda>i.
          if i < MQ_MAX_MSGS
          then (msg_pool st qidx i)\<lparr>mm_data := [], mm_priority := 0, mm_in_use := False\<rparr>
          else msg_pool st qidx i))\<rparr>"

definition mqueue_open :: "proc_ref \<Rightarrow> u32 \<Rightarrow> int \<Rightarrow> mq_state \<Rightarrow> nat result \<times> mq_state" where
  "mqueue_open owner max_msgs max_msg_size st =
     (if max_msgs = 0 \<or> unat max_msgs > MQ_MAX_MSGS then (Inl EINVAL, st)
      else if max_msg_size = 0 \<or> max_msg_size > MQ_MAX_MSG_SIZE then (Inl EINVAL, st)
      else case first_index (\<lambda>i. \<not> mq_in_use (mq_pool st i)) 0 MQ_MAX_QUEUES of
          None \<Rightarrow> (Inl EAGAIN, st)
        | Some i \<Rightarrow>
            let next_generation = mq_generation (mq_pool st i) + 1;
                next_generation = (if next_generation = 0 then 1 else next_generation)
            in (Inr i, upd_mq i (\<lambda>mq. (mqueue_init_one mq)
                 \<lparr>mq_in_use := True, mq_owner := proc_ptr_of owner,
                  mq_owner_gen := (case owner of None \<Rightarrow> 0 | Some (_, g) \<Rightarrow> g),
                  mq_generation := next_generation, mq_max_msgs := max_msgs,
                  mq_max_msg_size := max_msg_size, mq_refcount := 1\<rparr>) st))"

text \<open>Waking every waiter of a wait queue, in order.\<close>

definition wake_all :: "nat list \<Rightarrow> mq_state \<Rightarrow> mq_state" where
  "wake_all ws st = st
     \<lparr>mq_waiter_woken := (\<lambda>w. w \<in> set ws \<or> mq_waiter_woken st w), mq_wakes := rev ws @ mq_wakes st\<rparr>"

definition mqueue_destroy_locked :: "nat \<Rightarrow> mq_state \<Rightarrow> mq_state" where
  "mqueue_destroy_locked q st =
     (let st = upd_mq q (\<lambda>mq. mq\<lparr>mq_in_use := False, mq_refcount := 0\<rparr>) st;
          st = mqueue_reset_storage_locked q st;
          ws = mq_recv_waitq (mq_pool st q);
          st = wake_all ws (upd_mq q (\<lambda>mq. mq\<lparr>mq_recv_waitq := []\<rparr>) st);
          ws = mq_send_waitq (mq_pool st q)
      in wake_all ws (upd_mq q (\<lambda>mq. mq\<lparr>mq_send_waitq := []\<rparr>) st))"

definition mq_handle :: "int \<Rightarrow> nat option" where
  "mq_handle handle = (if handle < 0 \<or> handle \<ge> int MQ_MAX_QUEUES then None else Some (nat handle))"

definition mqueue_close :: "int \<Rightarrow> mq_state \<Rightarrow> unit result \<times> mq_state" where
  "mqueue_close handle st =
     (case mq_handle handle of
        None \<Rightarrow> (Inl EBADF, st)
      | Some q \<Rightarrow> if \<not> mq_in_use (mq_pool st q) then (Inl EBADF, st)
                  else (Inr (), mqueue_destroy_locked q st))"

definition mqueue_put_idx :: "int \<Rightarrow> mq_state \<Rightarrow> mq_state" where
  "mqueue_put_idx handle st =
     (case mq_handle handle of
        None \<Rightarrow> st
      | Some q \<Rightarrow>
          if \<not> mq_in_use (mq_pool st q) then st
          else if mq_refcount (mq_pool st q) > 1
          then upd_mq q (\<lambda>mq. mq\<lparr>mq_refcount := mq_refcount mq - 1\<rparr>) st
          else mqueue_destroy_locked q st)"

definition mqueue_inc_idx :: "int \<Rightarrow> mq_state \<Rightarrow> bool \<times> mq_state" where
  "mqueue_inc_idx handle st =
     (case mq_handle handle of
        None \<Rightarrow> (False, st)
      | Some q \<Rightarrow>
          if \<not> mq_in_use (mq_pool st q) then (False, st)
          else (True, upd_mq q (\<lambda>mq. mq\<lparr>mq_refcount := mq_refcount mq + 1\<rparr>) st))"

definition mqueue_get :: "int \<Rightarrow> mq_state \<Rightarrow> nat option" where
  "mqueue_get handle st =
     (case mq_handle handle of
        None \<Rightarrow> None
      | Some q \<Rightarrow> if \<not> mq_in_use (mq_pool st q) then None else Some q)"

definition mqueue_get_msgsize :: "int \<Rightarrow> mq_state \<Rightarrow> int" where
  "mqueue_get_msgsize handle st =
     (case mqueue_get handle st of None \<Rightarrow> - 1 | Some q \<Rightarrow> mq_max_msg_size (mq_pool st q))"

definition mqueue_check_owner :: "int \<Rightarrow> proc_ref \<Rightarrow> mq_state \<Rightarrow> bool" where
  "mqueue_check_owner handle caller st =
     (case mq_handle handle of
        None \<Rightarrow> False
      | Some q \<Rightarrow> mq_in_use (mq_pool st q) \<and>
                  sync_owner_ok (mq_owner (mq_pool st q)) (mq_owner_gen (mq_pool st q)) caller)"

section \<open>Messages\<close>

definition msg_alloc :: "nat \<Rightarrow> mq_state \<Rightarrow> nat option" where
  "msg_alloc qidx st = first_index (\<lambda>i. \<not> mm_in_use (msg_pool st qidx i)) 0 MQ_MAX_MSGS"

text \<open>\<^verbatim>\<open>msg_insert_priority\<close>: before the first message of strictly lower priority.\<close>

fun msg_insert_priority :: "(nat \<Rightarrow> u32) \<Rightarrow> nat \<Rightarrow> nat list \<Rightarrow> nat list" where
  "msg_insert_priority prio m [] = [m]"
| "msg_insert_priority prio m (cur # rest) =
     (if prio m > prio cur then m # cur # rest else cur # msg_insert_priority prio m rest)"

definition wake_one_recv :: "nat \<Rightarrow> mq_state \<Rightarrow> mq_state" where
  "wake_one_recv q st =
     (case mq_recv_waitq (mq_pool st q) of
        [] \<Rightarrow> st
      | w # ws \<Rightarrow> wake_all [w] (upd_mq q (\<lambda>mq. mq\<lparr>mq_recv_waitq := ws\<rparr>) st))"

definition wake_one_send :: "nat \<Rightarrow> mq_state \<Rightarrow> mq_state" where
  "wake_one_send q st =
     (case mq_send_waitq (mq_pool st q) of
        [] \<Rightarrow> st
      | w # ws \<Rightarrow> wake_all [w] (upd_mq q (\<lambda>mq. mq\<lparr>mq_send_waitq := ws\<rparr>) st))"

text \<open>The common tail of the send operations: take a slot, fill it, insert it, wake a receiver.\<close>

definition mqueue_enqueue :: "nat \<Rightarrow> u8 list \<Rightarrow> u32 \<Rightarrow> mq_state \<Rightarrow> unit result \<times> mq_state" where
  "mqueue_enqueue q msg priority st =
     (case msg_alloc q st of
        None \<Rightarrow> (Inl ENOMEM, st)
      | Some i \<Rightarrow>
          let st = upd_msg q i (\<lambda>m. m\<lparr>mm_data := msg, mm_priority := priority, mm_in_use := True\<rparr>) st;
              st = upd_mq q (\<lambda>mq. mq
                     \<lparr>mq_msgs := msg_insert_priority (\<lambda>j. mm_priority (msg_pool st q j)) i (mq_msgs mq),
                      mq_msg_count := mq_msg_count mq + 1\<rparr>) st
          in (Inr (), wake_one_recv q st))"

definition mqueue_do_receive :: "nat \<Rightarrow> int \<Rightarrow> mq_state \<Rightarrow> (u8 list \<times> u32) result \<times> mq_state" where
  "mqueue_do_receive q buf_size st =
     (let i = hd (mq_msgs (mq_pool st q)); msg = msg_pool st q i in
      if int (length (mm_data msg)) > buf_size then (Inl EMSGSIZE, st)
      else let st = upd_mq q (\<lambda>mq. mq\<lparr>mq_msgs := remove1 i (mq_msgs mq),
                                      mq_msg_count := mq_msg_count mq - 1\<rparr>) st;
               st = upd_msg q i (\<lambda>m. m\<lparr>mm_data := [], mm_priority := 0, mm_in_use := False\<rparr>) st
        in (Inr (mm_data msg, mm_priority msg), wake_one_send q st))"

section \<open>Sending\<close>



text \<open>
  The loop of \<^verbatim>\<open>mqueue_send\<close> from its test to the next yield or the end. \<open>abort\<close> is the result of
  \<^verbatim>\<open>wait_abort_error_current()\<close>; \<open>generation\<close> is the value sampled when the call entered.
\<close>

definition mqueue_send_loop ::
    "nat \<Rightarrow> u32 \<Rightarrow> errno option \<Rightarrow> nat \<Rightarrow> u8 list \<Rightarrow> u32 \<Rightarrow> mq_state \<Rightarrow> unit result blocking \<times> mq_state" where
  "mqueue_send_loop q generation abort task msg priority st =
     (let mq = mq_pool st q in
      if mq_msg_count mq \<ge> mq_max_msgs mq
      then if \<not> mq_in_use mq \<or> mq_generation mq \<noteq> generation then (Done (Inl EBADF), st)
           else (case abort of
               Some e \<Rightarrow> (Done (Inl e), st)
             | None \<Rightarrow> (Block, (upd_mq q (\<lambda>mq. mq\<lparr>mq_send_waitq := mq_send_waitq mq @ [task]\<rparr>) st)
                          \<lparr>mq_waiter_woken := (mq_waiter_woken st)(task := False)\<rparr>))
      else (case mqueue_enqueue q msg priority st of (r, st) \<Rightarrow> (Done r, st)))"


definition mqueue_send_resume ::
    "nat \<Rightarrow> u32 \<Rightarrow> errno option \<Rightarrow> nat \<Rightarrow> u8 list \<Rightarrow> u32 \<Rightarrow> mq_state \<Rightarrow> unit result blocking \<times> mq_state" where
  "mqueue_send_resume q generation abort task msg priority st =
     mqueue_send_loop q generation abort task msg priority
       (upd_mq q (\<lambda>mq. mq\<lparr>mq_send_waitq := remove1 task (mq_send_waitq mq)\<rparr>) st)"


text \<open>
  \<^verbatim>\<open>mqueue_timedsend\<close>. Its waiter stays linked across spurious returns of the yield; the timeout
  callout \<^verbatim>\<open>mq_send_timeout_fn\<close> unlinks it and sets \<^verbatim>\<open>timed_out\<close>. After the wait the queue is checked
  again before the message slots are touched. \<open>mq_timed_wait_send\<close> is the inner wait loop entered
  with the waiter linked and not woken.
\<close>

definition mq_unlink_send :: "nat \<Rightarrow> nat \<Rightarrow> mq_state \<Rightarrow> mq_state" where
  "mq_unlink_send q task = upd_mq q (\<lambda>mq. mq\<lparr>mq_send_waitq := remove1 task (mq_send_waitq mq)\<rparr>)"

definition mq_timed_wait_send ::
    "nat \<Rightarrow> errno option \<Rightarrow> nat \<Rightarrow> mq_state \<Rightarrow> unit result blocking \<times> mq_state" where
  "mq_timed_wait_send q abort task st =
     (if mq_waiter_timed_out st task then (Done (Inl ETIMEDOUT), mq_unlink_send q task st)
      else case abort of
          Some e \<Rightarrow> (Done (Inl e), mq_unlink_send q task st)
        | None \<Rightarrow> (Block, st))"

definition mqueue_timedsend_loop ::
    "nat \<Rightarrow> u32 \<Rightarrow> errno option \<Rightarrow> nat \<Rightarrow> u8 list \<Rightarrow> u32 \<Rightarrow> mq_state \<Rightarrow> unit result blocking \<times> mq_state" where
  "mqueue_timedsend_loop q generation abort task msg priority st =
     (let mq = mq_pool st q in
      if mq_msg_count mq \<ge> mq_max_msgs mq
      then if \<not> mq_in_use mq \<or> mq_generation mq \<noteq> generation then (Done (Inl EBADF), st)
           else mq_timed_wait_send q abort task
                  ((upd_mq q (\<lambda>mq. mq\<lparr>mq_send_waitq := mq_send_waitq mq @ [task]\<rparr>) st)
                     \<lparr>mq_waiter_woken := (mq_waiter_woken st)(task := False)\<rparr>)
      else if \<not> mq_in_use mq \<or> mq_generation mq \<noteq> generation then (Done (Inl EBADF), st)
      else (case mqueue_enqueue q msg priority st of (r, st) \<Rightarrow> (Done r, st)))"


definition mqueue_timedsend_resume ::
    "nat \<Rightarrow> u32 \<Rightarrow> errno option \<Rightarrow> nat \<Rightarrow> u8 list \<Rightarrow> u32 \<Rightarrow> mq_state \<Rightarrow> unit result blocking \<times> mq_state" where
  "mqueue_timedsend_resume q generation abort task msg priority st =
     (if \<not> mq_waiter_woken st task then mq_timed_wait_send q abort task st
      else mqueue_timedsend_loop q generation abort task msg priority (mq_unlink_send q task st))"


section \<open>Receiving\<close>





definition mqueue_tryreceive :: "int \<Rightarrow> int \<Rightarrow> mq_state \<Rightarrow> (u8 list \<times> u32) result \<times> mq_state" where
  "mqueue_tryreceive handle buf_size st =
     (case mqueue_get handle st of
        None \<Rightarrow> (Inl EBADF, st)
      | Some q \<Rightarrow>
          if buf_size < 0 then (Inl EMSGSIZE, st)
          else if mq_msgs (mq_pool st q) = [] then (Inl EAGAIN, st)
          else mqueue_do_receive q buf_size st)"







section \<open>Frames\<close>

lemma upd_mq_frame [simp]:
  "mq_pool (upd_mq q f st) = (mq_pool st)(q := f (mq_pool st q))"
  "msg_pool (upd_mq q f st) = msg_pool st" "mq_waiter_woken (upd_mq q f st) = mq_waiter_woken st"
  "mq_waiter_timed_out (upd_mq q f st) = mq_waiter_timed_out st"
  by (simp_all add: upd_mq_def)

lemma upd_msg_frame [simp]:
  "mq_pool (upd_msg q i f st) = mq_pool st"
  "msg_pool (upd_msg q i f st) = (msg_pool st)(q := (msg_pool st q)(i := f (msg_pool st q i)))"
  by (simp_all add: upd_msg_def)

lemma wake_all_frame [simp]: "mq_pool (wake_all ws st) = mq_pool st" "msg_pool (wake_all ws st) = msg_pool st"
  by (simp_all add: wake_all_def)

lemma wake_one_frame [simp]:
  "msg_pool (wake_one_recv q st) = msg_pool st" "msg_pool (wake_one_send q st) = msg_pool st"
  "q' \<noteq> q \<Longrightarrow> mq_pool (wake_one_recv q st) q' = mq_pool st q'"
  "q' \<noteq> q \<Longrightarrow> mq_pool (wake_one_send q st) q' = mq_pool st q'"
  by (simp_all add: wake_one_recv_def wake_one_send_def split: list.split)

text \<open>The fields of a queue other than its wait queues.\<close>

definition same_queue :: "mqueue \<Rightarrow> mqueue \<Rightarrow> bool" where
  "same_queue a b \<longleftrightarrow> mq_msgs a = mq_msgs b \<and> mq_msg_count a = mq_msg_count b \<and>
     mq_max_msgs a = mq_max_msgs b \<and> mq_max_msg_size a = mq_max_msg_size b \<and> mq_in_use a = mq_in_use b \<and>
     mq_generation a = mq_generation b \<and> mq_refcount a = mq_refcount b \<and> mq_owner a = mq_owner b"

lemma wake_one_same [simp]:
  "same_queue (mq_pool (wake_one_recv q st) q') (mq_pool st q')"
  "same_queue (mq_pool (wake_one_send q st) q') (mq_pool st q')"
  by (auto simp: same_queue_def wake_one_recv_def wake_one_send_def split: list.split)

section \<open>The queue invariant\<close>


definition slots_ok :: "mqueue \<Rightarrow> (nat \<Rightarrow> mq_msg) \<Rightarrow> bool" where
  "slots_ok mq msgs \<longleftrightarrow>
     distinct (mq_msgs mq) \<and> set (mq_msgs mq) = {i. i < MQ_MAX_MSGS \<and> mm_in_use (msgs i)} \<and>
     unat (mq_msg_count mq) = length (mq_msgs mq) \<and>
     sorted_wrt (\<lambda>x y. mm_priority (msgs y) \<le> mm_priority (msgs x)) (mq_msgs mq) \<and>
     (mq_in_use mq \<longrightarrow> length (mq_msgs mq) \<le> unat (mq_max_msgs mq) \<and>
        0 < unat (mq_max_msgs mq) \<and> unat (mq_max_msgs mq) \<le> MQ_MAX_MSGS) \<and>
     (\<not> mq_in_use mq \<longrightarrow> mq_msgs mq = [])"

definition mq_ok :: "nat \<Rightarrow> mq_state \<Rightarrow> bool" where
  "mq_ok q st \<longleftrightarrow> slots_ok (mq_pool st q) (msg_pool st q)"

lemma slots_ok_cong: "same_queue a b \<Longrightarrow> slots_ok a msgs = slots_ok b msgs"
  by (simp add: slots_ok_def same_queue_def)

lemma mq_ok_cong: "same_queue (mq_pool st q) (mq_pool st' q) \<Longrightarrow> msg_pool st q = msg_pool st' q \<Longrightarrow> mq_ok q st = mq_ok q st'"
  using slots_ok_cong by (auto simp: mq_ok_def)

lemma mq_ok_wake [simp]:
  "mq_ok q (wake_one_recv q' st) = mq_ok q st" "mq_ok q (wake_one_send q' st) = mq_ok q st"
  by (rule mq_ok_cong; simp)+


lemma sorted_prio_upd:
  "i \<notin> set xs \<Longrightarrow> sorted_wrt (\<lambda>x y. mm_priority ((msgs(i := m)) y) \<le> mm_priority ((msgs(i := m)) x)) xs =
     sorted_wrt (\<lambda>x y. mm_priority (msgs y) \<le> mm_priority (msgs x)) xs"
  by (induction xs) auto


section \<open>Abstract priority queue\<close>

text \<open>What a queue promises: a list of messages, highest priority first, oldest first per priority.\<close>

type_synonym amsg = "u8 list \<times> u32"


definition mq_abs :: "nat \<Rightarrow> mq_state \<Rightarrow> amsg list" where
  "mq_abs q st = map (\<lambda>i. (mm_data (msg_pool st q i), mm_priority (msg_pool st q i))) (mq_msgs (mq_pool st q))"

lemma mq_abs_cong:
  "same_queue (mq_pool st q) (mq_pool st' q) \<Longrightarrow> msg_pool st q = msg_pool st' q \<Longrightarrow> mq_abs q st = mq_abs q st'"
  by (simp add: mq_abs_def same_queue_def)

lemma mq_abs_wake [simp]:
  "mq_abs q (wake_one_recv q' st) = mq_abs q st" "mq_abs q (wake_one_send q' st) = mq_abs q st"
  by (rule mq_abs_cong; simp)+



lemma mqueue_do_receive_ok:
  assumes ok: "mq_ok q st" and ne: "mq_msgs (mq_pool st q) \<noteq> []"
    and fits: "int (length (fst (hd (mq_abs q st)))) \<le> buf_size"
  obtains st' where "mqueue_do_receive q buf_size st = (Inr (hd (mq_abs q st)), st')" "mq_ok q st'"
    "mq_abs q st' = tl (mq_abs q st)" "mq_in_use (mq_pool st' q) = mq_in_use (mq_pool st q)"
proof -
  obtain i rest where l: "mq_msgs (mq_pool st q) = i # rest" using ne by (cases "mq_msgs (mq_pool st q)") auto
  define s1 where "s1 = upd_mq q (\<lambda>mq. mq\<lparr>mq_msgs := remove1 i (mq_msgs mq), mq_msg_count := mq_msg_count mq - 1\<rparr>) st"
  define s2 where "s2 = upd_msg q i (\<lambda>m. m\<lparr>mm_data := [], mm_priority := 0, mm_in_use := False\<rparr>) s1"
  have s2: "mq_pool s2 q = (mq_pool st q)\<lparr>mq_msgs := rest, mq_msg_count := mq_msg_count (mq_pool st q) - 1\<rparr>"
    "msg_pool s2 q = (msg_pool st q)(i := (msg_pool st q i)\<lparr>mm_data := [], mm_priority := 0, mm_in_use := False\<rparr>)"
    by (simp_all add: s2_def s1_def l)
  have d: "distinct (i # rest)" "unat (mq_msg_count (mq_pool st q)) = Suc (length rest)"
    using ok l by (auto simp: mq_ok_def slots_ok_def)
  have "mqueue_do_receive q buf_size st = (Inr (hd (mq_abs q st)), wake_one_send q s2)"
    using fits by (simp add: mqueue_do_receive_def l mq_abs_def Let_def s2_def s1_def)
  moreover have "mq_ok q s2"
    using ok l d unat_dec [of "mq_msg_count (mq_pool st q)"] unfolding mq_ok_def slots_ok_def s2
    by (auto simp: sorted_prio_upd simp del: fun_upd_apply) (auto simp: fun_upd_def split: if_splits)
  moreover have "mq_abs q s2 = tl (mq_abs q st)"
    using d(1) by (auto simp: mq_abs_def s2 l)
  moreover have "mq_in_use (mq_pool (wake_one_send q s2) q) = mq_in_use (mq_pool st q)"
    using wake_one_same(2) [of q s2 q] by (simp add: same_queue_def s2)
  ultimately show thesis using that by simp
qed

section \<open>Every operation keeps the invariant\<close>

definition mqs_ok :: "mq_state \<Rightarrow> bool" where
  "mqs_ok st \<longleftrightarrow> (\<forall>q < MQ_MAX_QUEUES. mq_ok q st)"

lemma mqs_okI:
  assumes "mqs_ok st" "\<And>q'. q' \<noteq> q \<Longrightarrow> mq_pool st' q' = mq_pool st q' \<and> msg_pool st' q' = msg_pool st q'"
    and "q < MQ_MAX_QUEUES \<Longrightarrow> mq_ok q st'"
  shows "mqs_ok st'"
  using assms unfolding mqs_ok_def mq_ok_def by metis









lemma destroy_queue:
  "mq_pool (mqueue_destroy_locked q st) = (mq_pool st)(q := (mq_pool st q)
     \<lparr>mq_in_use := False, mq_refcount := 0, mq_msgs := [], mq_msg_count := 0, mq_recv_waitq := [], mq_send_waitq := []\<rparr>)"
  "msg_pool (mqueue_destroy_locked q st) = (msg_pool st)(q := (\<lambda>i. if i < MQ_MAX_MSGS
     then (msg_pool st q i)\<lparr>mm_data := [], mm_priority := 0, mm_in_use := False\<rparr> else msg_pool st q i))"
  by (simp_all add: mqueue_destroy_locked_def mqueue_reset_storage_locked_def Let_def cong: if_cong)



lemma mqs_ok_open:
  assumes "mqs_ok st" "mqueue_open owner mx sz st = (r, st')"
  shows "mqs_ok st'"
proof (cases r)
  case (Inr i)
  then have i: "i < MQ_MAX_QUEUES" "\<not> mq_in_use (mq_pool st i)" "0 < unat mx" "unat mx \<le> MQ_MAX_MSGS"
    and st': "mq_pool st' = (mq_pool st)(i := mq_pool st' i)" "msg_pool st' = msg_pool st"
      "mq_msgs (mq_pool st' i) = []" "mq_msg_count (mq_pool st' i) = 0" "mq_max_msgs (mq_pool st' i) = mx"
      "mq_in_use (mq_pool st' i)"
    using assms(2) by (auto simp: mqueue_open_def Let_def mqueue_init_one_def unat_gt_0 dest: first_index_SomeD
        split: if_splits option.splits)
  have "mq_ok i st" using assms(1) i by (simp add: mqs_ok_def)
  with i(2) have "set (mq_msgs (mq_pool st i)) = {j. j < MQ_MAX_MSGS \<and> mm_in_use (msg_pool st i j)}"
    "mq_msgs (mq_pool st i) = []"
    unfolding mq_ok_def slots_ok_def by blast+
  then have "{j. j < MQ_MAX_MSGS \<and> mm_in_use (msg_pool st i j)} = {}"
    by (metis set_empty)
  then have "mq_ok i st'"
    using i st'(2-) by (simp add: mq_ok_def slots_ok_def)
  then show ?thesis
    using st'(1,2) by (intro mqs_okI [OF assms(1), of i]) (metis fun_upd_other, simp)
qed (use assms in \<open>auto simp: mqueue_open_def Let_def split: if_splits option.splits\<close>)



lemma send_room: "\<not> mq_max_msgs mq \<le> mq_msg_count mq \<Longrightarrow> mq_msg_count mq < mq_max_msgs mq"
  by simp






lemma mqueue_get_Some: "mqueue_get h st = Some q \<Longrightarrow> q < MQ_MAX_QUEUES \<and> mq_in_use (mq_pool st q)"
  by (auto simp: mqueue_get_def mq_handle_def split: option.splits if_splits)

section \<open>Runs of the message queues\<close>




section \<open>The queue pool keeps the counted-pool contract\<close>

definition mq_new :: "proc_ref \<Rightarrow> mq_state \<Rightarrow> (nat \<times> mq_state) option" where
  "mq_new owner st = (case mqueue_open owner 16 256 st of (Inl e, _) \<Rightarrow> None | (Inr i, st') \<Rightarrow> Some (i, st'))"

lemma mq_new_Some:
  "mq_new owner st = Some (i, st') \<Longrightarrow> i < MQ_MAX_QUEUES \<and> \<not> mq_in_use (mq_pool st i) \<and>
     mq_in_use (mq_pool st' i) \<and> mq_refcount (mq_pool st' i) = 1 \<and> (\<forall>j. j \<noteq> i \<longrightarrow> mq_pool st' j = mq_pool st j)"
  by (auto simp: mq_new_def mqueue_open_def Let_def dest: first_index_SomeD split: option.splits)

lemma mq_new_None: "mq_new owner st = None \<Longrightarrow> i < MQ_MAX_QUEUES \<Longrightarrow> mq_in_use (mq_pool st i)"
  by (auto simp: mq_new_def mqueue_open_def Let_def first_index_None_iff split: option.splits)

interpretation mq_pool: counted_pool MQ_MAX_QUEUES
    "\<lambda>st i. mq_in_use (mq_pool st i)" "\<lambda>st i. unat (mq_refcount (mq_pool st i))"
    "mq_new owner" "\<lambda>st i. snd (mqueue_inc_idx (int i) st)" "\<lambda>st i. mqueue_put_idx (int i) st"
  for owner :: proc_ref
proof (unfold_locales, goal_cases)
  case (4 i st)
  then show ?case by (simp add: mqueue_inc_idx_def mq_handle_def unat_inc)
next
  case (6 i st)
  then show ?case by (simp add: mqueue_put_idx_def mq_handle_def word_less_nat_alt unat_dec)
next
  case (7 i st)
  then show ?case by (simp add: mqueue_put_idx_def mq_handle_def word_less_nat_alt destroy_queue)
next
  case (8 i j st)
  then show ?case by (simp add: mqueue_put_idx_def mq_handle_def destroy_queue)
qed (auto simp: mqueue_inc_idx_def mq_handle_def dest: mq_new_Some mq_new_None)

section \<open>Properties\<close>

definition zero_msg :: mq_msg where
  "zero_msg = \<lparr>mm_data = [], mm_priority = 0, mm_in_use = False\<rparr>"

definition zero_mqueue :: mqueue where
  "zero_mqueue = \<lparr>mq_msgs = [], mq_send_waitq = [], mq_recv_waitq = [], mq_owner = None, mq_owner_gen = 0,
     mq_generation = 0, mq_msg_count = 0, mq_max_msgs = 0, mq_max_msg_size = 0, mq_refcount = 0, mq_in_use = False\<rparr>"

definition mq_boot :: mq_state where
  "mq_boot = \<lparr>mq_pool = (\<lambda>_. zero_mqueue), msg_pool = (\<lambda>_ _. zero_msg), mq_waiter_woken = (\<lambda>_. False),
     mq_waiter_timed_out = (\<lambda>_. False), mq_wakes = []\<rparr>"

lemma mq_boot_ok: "mqs_ok mq_boot"
  by (simp add: mqs_ok_def mq_ok_def slots_ok_def mq_boot_def zero_mqueue_def zero_msg_def)

lemma mq_boot_open:
  assumes "max_msgs \<noteq> 0" "unat max_msgs \<le> 16" "sz \<noteq> 0" "sz \<le> 256"
  shows "mqueue_open owner max_msgs sz mq_boot = (Inr 0, upd_mq 0 (\<lambda>_. zero_mqueue
    \<lparr>mq_in_use := True, mq_owner := proc_ptr_of owner, mq_owner_gen := (case owner of None \<Rightarrow> 0 | Some (_, g) \<Rightarrow> g),
     mq_generation := 1, mq_max_msgs := max_msgs, mq_max_msg_size := sz, mq_refcount := 1\<rparr>) mq_boot)"
proof -
  have "first_index (\<lambda>i. \<not> mq_in_use (mq_pool mq_boot i)) 0 8 = Some 0"
    by (subst first_index.simps) (simp add: mq_boot_def zero_mqueue_def)
  with assms show ?thesis
    by (simp add: mqueue_open_def mqueue_init_one_def upd_mq_def)
      (simp add: mq_boot_def zero_mqueue_def)
qed

text \<open>A state with one open queue of two messages of at most eight bytes.\<close>

definition mq_one :: mq_state where
  "mq_one = snd (mqueue_open None 2 8 mq_boot)"

lemma mq_one_facts:
  "mqs_ok mq_one" "mqueue_get 0 mq_one = Some 0" "mq_abs 0 mq_one = []"
  "unat (mq_max_msgs (mq_pool mq_one 0)) = 2" "mq_max_msg_size (mq_pool mq_one 0) = 8"
  using mqs_ok_open [OF mq_boot_ok, of None 2 8 "fst (mqueue_open None 2 8 mq_boot)" mq_one]
  by (simp_all add: mq_one_def)
    (simp_all add: mq_boot_open proc_ptr_of_def mqueue_get_def mq_handle_def mq_abs_def zero_mqueue_def)






text \<open>
  C20: A non-blocking receive implements removal from the abstract priority queue: it takes the first
  message, which has the highest priority and is the oldest of that priority, and leaves the rest in
  order; an empty queue gives \<^verbatim>\<open>EAGAIN\<close> and a message longer than the buffer gives \<^verbatim>\<open>EMSGSIZE\<close>, both without any change.
\<close>

theorem mqueue_tryreceive_refines:
  assumes "mqs_ok st" "mqueue_get h st = Some q" "0 \<le> n"
  shows "if mq_abs q st = [] then mqueue_tryreceive h n st = (Inl EAGAIN, st)
    else if int (length (fst (hd (mq_abs q st)))) > n then mqueue_tryreceive h n st = (Inl EMSGSIZE, st)
    else (\<exists>st'. mqueue_tryreceive h n st = (Inr (hd (mq_abs q st)), st') \<and> mq_abs q st' = tl (mq_abs q st) \<and>
      (\<forall>m \<in> set (mq_abs q st). snd m \<le> snd (hd (mq_abs q st))))"
proof -
  have q: "q < MQ_MAX_QUEUES" "mq_ok q st"
    using mqueue_get_Some [OF assms(2)] assms(1) by (auto simp: mqs_ok_def)
  have max: "\<forall>m \<in> set (mq_abs q st). snd m \<le> snd (hd (mq_abs q st))" if "mq_abs q st \<noteq> []"
    using q(2) that by (cases "mq_msgs (mq_pool st q)") (auto simp: mq_abs_def mq_ok_def slots_ok_def)
  consider "mq_abs q st = []" | "mq_abs q st \<noteq> []" "int (length (fst (hd (mq_abs q st)))) > n"
    | "mq_abs q st \<noteq> []" "int (length (fst (hd (mq_abs q st)))) \<le> n" by linarith
  then show ?thesis
  proof cases
    case 1
    with assms show ?thesis by (simp add: mqueue_tryreceive_def mq_abs_def)
  next
    case 2
    with assms show ?thesis
      by (cases "mq_msgs (mq_pool st q)") (auto simp: mqueue_tryreceive_def mqueue_do_receive_def mq_abs_def)
  next
    case 3
    then have ne: "mq_msgs (mq_pool st q) \<noteq> []" by (simp add: mq_abs_def)
    from mqueue_do_receive_ok [OF q(2) ne 3(2)] obtain st' where
      "mqueue_do_receive q n st = (Inr (hd (mq_abs q st)), st')" "mq_abs q st' = tl (mq_abs q st)" .
    with 3 ne max assms show ?thesis by (simp add: mqueue_tryreceive_def)
  qed
qed

theorem mqueue_tryreceive_refines_witness:
  "\<exists>st :: mq_state. mqueue_get 0 st = Some 0 \<and> mqueue_tryreceive 0 4 st = (Inl EAGAIN, st)"
  using mqueue_tryreceive_refines [OF mq_one_facts(1,2), of 4] mq_one_facts by auto


text \<open>
  C22: A blocked plain send whose queue is closed meanwhile does not fail: the closed queue is empty, so
  the loop condition is false, the resumed sender stores its message in the free queue and reports
  success. The timed send, which checks the queue again after the wait, fails with \<^verbatim>\<open>EBADF\<close>.
\<close>

theorem mqueue_send_after_close:
  assumes "mqs_ok st" "mqueue_get h st = Some q"
  shows "\<exists>closed st'. mqueue_close h st = (Inr (), closed) \<and>
      mqueue_send_resume q gen ab t msg pr closed = (Done (Inr ()), st') \<and>
      \<not> mq_in_use (mq_pool st' q) \<and> length (mq_msgs (mq_pool st' q)) = 1 \<and>
      (mq_waiter_woken closed t \<longrightarrow> fst (mqueue_timedsend_resume q gen ab t msg pr closed) = Done (Inl EBADF))"
proof -
  define closed where "closed = mqueue_destroy_locked q st"
  have live: "q < MQ_MAX_QUEUES" "mq_in_use (mq_pool st q)" "mq_handle h = Some q"
    using mqueue_get_Some [OF assms(2)] assms(2) by (auto simp: mqueue_get_def split: option.splits if_splits)
  then have mx: "0 < mq_max_msgs (mq_pool st q)"
    using assms(1) by (auto simp: mqs_ok_def mq_ok_def slots_ok_def word_less_nat_alt)
  have q: "mq_pool closed q = (mq_pool st q)\<lparr>mq_in_use := False, mq_refcount := 0, mq_msgs := [], mq_msg_count := 0,
      mq_recv_waitq := [], mq_send_waitq := []\<rparr>" "\<not> mm_in_use (msg_pool closed q 0)"
    by (simp_all add: closed_def destroy_queue)
  have al: "msg_alloc q closed = Some 0"
    unfolding msg_alloc_def by (subst first_index.simps) (simp add: q)
  have un: "upd_mq q (\<lambda>mq. mq\<lparr>mq_send_waitq := remove1 t (mq_send_waitq mq)\<rparr>) closed = closed"
    using q(1) by (simp add: upd_mq_def fun_upd_idem)
  have "\<exists>st'. mqueue_send_resume q gen ab t msg pr closed = (Done (Inr ()), st') \<and>
      \<not> mq_in_use (mq_pool st' q) \<and> length (mq_msgs (mq_pool st' q)) = 1"
    using mx by (simp add: mqueue_send_resume_def un mqueue_send_loop_def q mqueue_enqueue_def al Let_def
        wake_one_recv_def not_le)
  moreover have "mq_waiter_woken closed t \<Longrightarrow> fst (mqueue_timedsend_resume q gen ab t msg pr closed) = Done (Inl EBADF)"
    using mx by (simp add: mqueue_timedsend_resume_def mqueue_timedsend_loop_def mq_unlink_send_def q Let_def)
  moreover have "mqueue_close h st = (Inr (), closed)"
    using live by (simp add: mqueue_close_def closed_def)
  ultimately show ?thesis by blast
qed

theorem mqueue_send_after_close_witness:
  "\<exists>st closed st'. mqueue_close 0 st = (Inr (), closed) \<and>
      mqueue_send_resume 0 1 None 7 [1] 0 closed = (Done (Inr ()), st') \<and> \<not> mq_in_use (mq_pool st' 0)"
  using mqueue_send_after_close [OF mq_one_facts(1,2), of 1 None 7 "[1]" 0] by blast


end
