(* ===== verification/Cap_State.thy ===== *)
theory Cap_State
  imports Cap_Word Posix_Timer Mqueue
begin

text \<open>
  The state of the capability layer (\<^verbatim>\<open>kernel/proc/cap.c\<close>) and its operations on one slot: the
  per-process tables of slot words, the pool of file descriptions, the pool of delegation
  records, and the reference counts of the objects a slot can name. The state extends the one of the POSIX
  timers, which already holds the process table. The synchronisation pools keep only their headers
  here (the primitives are not touched by reference counting). The calls into the file system and the pipes
  made when a file description is disposed of are recorded in \<open>fd_closes\<close>, latest first. A section
  that runs under a process's \<^verbatim>\<open>fd_lock\<close> is one atomic step.
\<close>

section \<open>State\<close>

abbreviation (input) "CAP_TYPE_NONE \<equiv> 0 :: u8"
abbreviation (input) "CAP_TYPE_FD \<equiv> 1 :: u8"
abbreviation (input) "CAP_TYPE_TIMER \<equiv> 2 :: u8"
abbreviation (input) "CAP_TYPE_THREAD \<equiv> 3 :: u8"
abbreviation (input) "CAP_TYPE_DELEGATE \<equiv> 6 :: u8"
abbreviation (input) "CAP_TYPE_MUTEX \<equiv> 9 :: u8"
abbreviation (input) "CAP_TYPE_CONDVAR \<equiv> 10 :: u8"
abbreviation (input) "CAP_TYPE_SEMAPHORE \<equiv> 11 :: u8"
abbreviation (input) "CAP_TYPE_BARRIER \<equiv> 12 :: u8"
abbreviation (input) "CAP_TYPE_RWLOCK \<equiv> 13 :: u8"
abbreviation (input) "CAP_TYPE_MQUEUE \<equiv> 14 :: u8"

abbreviation (input) "CAP_RIGHT_READ \<equiv> 1 :: u8"
abbreviation (input) "CAP_RIGHT_WRITE \<equiv> 2 :: u8"
abbreviation (input) "CAP_RIGHT_GRANT \<equiv> 8 :: u8"
abbreviation (input) "CAP_FD_META_CLOEXEC \<equiv> 1 :: u16"

abbreviation (input) "CAP_FD_POOL_MAX \<equiv> 1984 :: nat"
abbreviation (input) "CAP_DELEGATE_RECORD_MAX \<equiv> 1024 :: nat"

datatype cap_fd_kind = CAP_FD_KIND_CONSOLE | CAP_FD_KIND_VFS | CAP_FD_KIND_PIPE

record vfs_file =
  vf_private_data :: "nat option"
  vf_mount_idx :: u8

record fd_pool_entry =
  fe_in_use :: bool
  fe_kind :: cap_fd_kind
  fe_pipe_read_end :: bool
  fe_is_seekable :: bool
  fe_console_id :: u8
  fe_open_flags :: u32
  fe_offset :: int
  fe_refcount :: u32
  fe_file :: vfs_file
  fe_pipe :: "nat option"

record delegate_record =
  dr_in_use :: bool
  dr_dst_proc :: proc_ptr
  dr_dst_generation :: u32
  dr_dst_object_index :: u16
  dr_dst_type :: u8
  dr_grant_epoch :: u64
  dr_refcount :: u32

record cap_ref =
  cr_ptr :: "nat option"
  cr_object_index :: u16
  cr_type :: u8

datatype fd_close = VfsClose vfs_file | PipeCloseRead nat | PipeCloseWrite nat

record cap_state = timer_state +
  fd_pool :: "nat \<Rightarrow> fd_pool_entry"
  delegate_pool :: "nat \<Rightarrow> delegate_record"
  next_grant_epoch :: u64
  mutex_pool :: "unit sync_pool"
  condvar_pool :: "unit sync_pool"
  sem_pool :: "unit sync_pool"
  barrier_pool :: "unit sync_pool"
  rwlock_pool :: "unit sync_pool"
  mqueues :: mq_state
  fd_closes :: "fd_close list"

text \<open>What \<^verbatim>\<open>memset\<close> leaves in an entry.\<close>

definition zero_fd_entry :: fd_pool_entry where
  "zero_fd_entry = \<lparr>fe_in_use = False, fe_kind = CAP_FD_KIND_CONSOLE, fe_pipe_read_end = False,
     fe_is_seekable = False, fe_console_id = 0, fe_open_flags = 0, fe_offset = 0, fe_refcount = 0,
     fe_file = \<lparr>vf_private_data = None, vf_mount_idx = 0\<rparr>, fe_pipe = None\<rparr>"

definition zero_delegate :: delegate_record where
  "zero_delegate = \<lparr>dr_in_use = False, dr_dst_proc = None, dr_dst_generation = 0, dr_dst_object_index = 0,
     dr_dst_type = 0, dr_grant_epoch = 0, dr_refcount = 0\<rparr>"

definition zero_ref :: cap_ref where
  "zero_ref = \<lparr>cr_ptr = None, cr_object_index = 0, cr_type = CAP_TYPE_NONE\<rparr>"

definition zero_view :: cap_slot_view where
  "zero_view = \<lparr>sv_valid = False, sv_slot_index = 0, sv_object_index = 0, sv_type = 0, sv_rights = 0,
     sv_type_meta = 0, sv_generation = 0\<rparr>"

definition upd_proc :: "nat \<Rightarrow> (proc \<Rightarrow> proc) \<Rightarrow> 'z timer_state_scheme \<Rightarrow> 'z timer_state_scheme" where
  "upd_proc p f st = st\<lparr>proc_table := (proc_table st)(p := f (proc_table st p))\<rparr>"

definition upd_fd :: "nat \<Rightarrow> (fd_pool_entry \<Rightarrow> fd_pool_entry) \<Rightarrow> 'z cap_state_scheme \<Rightarrow> 'z cap_state_scheme" where
  "upd_fd i f st = st\<lparr>fd_pool := (fd_pool st)(i := f (fd_pool st i))\<rparr>"

definition upd_delegate ::
    "nat \<Rightarrow> (delegate_record \<Rightarrow> delegate_record) \<Rightarrow> 'z cap_state_scheme \<Rightarrow> 'z cap_state_scheme" where
  "upd_delegate i f st = st\<lparr>delegate_pool := (delegate_pool st)(i := f (delegate_pool st i))\<rparr>"

section \<open>Slots of a process\<close>

text \<open>The unpacked view of slot \<open>i\<close> of process \<open>p\<close>, as every operation reads it.\<close>

definition slot_at :: "'z timer_state_scheme \<Rightarrow> nat \<Rightarrow> nat \<Rightarrow> cap_slot_view" where
  "slot_at st p i = cap_unpack_slot (p_slots (proc_table st p) i) (of_nat i)"

definition cap_slot_publish ::
    "nat \<Rightarrow> nat \<Rightarrow> u16 \<Rightarrow> u8 \<Rightarrow> u8 \<Rightarrow> u16 \<Rightarrow> u32 \<Rightarrow> 'z timer_state_scheme \<Rightarrow> 'z timer_state_scheme" where
  "cap_slot_publish p i obj ty rights meta generation = upd_proc p (\<lambda>pr. pr
     \<lparr>p_slots := (p_slots pr)(i := cap_pack_slot True obj ty rights meta generation),
      p_delegate_epoch := (p_delegate_epoch pr)(i := 0)\<rparr>)"

definition cap_slot_delegate_epoch :: "'z timer_state_scheme \<Rightarrow> nat \<Rightarrow> nat \<Rightarrow> u64" where
  "cap_slot_delegate_epoch st p i = p_delegate_epoch (proc_table st p) i"

definition cap_slot_set_delegate_epoch :: "nat \<Rightarrow> nat \<Rightarrow> u64 \<Rightarrow> 'z timer_state_scheme \<Rightarrow> 'z timer_state_scheme" where
  "cap_slot_set_delegate_epoch p i e =
     upd_proc p (\<lambda>pr. pr\<lparr>p_delegate_epoch := (p_delegate_epoch pr)(i := e)\<rparr>)"

definition cap_slot_invalidate :: "nat \<Rightarrow> nat \<Rightarrow> 'z timer_state_scheme \<Rightarrow> 'z timer_state_scheme" where
  "cap_slot_invalidate p i st =
     (let slot = slot_at st p i; generation = cap_next_generation (sv_generation slot)
      in upd_proc p (\<lambda>pr. pr
           \<lparr>p_slots := (p_slots pr)(i := cap_pack_slot False 0 0 0 0 generation),
            p_delegate_epoch := (p_delegate_epoch pr)(i := 0)\<rparr>) st)"

section \<open>Releasing the object behind a slot\<close>

definition fd_pool_entry_of :: "u16 \<Rightarrow> nat option" where
  "fd_pool_entry_of object_index = (if unat object_index \<ge> CAP_FD_POOL_MAX then None else Some (unat object_index))"

definition fd_close_of :: "fd_pool_entry \<Rightarrow> fd_close list" where
  "fd_close_of e =
     (case fe_kind e of
        CAP_FD_KIND_VFS \<Rightarrow> [VfsClose (fe_file e)]
      | CAP_FD_KIND_PIPE \<Rightarrow>
          (case fe_pipe e of
             None \<Rightarrow> []
           | Some pipe \<Rightarrow> [if fe_pipe_read_end e then PipeCloseRead pipe else PipeCloseWrite pipe])
      | CAP_FD_KIND_CONSOLE \<Rightarrow> [])"

definition cap_fd_dispose :: "u16 \<Rightarrow> 'z cap_state_scheme \<Rightarrow> 'z cap_state_scheme" where
  "cap_fd_dispose object_index st =
     (case fd_pool_entry_of object_index of
        None \<Rightarrow> st
      | Some i \<Rightarrow> (upd_fd i (\<lambda>_. zero_fd_entry) st)\<lparr>fd_closes := fd_close_of (fd_pool st i) @ fd_closes st\<rparr>)"

text \<open>One atomic decrement of a file description's count, with disposal when it reaches zero.\<close>

definition fd_put :: "u16 \<Rightarrow> 'z cap_state_scheme \<Rightarrow> 'z cap_state_scheme" where
  "fd_put object_index st =
     (case fd_pool_entry_of object_index of
        None \<Rightarrow> st
      | Some i \<Rightarrow>
          let rc = fe_refcount (fd_pool st i) - 1;
              st = upd_fd i (\<lambda>e. e\<lparr>fe_refcount := rc\<rparr>) st
          in if rc = 0 then cap_fd_dispose object_index st else st)"

definition cap_release_object_once :: "u8 \<Rightarrow> u16 \<Rightarrow> 'z cap_state_scheme \<Rightarrow> 'z cap_state_scheme" where
  "cap_release_object_once ty object_index st =
     (let h = uint object_index in
      if ty = CAP_TYPE_TIMER then posix_timer_put_idx object_index st
      else if ty = CAP_TYPE_MUTEX then st\<lparr>mutex_pool := sync_put_idx SYNC_MAX_MUTEXES (mutex_pool st) h\<rparr>
      else if ty = CAP_TYPE_CONDVAR then st\<lparr>condvar_pool := sync_put_idx SYNC_MAX_CONDVARS (condvar_pool st) h\<rparr>
      else if ty = CAP_TYPE_SEMAPHORE then st\<lparr>sem_pool := sync_put_idx SYNC_MAX_SEMAPHORES (sem_pool st) h\<rparr>
      else if ty = CAP_TYPE_BARRIER then st\<lparr>barrier_pool := sync_put_idx SYNC_MAX_BARRIERS (barrier_pool st) h\<rparr>
      else if ty = CAP_TYPE_RWLOCK then st\<lparr>rwlock_pool := sync_put_idx SYNC_MAX_RWLOCKS (rwlock_pool st) h\<rparr>
      else if ty = CAP_TYPE_MQUEUE then st\<lparr>mqueues := mqueue_put_idx h (mqueues st)\<rparr>
      else st)"

definition cap_release_object :: "u8 \<Rightarrow> u16 \<Rightarrow> u32 \<Rightarrow> 'z cap_state_scheme \<Rightarrow> 'z cap_state_scheme" where
  "cap_release_object ty object_index n st =
     (if n = 0 then st
      else if ty = CAP_TYPE_FD then (fd_put object_index ^^ unat n) st
      else (cap_release_object_once ty object_index ^^ unat n) st)"

definition cap_put_ref :: "cap_ref \<Rightarrow> 'z cap_state_scheme \<Rightarrow> cap_ref \<times> 'z cap_state_scheme" where
  "cap_put_ref ref st =
     (if cr_type ref = CAP_TYPE_NONE then (ref, st)
      else (zero_ref, cap_release_object (cr_type ref) (cr_object_index ref) 1 st))"

definition delegate_record_put :: "u16 \<Rightarrow> 'z cap_state_scheme \<Rightarrow> 'z cap_state_scheme" where
  "delegate_record_put record_index st =
     (let r = unat record_index in
      if r < CAP_DELEGATE_RECORD_MAX \<and> dr_in_use (delegate_pool st r)
      then let rc = dr_refcount (delegate_pool st r) - 1;
               st = upd_delegate r (\<lambda>d. d\<lparr>dr_refcount := rc\<rparr>) st
        in if rc = 0 then upd_delegate r (\<lambda>_. zero_delegate) st else st
      else st)"

definition cap_drop_slot_locked :: "nat \<Rightarrow> cap_slot_view \<Rightarrow> 'z cap_state_scheme \<Rightarrow> unit result \<times> 'z cap_state_scheme" where
  "cap_drop_slot_locked p slot st =
     (if \<not> sv_valid slot then (Inl EBADF, st)
      else let st = cap_slot_invalidate p (unat (sv_slot_index slot)) st
        in if sv_type slot = CAP_TYPE_DELEGATE then (Inr (), delegate_record_put (sv_object_index slot) st)
           else (Inr (), cap_release_object (sv_type slot) (sv_object_index slot) 1 st))"

section \<open>Finding a slot\<close>

definition cap_slot_is_thread_reserved :: "int \<Rightarrow> bool" where
  "cap_slot_is_thread_reserved slot_index \<longleftrightarrow>
     slot_index \<ge> int (CAP_SPACE_SLOTS - PROC_THREAD_MAX) \<and> slot_index < int CAP_SPACE_SLOTS"

definition cap_find_free_slot_locked :: "nat \<Rightarrow> bool \<Rightarrow> 'z cap_state_scheme \<Rightarrow> nat option" where
  "cap_find_free_slot_locked p allow_thread_reserved st =
     first_index (\<lambda>i. \<not> (\<not> allow_thread_reserved \<and> cap_slot_is_thread_reserved (int i)) \<and> \<not> sv_valid (slot_at st p i))
       0 CAP_SPACE_SLOTS"

definition cap_reserve_slot_locked :: "nat \<Rightarrow> int \<Rightarrow> bool \<Rightarrow> bool \<Rightarrow> 'z cap_state_scheme \<Rightarrow> nat result" where
  "cap_reserve_slot_locked p slot_hint exact allow_thread_reserved st =
     (let free = (case cap_find_free_slot_locked p allow_thread_reserved st of None \<Rightarrow> Inl ENOSPC | Some i \<Rightarrow> Inr i)
      in if slot_hint \<ge> 0
         then if slot_hint \<ge> int CAP_SPACE_SLOTS then Inl EBADF
              else if \<not> allow_thread_reserved \<and> cap_slot_is_thread_reserved slot_hint then Inl EBADF
              else if \<not> sv_valid (slot_at st p (nat slot_hint)) \<or> exact then Inr (nat slot_hint)
              else free
         else free)"

definition cap_find_free_fd :: "proc_ptr \<Rightarrow> 'z cap_state_scheme \<Rightarrow> nat option" where
  "cap_find_free_fd p st = (case p of None \<Rightarrow> None | Some p \<Rightarrow> cap_find_free_slot_locked p False st)"

section \<open>Tokens\<close>

definition cap_validate_token_locked :: "nat \<Rightarrow> u64 \<Rightarrow> 'z timer_state_scheme \<Rightarrow> cap_slot_view option" where
  "cap_validate_token_locked p token st =
     (let generation = token_generation token; ty = token_type token; rights = token_rights token;
          slot_index = token_slot token
      in if unat slot_index \<ge> CAP_SPACE_SLOTS then None
         else let slot = slot_at st p (unat slot_index) in
           if \<not> sv_valid slot \<or> sv_generation slot \<noteq> generation \<or> sv_type slot \<noteq> ty \<or> sv_rights slot \<noteq> rights
           then None else Some slot)"

definition cap_slot_read :: "proc_ptr \<Rightarrow> int \<Rightarrow> 'z timer_state_scheme \<Rightarrow> cap_slot_view" where
  "cap_slot_read p slot_idx st =
     (case p of
        None \<Rightarrow> zero_view
      | Some p \<Rightarrow> if slot_idx < 0 \<or> slot_idx \<ge> int CAP_SPACE_SLOTS then zero_view
                   else slot_at st p (nat slot_idx))"

text \<open>The view a lookup accepts: valid, of the expected type, with all required rights.\<close>

definition slot_grants :: "cap_slot_view \<Rightarrow> u8 \<Rightarrow> u8 \<Rightarrow> bool" where
  "slot_grants slot required_rights expected_type \<longleftrightarrow>
     sv_valid slot \<and> sv_type slot = expected_type \<and> sv_rights slot AND required_rights = required_rights"

definition cap_lookup_slot :: "proc_ptr \<Rightarrow> int \<Rightarrow> u8 \<Rightarrow> u8 \<Rightarrow> 'z timer_state_scheme \<Rightarrow> cap_slot_view option" where
  "cap_lookup_slot p handle required_rights expected_type st =
     (case p of
        None \<Rightarrow> None
      | Some p \<Rightarrow>
          if handle < 0 \<or> handle \<ge> int CAP_SPACE_SLOTS then None
          else let slot = slot_at st p (nat handle)
            in if slot_grants slot required_rights expected_type then Some slot else None)"

definition cap_lookup_token :: "proc_ptr \<Rightarrow> u64 \<Rightarrow> u8 \<Rightarrow> u8 \<Rightarrow> 'z timer_state_scheme \<Rightarrow> cap_slot_view option" where
  "cap_lookup_token p token required_rights expected_type st =
     (case p of
        None \<Rightarrow> None
      | Some p \<Rightarrow>
          (case cap_validate_token_locked p token st of
             None \<Rightarrow> None
           | Some slot \<Rightarrow>
               if sv_type slot = expected_type \<and> sv_rights slot AND required_rights = required_rights
               then Some slot else None))"

definition cap_get_token :: "proc_ptr \<Rightarrow> int \<Rightarrow> u8 \<Rightarrow> 'z timer_state_scheme \<Rightarrow> u64 result" where
  "cap_get_token p slot_idx expected_type st =
     (case p of
        None \<Rightarrow> Inl EBADF
      | Some p \<Rightarrow>
          if slot_idx < 0 \<or> slot_idx \<ge> int CAP_SPACE_SLOTS then Inl EBADF
          else let slot = slot_at st p (nat slot_idx) in
            if \<not> sv_valid slot then Inl EBADF
            else if sv_type slot \<noteq> expected_type then Inl EINVAL
            else Inr (cap_make_handle (Some slot)))"

definition cap_drop_token :: "proc_ptr \<Rightarrow> u64 \<Rightarrow> 'z cap_state_scheme \<Rightarrow> unit result \<times> 'z cap_state_scheme" where
  "cap_drop_token p token st =
     (case p of
        None \<Rightarrow> (Inl EPERM, st)
      | Some p \<Rightarrow>
          (case cap_validate_token_locked p token st of
             None \<Rightarrow> (Inl EBADF, st)
           | Some slot \<Rightarrow> cap_drop_slot_locked p slot st))"

end
