(* ===== verification/Cap_Ops.thy ===== *)
theory Cap_Ops
  imports Cap_State
begin

text \<open>
  The operations of the capability layer (\<^verbatim>\<open>kernel/proc/cap.c\<close>): minting, closing and duplicating
  file descriptors, pinned lookups, opening handles of the other object types, delegation to
  another process and its revocation, and the set-up and teardown of a process's capability space.
\<close>

section \<open>Minting file descriptors\<close>

definition cap_fd_pool_alloc :: "cap_fd_kind \<Rightarrow> 'z cap_state_scheme \<Rightarrow> nat result \<times> 'z cap_state_scheme" where
  "cap_fd_pool_alloc kind st =
     (case first_index (\<lambda>i. \<not> fe_in_use (fd_pool st i)) 0 CAP_FD_POOL_MAX of
        None \<Rightarrow> (Inl ENFILE, st)
      | Some i \<Rightarrow> (Inr i, upd_fd i (\<lambda>_. zero_fd_entry\<lparr>fe_in_use := True, fe_kind := kind, fe_refcount := 1\<rparr>) st))"

definition cap_fd_pool_abort_new :: "u16 \<Rightarrow> 'z cap_state_scheme \<Rightarrow> 'z cap_state_scheme" where
  "cap_fd_pool_abort_new object_index = fd_put object_index"

text \<open>
  The part of \<^verbatim>\<open>cap_mint_fd_locked\<close> after the reference has been taken: reserve a slot, drop what an
  exact target holds, publish.
\<close>

definition cap_mint_fd_slot ::
    "nat \<Rightarrow> u16 \<Rightarrow> u8 \<Rightarrow> u16 \<Rightarrow> int \<Rightarrow> bool \<Rightarrow> bool \<Rightarrow> 'z cap_state_scheme \<Rightarrow> nat result \<times> 'z cap_state_scheme" where
  "cap_mint_fd_slot p object_index rights meta slot_hint exact_target bump_ref st =
     (let undo = (\<lambda>st. if bump_ref then cap_release_object CAP_TYPE_FD object_index 1 st else st) in
      case cap_reserve_slot_locked p slot_hint exact_target False st of
        Inl e \<Rightarrow> (Inl (if e = ENOSPC then EMFILE else e), undo st)
      | Inr i \<Rightarrow>
          let prev = slot_at st p i;
              (drop, st) = (if exact_target \<and> sv_valid prev then cap_drop_slot_locked p prev st else (Inr (), st))
          in (case drop of
                Inl e \<Rightarrow> (Inl e, undo st)
              | Inr _ \<Rightarrow>
                  let prev = slot_at st p i
                  in (Inr i, cap_slot_publish p i object_index CAP_TYPE_FD rights meta (sv_generation prev) st)))"

definition cap_mint_fd_locked ::
    "nat \<Rightarrow> u16 \<Rightarrow> u8 \<Rightarrow> u16 \<Rightarrow> int \<Rightarrow> bool \<Rightarrow> bool \<Rightarrow> 'z cap_state_scheme \<Rightarrow> nat result \<times> 'z cap_state_scheme" where
  "cap_mint_fd_locked p object_index rights meta slot_hint exact_target bump_ref st =
     (if bump_ref
      then (case fd_pool_entry_of object_index of
              None \<Rightarrow> (Inl EBADF, st)
            | Some i \<Rightarrow>
                if \<not> fe_in_use (fd_pool st i) then (Inl EBADF, st)
                else cap_mint_fd_slot p object_index rights meta slot_hint exact_target True
                       (upd_fd i (\<lambda>e. e\<lparr>fe_refcount := fe_refcount e + 1\<rparr>) st))
      else cap_mint_fd_slot p object_index rights meta slot_hint exact_target False st)"

text \<open>The three ways of opening a descriptor mint a fresh file description and give it back on failure.\<close>

definition cap_open_new ::
    "nat \<Rightarrow> (fd_pool_entry \<Rightarrow> fd_pool_entry) \<Rightarrow> u8 \<Rightarrow> int \<Rightarrow> bool \<Rightarrow> nat \<Rightarrow> 'z cap_state_scheme \<Rightarrow>
     nat result \<times> 'z cap_state_scheme" where
  "cap_open_new p fill rights slot_hint exact_target i st =
     (let st = upd_fd i fill st in
      case cap_mint_fd_locked p (of_nat i) rights 0 slot_hint exact_target False st of
        (Inl e, st) \<Rightarrow> (Inl e, cap_fd_pool_abort_new (of_nat i) st)
      | (Inr fd, st) \<Rightarrow> (Inr fd, st))"

definition cap_open_vfs ::
    "nat \<Rightarrow> vfs_file \<Rightarrow> u8 \<Rightarrow> bool \<Rightarrow> u32 \<Rightarrow> int \<Rightarrow> bool \<Rightarrow> 'z cap_state_scheme \<Rightarrow> nat result \<times> 'z cap_state_scheme" where
  "cap_open_vfs p file rights is_seekable open_flags slot_hint exact_target st =
     (case cap_fd_pool_alloc CAP_FD_KIND_VFS st of
        (Inl e, st) \<Rightarrow> (Inl e, st\<lparr>fd_closes := VfsClose file # fd_closes st\<rparr>)
      | (Inr i, st) \<Rightarrow> cap_open_new p (\<lambda>e. e\<lparr>fe_file := file, fe_is_seekable := is_seekable, fe_open_flags := open_flags\<rparr>)
                         rights slot_hint exact_target i st)"

definition cap_open_pipe ::
    "nat \<Rightarrow> nat \<Rightarrow> bool \<Rightarrow> u8 \<Rightarrow> int \<Rightarrow> bool \<Rightarrow> 'z cap_state_scheme \<Rightarrow> nat result \<times> 'z cap_state_scheme" where
  "cap_open_pipe p pipe read_end rights slot_hint exact_target st =
     (case cap_fd_pool_alloc CAP_FD_KIND_PIPE st of
        (Inl e, st) \<Rightarrow> (Inl e, st\<lparr>fd_closes := (if read_end then PipeCloseRead pipe else PipeCloseWrite pipe) # fd_closes st\<rparr>)
      | (Inr i, st) \<Rightarrow> cap_open_new p (\<lambda>e. e\<lparr>fe_pipe := Some pipe, fe_pipe_read_end := read_end, fe_is_seekable := False\<rparr>)
                         rights slot_hint exact_target i st)"

definition cap_open_console ::
    "nat \<Rightarrow> u8 \<Rightarrow> u8 \<Rightarrow> int \<Rightarrow> bool \<Rightarrow> 'z cap_state_scheme \<Rightarrow> nat result \<times> 'z cap_state_scheme" where
  "cap_open_console p console_id rights slot_hint exact_target st =
     (case cap_fd_pool_alloc CAP_FD_KIND_CONSOLE st of
        (Inl e, st) \<Rightarrow> (Inl e, st)
      | (Inr i, st) \<Rightarrow> cap_open_new p (\<lambda>e. e\<lparr>fe_console_id := console_id, fe_is_seekable := False\<rparr>)
                         rights slot_hint exact_target i st)"

definition cap_close_fd :: "proc_ptr \<Rightarrow> int \<Rightarrow> 'z cap_state_scheme \<Rightarrow> unit result \<times> 'z cap_state_scheme" where
  "cap_close_fd p fd st =
     (case p of
        None \<Rightarrow> (Inl EBADF, st)
      | Some p \<Rightarrow>
          if fd < 0 \<or> fd \<ge> int CAP_SPACE_SLOTS then (Inl EBADF, st)
          else let slot = slot_at st p (nat fd) in
            if \<not> sv_valid slot \<or> sv_type slot \<noteq> CAP_TYPE_FD then (Inl EBADF, st)
            else cap_drop_slot_locked p slot st)"

section \<open>Pinned lookups\<close>

definition cap_pinned_lookup ::
    "proc_ptr \<Rightarrow> int \<Rightarrow> u8 \<Rightarrow> u8 \<Rightarrow> 'z cap_state_scheme \<Rightarrow> (u16 \<times> nat) option \<times> 'z cap_state_scheme" where
  "cap_pinned_lookup p handle required_rights expected_type st =
     (case p of
        None \<Rightarrow> (None, st)
      | Some p \<Rightarrow>
          if handle < 0 \<or> handle \<ge> int CAP_SPACE_SLOTS then (None, st)
          else let slot = slot_at st p (nat handle); obj = sv_object_index slot in
            if \<not> slot_grants slot required_rights expected_type then (None, st)
            else if expected_type = CAP_TYPE_FD
            then (case fd_pool_entry_of obj of
                    None \<Rightarrow> (None, st)
                  | Some i \<Rightarrow>
                      if fe_in_use (fd_pool st i)
                      then (Some (obj, i), upd_fd i (\<lambda>e. e\<lparr>fe_refcount := fe_refcount e + 1\<rparr>) st)
                      else (None, st))
            else if expected_type = CAP_TYPE_TIMER
            then (case posix_timer_ptr obj of
                    None \<Rightarrow> (None, st)
                  | Some i \<Rightarrow>
                      if pt_in_use (timer_pool st i) then (Some (obj, i), timer_get_ref i st) else (None, st))
            else (None, st))"

definition pinned_ref :: "u8 \<Rightarrow> (u16 \<times> nat) option \<times> 'z cap_state_scheme \<Rightarrow> cap_ref \<times> 'z cap_state_scheme" where
  "pinned_ref ty r =
     (case r of
        (None, st) \<Rightarrow> (zero_ref, st)
      | (Some (obj, i), st) \<Rightarrow> (\<lparr>cr_ptr = Some i, cr_object_index = obj, cr_type = ty\<rparr>, st))"

definition cap_lookup_fd :: "proc_ptr \<Rightarrow> int \<Rightarrow> u8 \<Rightarrow> 'z cap_state_scheme \<Rightarrow> cap_ref \<times> 'z cap_state_scheme" where
  "cap_lookup_fd p fd required_rights st =
     pinned_ref CAP_TYPE_FD (cap_pinned_lookup p fd required_rights CAP_TYPE_FD st)"

definition cap_lookup_timer :: "proc_ptr \<Rightarrow> int \<Rightarrow> u8 \<Rightarrow> 'z cap_state_scheme \<Rightarrow> cap_ref \<times> 'z cap_state_scheme" where
  "cap_lookup_timer p handle required_rights st =
     pinned_ref CAP_TYPE_TIMER (cap_pinned_lookup p handle required_rights CAP_TYPE_TIMER st)"

definition cap_fd_is_valid :: "proc_ptr \<Rightarrow> int \<Rightarrow> 'z cap_state_scheme \<Rightarrow> bool" where
  "cap_fd_is_valid p fd st \<longleftrightarrow>
     (let slot = cap_slot_read p fd st in sv_valid slot \<and> sv_type slot = CAP_TYPE_FD)"

definition cap_fd_has_rights :: "proc_ptr \<Rightarrow> int \<Rightarrow> u8 \<Rightarrow> 'z cap_state_scheme \<Rightarrow> bool" where
  "cap_fd_has_rights p fd rights st \<longleftrightarrow> slot_grants (cap_slot_read p fd st) rights CAP_TYPE_FD"

text \<open>The queries pin the description, read one field and unpin it.\<close>

definition cap_fd_query ::
    "(fd_pool_entry \<Rightarrow> 'a) \<Rightarrow> 'a \<Rightarrow> proc_ptr \<Rightarrow> int \<Rightarrow> 'z cap_state_scheme \<Rightarrow> 'a \<times> 'z cap_state_scheme" where
  "cap_fd_query field dflt p fd st =
     (let (ref, st) = cap_lookup_fd p fd 0 st in
      case cr_ptr ref of
        None \<Rightarrow> (dflt, st)
      | Some i \<Rightarrow> (field (fd_pool st i), snd (cap_put_ref ref st)))"

definition cap_fd_is_seekable :: "proc_ptr \<Rightarrow> int \<Rightarrow> 'z cap_state_scheme \<Rightarrow> bool \<times> 'z cap_state_scheme" where
  "cap_fd_is_seekable = cap_fd_query fe_is_seekable False"

definition cap_fd_is_pipe :: "proc_ptr \<Rightarrow> int \<Rightarrow> 'z cap_state_scheme \<Rightarrow> bool \<times> 'z cap_state_scheme" where
  "cap_fd_is_pipe = cap_fd_query (\<lambda>e. fe_kind e = CAP_FD_KIND_PIPE) False"

definition cap_fd_pipe_read_end :: "proc_ptr \<Rightarrow> int \<Rightarrow> 'z cap_state_scheme \<Rightarrow> bool \<times> 'z cap_state_scheme" where
  "cap_fd_pipe_read_end = cap_fd_query fe_pipe_read_end False"

definition cap_fd_open_flags :: "proc_ptr \<Rightarrow> int \<Rightarrow> 'z cap_state_scheme \<Rightarrow> u32 \<times> 'z cap_state_scheme" where
  "cap_fd_open_flags = cap_fd_query fe_open_flags 0"

definition cap_object_inc_ref :: "u8 \<Rightarrow> u16 \<Rightarrow> 'z cap_state_scheme \<Rightarrow> bool \<times> 'z cap_state_scheme" where
  "cap_object_inc_ref ty object_index st =
     (let h = uint object_index in
      if ty = CAP_TYPE_MUTEX
      then (case sync_inc_idx SYNC_MAX_MUTEXES (mutex_pool st) h of (b, pool) \<Rightarrow> (b, st\<lparr>mutex_pool := pool\<rparr>))
      else if ty = CAP_TYPE_CONDVAR
      then (case sync_inc_idx SYNC_MAX_CONDVARS (condvar_pool st) h of (b, pool) \<Rightarrow> (b, st\<lparr>condvar_pool := pool\<rparr>))
      else if ty = CAP_TYPE_SEMAPHORE
      then (case sync_inc_idx SYNC_MAX_SEMAPHORES (sem_pool st) h of (b, pool) \<Rightarrow> (b, st\<lparr>sem_pool := pool\<rparr>))
      else if ty = CAP_TYPE_BARRIER
      then (case sync_inc_idx SYNC_MAX_BARRIERS (barrier_pool st) h of (b, pool) \<Rightarrow> (b, st\<lparr>barrier_pool := pool\<rparr>))
      else if ty = CAP_TYPE_RWLOCK
      then (case sync_inc_idx SYNC_MAX_RWLOCKS (rwlock_pool st) h of (b, pool) \<Rightarrow> (b, st\<lparr>rwlock_pool := pool\<rparr>))
      else if ty = CAP_TYPE_MQUEUE
      then (case mqueue_inc_idx h (mqueues st) of (b, mqs) \<Rightarrow> (b, st\<lparr>mqueues := mqs\<rparr>))
      else (False, st))"

definition cap_lookup_object :: "proc_ptr \<Rightarrow> int \<Rightarrow> u8 \<Rightarrow> u8 \<Rightarrow> 'z cap_state_scheme \<Rightarrow> cap_ref \<times> 'z cap_state_scheme" where
  "cap_lookup_object p handle required_rights expected_type st =
     (case p of
        None \<Rightarrow> (zero_ref, st)
      | Some p \<Rightarrow>
          if handle < 0 \<or> handle \<ge> int CAP_SPACE_SLOTS then (zero_ref, st)
          else let slot = slot_at st p (nat handle) in
            if \<not> slot_grants slot required_rights expected_type then (zero_ref, st)
            else (case cap_object_inc_ref expected_type (sv_object_index slot) st of
                    (False, st) \<Rightarrow> (zero_ref, st)
                  | (True, st) \<Rightarrow>
                      (\<lparr>cr_ptr = None, cr_object_index = sv_object_index slot, cr_type = expected_type\<rparr>, st)))"

section \<open>Handles of the other object types\<close>

definition cap_open_handle ::
    "proc_ptr \<Rightarrow> u16 \<Rightarrow> u8 \<Rightarrow> u8 \<Rightarrow> int \<Rightarrow> bool \<Rightarrow> 'z cap_state_scheme \<Rightarrow> nat result \<times> 'z cap_state_scheme" where
  "cap_open_handle p object_index ty rights slot_hint exact_target st =
     (case p of
        None \<Rightarrow> (Inl EINVAL, st)
      | Some p \<Rightarrow>
          (case cap_reserve_slot_locked p slot_hint exact_target (ty = CAP_TYPE_THREAD) st of
             Inl e \<Rightarrow> (Inl (if e = ENOSPC then EMFILE else e), st)
           | Inr i \<Rightarrow>
               let prev = slot_at st p i;
                   st = (if exact_target \<and> sv_valid prev then snd (cap_drop_slot_locked p prev st) else st);
                   prev = slot_at st p i
               in (Inr i, cap_slot_publish p i object_index ty rights 0 (sv_generation prev) st)))"

definition cap_open_timer ::
    "proc_ptr \<Rightarrow> u16 \<Rightarrow> u8 \<Rightarrow> int \<Rightarrow> bool \<Rightarrow> 'z cap_state_scheme \<Rightarrow> nat result \<times> 'z cap_state_scheme" where
  "cap_open_timer p object_index rights slot_hint exact_target st =
     (if p = None \<or> posix_timer_ptr object_index = None then (Inl EINVAL, st)
      else cap_open_handle p object_index CAP_TYPE_TIMER rights slot_hint exact_target st)"

section \<open>Duplication and inheritance\<close>

definition cap_dup_fd :: "proc_ptr \<Rightarrow> int \<Rightarrow> int \<Rightarrow> bool \<Rightarrow> 'z cap_state_scheme \<Rightarrow> nat result \<times> 'z cap_state_scheme" where
  "cap_dup_fd p oldfd newfd_hint exact_target st =
     (case p of
        None \<Rightarrow> (Inl EBADF, st)
      | Some p \<Rightarrow>
          if oldfd < 0 \<or> oldfd \<ge> int PROC_FD_MAX then (Inl EBADF, st)
          else if exact_target \<and> (newfd_hint < 0 \<or> newfd_hint \<ge> int PROC_FD_MAX) then (Inl EBADF, st)
          else let slot = slot_at st p (nat oldfd) in
            if \<not> sv_valid slot \<or> sv_type slot \<noteq> CAP_TYPE_FD then (Inl EBADF, st)
            else if exact_target \<and> newfd_hint = oldfd then (Inr (nat oldfd), st)
            else (case cap_mint_fd_locked p (sv_object_index slot) (sv_rights slot)
                         (sv_type_meta slot AND NOT CAP_FD_META_CLOEXEC) newfd_hint exact_target True st of
                    (Inl e, st) \<Rightarrow> (Inl e, st)
                  | (Inr fd, st) \<Rightarrow>
                      (Inr fd, cap_slot_set_delegate_epoch p fd (cap_slot_delegate_epoch st p (nat oldfd)) st)))"

text \<open>
  The two-process operations take the locks of both processes (\<^verbatim>\<open>cap_lock_two\<close>); the order in which
  they are taken is \<open>cap_lock_order\<close>.
\<close>

definition cap_lock_order :: "'z timer_state_scheme \<Rightarrow> proc_ptr \<Rightarrow> proc_ptr \<Rightarrow> nat list" where
  "cap_lock_order st a b =
     (case (a, b) of
        (None, None) \<Rightarrow> []
      | (Some x, None) \<Rightarrow> [x]
      | (None, Some y) \<Rightarrow> [y]
      | (Some x, Some y) \<Rightarrow>
          if x = y then [x]
          else if p_pid (proc_table st x) \<le> p_pid (proc_table st y) then [x, y] else [y, x])"

definition cap_inherit_fd ::
    "proc_ptr \<Rightarrow> proc_ptr \<Rightarrow> int \<Rightarrow> int \<Rightarrow> 'z cap_state_scheme \<Rightarrow> nat result \<times> 'z cap_state_scheme" where
  "cap_inherit_fd src dst src_fd dst_fd st =
     (case (src, dst) of
        (Some s, Some d) \<Rightarrow>
          if src_fd < 0 \<or> src_fd \<ge> int PROC_FD_MAX then (Inl EBADF, st)
          else if dst_fd < 0 \<or> dst_fd \<ge> int PROC_FD_MAX then (Inl EBADF, st)
          else if s = d then cap_dup_fd (Some s) src_fd dst_fd True st
          else let slot = slot_at st s (nat src_fd) in
            if \<not> sv_valid slot \<or> sv_type slot \<noteq> CAP_TYPE_FD then (Inl EBADF, st)
            else (case cap_mint_fd_locked d (sv_object_index slot) (sv_rights slot) (sv_type_meta slot) dst_fd True True st of
                    (Inl e, st) \<Rightarrow> (Inl e, st)
                  | (Inr fd, st) \<Rightarrow>
                      (Inr fd, cap_slot_set_delegate_epoch d fd (cap_slot_delegate_epoch st s (nat src_fd)) st))
      | _ \<Rightarrow> (Inl EBADF, st))"

section \<open>Delegation\<close>

definition delegate_record_alloc ::
    "proc_ptr \<Rightarrow> u16 \<Rightarrow> u8 \<Rightarrow> 'z cap_state_scheme \<Rightarrow> nat result \<times> 'z cap_state_scheme" where
  "delegate_record_alloc dst dst_object_index dst_type st =
     (case first_index (\<lambda>i. \<not> dr_in_use (delegate_pool st i)) 0 CAP_DELEGATE_RECORD_MAX of
        None \<Rightarrow> (Inl ENOSPC, st)
      | Some i \<Rightarrow>
          (Inr i, (upd_delegate i (\<lambda>d. d
             \<lparr>dr_in_use := True, dr_dst_proc := dst,
              dr_dst_generation := (case dst of None \<Rightarrow> 0 | Some q \<Rightarrow> p_generation (proc_table st q)),
              dr_dst_object_index := dst_object_index, dr_dst_type := dst_type,
              dr_grant_epoch := next_grant_epoch st, dr_refcount := 1\<rparr>) st)
             \<lparr>next_grant_epoch := next_grant_epoch st + 1\<rparr>))"

text \<open>
  \<^verbatim>\<open>cap_transfer\<close> looks the target up under the process table's lock and does the rest under the two
  \<^verbatim>\<open>fd_lock\<close>s: \<open>cap_transfer_locked\<close> is that section, entered with the pointer the lookup returned.
\<close>

definition cap_transfer_grant ::
    "nat \<Rightarrow> nat \<Rightarrow> cap_slot_view \<Rightarrow> nat \<Rightarrow> 'z cap_state_scheme \<Rightarrow> u64 result \<times> 'z cap_state_scheme" where
  "cap_transfer_grant src dst src_slot child_fd st =
     (let drop_child = (\<lambda>st. snd (cap_drop_slot_locked dst (slot_at st dst child_fd) st)) in
      case delegate_record_alloc (Some dst) (sv_object_index src_slot) (sv_type src_slot) st of
        (Inl _, st) \<Rightarrow> (Inl ENOSPC, drop_child st)
      | (Inr r, st) \<Rightarrow>
          (case cap_reserve_slot_locked src (-1) False False st of
             Inl _ \<Rightarrow> (Inl ENOSPC, delegate_record_put (of_nat r) (drop_child st))
           | Inr i \<Rightarrow>
               let prev = slot_at st src i;
                   st = cap_slot_set_delegate_epoch dst child_fd (dr_grant_epoch (delegate_pool st r)) st;
                   st = cap_slot_publish src i (of_nat r) CAP_TYPE_DELEGATE CAP_RIGHT_READ 0 (sv_generation prev) st
               in (Inr (cap_make_handle (Some (slot_at st src i))), st)))"

definition cap_transfer_locked ::
    "nat \<Rightarrow> nat \<Rightarrow> u64 \<Rightarrow> u8 \<Rightarrow> 'z cap_state_scheme \<Rightarrow> u64 result \<times> 'z cap_state_scheme" where
  "cap_transfer_locked src dst token new_rights st =
     (case cap_validate_token_locked src token st of
        None \<Rightarrow> (Inl EBADF, st)
      | Some src_slot \<Rightarrow>
          if sv_type src_slot \<noteq> CAP_TYPE_FD then (Inl EINVAL, st)
          else if sv_rights src_slot AND CAP_RIGHT_GRANT = 0 then (Inl EACCES, st)
          else if new_rights AND sv_rights src_slot \<noteq> new_rights then (Inl EINVAL, st)
          else (case cap_mint_fd_locked dst (sv_object_index src_slot) (new_rights AND NOT CAP_RIGHT_GRANT)
                       (sv_type_meta src_slot) (-1) False True st of
                  (Inl e, st) \<Rightarrow> (Inl (if e = EMFILE then ENOSPC else e), st)
                | (Inr child_fd, st) \<Rightarrow> cap_transfer_grant src dst src_slot child_fd st))"

definition cap_transfer :: "proc_ptr \<Rightarrow> u16 \<Rightarrow> u64 \<Rightarrow> u8 \<Rightarrow> 'z cap_state_scheme \<Rightarrow> u64 result \<times> 'z cap_state_scheme" where
  "cap_transfer src dst_pid token new_rights st =
     (case src of
        None \<Rightarrow> (Inl EPERM, st)
      | Some s \<Rightarrow>
          if new_rights AND CAP_RIGHT_GRANT \<noteq> 0 then (Inl EINVAL, st)
          else (case proc_find (proc_table st) dst_pid of
                  None \<Rightarrow> (Inl ESRCH, st)
                | Some d \<Rightarrow> if d = s then (Inl EINVAL, st) else cap_transfer_locked s d token new_rights st))"

section \<open>Revocation\<close>

text \<open>
  The sections of \<^verbatim>\<open>cap_revoke_delegate_impl\<close>. The first validates the delegate handle, takes a
  reference on the record and reads it; when the target's entry has been reused it drops the handle and is done.
\<close>

datatype revoke_entry = Revoked "unit result" | Scan nat delegate_record

definition revoke_begin :: "nat \<Rightarrow> u64 \<Rightarrow> 'z cap_state_scheme \<Rightarrow> revoke_entry \<times> 'z cap_state_scheme" where
  "revoke_begin src token st =
     (case cap_validate_token_locked src token st of
        None \<Rightarrow> (Revoked (Inl EBADF), st)
      | Some slot \<Rightarrow>
          if sv_type slot \<noteq> CAP_TYPE_DELEGATE then (Revoked (Inl EBADF), st)
          else let r = unat (sv_object_index slot) in
            if r \<ge> CAP_DELEGATE_RECORD_MAX \<or> \<not> dr_in_use (delegate_pool st r) then (Revoked (Inl EBADF), st)
            else let st = upd_delegate r (\<lambda>d. d\<lparr>dr_refcount := dr_refcount d + 1\<rparr>) st;
                     rec = delegate_pool st r;
                     stale = (case dr_dst_proc rec of
                                None \<Rightarrow> True
                              | Some dst \<Rightarrow> p_generation (proc_table st dst) \<noteq> dr_dst_generation rec)
              in if stale
                 then (Revoked (Inr ()), delegate_record_put (sv_object_index slot) (snd (cap_drop_slot_locked src slot st)))
                 else (Scan r rec, st))"

definition revoke_matches :: "'z timer_state_scheme \<Rightarrow> delegate_record \<Rightarrow> nat \<Rightarrow> nat \<Rightarrow> bool" where
  "revoke_matches st rec q i \<longleftrightarrow>
     (let slot = slot_at st q i in
      sv_valid slot \<and> sv_type slot = dr_dst_type rec \<and> sv_object_index slot = dr_dst_object_index rec \<and>
      cap_slot_delegate_epoch st q i = dr_grant_epoch rec)"

definition revoke_slot ::
    "delegate_record \<Rightarrow> nat \<Rightarrow> nat \<Rightarrow> u32 \<times> 'z cap_state_scheme \<Rightarrow> u32 \<times> 'z cap_state_scheme" where
  "revoke_slot rec q i acc =
     (case acc of (n, st) \<Rightarrow> if revoke_matches st rec q i then (n + 1, cap_slot_invalidate q i st) else (n, st))"

text \<open>The scan of one target, under its \<^verbatim>\<open>fd_lock\<close>.\<close>

definition revoke_target ::
    "delegate_record \<Rightarrow> nat \<times> u32 \<Rightarrow> u32 \<times> 'z cap_state_scheme \<Rightarrow> u32 \<times> 'z cap_state_scheme" where
  "revoke_target rec tgt acc =
     (case (tgt, acc) of ((q, gen), (n, st)) \<Rightarrow>
        if p_generation (proc_table st q) \<noteq> gen \<or> p_state (proc_table st q) = PROC_STATE_FREE then (n, st)
        else fold (revoke_slot rec q) [0..<CAP_SPACE_SLOTS] (n, st))"

definition revoke_pass :: "delegate_record \<Rightarrow> nat \<Rightarrow> 'z cap_state_scheme \<Rightarrow> u32 \<times> 'z cap_state_scheme" where
  "revoke_pass rec dst st =
     fold (revoke_target rec)
       (proc_collect_descendants_locked (proc_table st) (Some dst) (dr_dst_generation rec) PROC_MAX) (0, st)"

text \<open>The passes, until one revokes nothing. The result is \<open>None\<close> when the fuel runs out.\<close>

fun revoke_loop ::
    "nat \<Rightarrow> delegate_record \<Rightarrow> nat \<Rightarrow> u32 \<Rightarrow> 'z cap_state_scheme \<Rightarrow> (u32 \<times> 'z cap_state_scheme) option" where
  "revoke_loop 0 rec dst revoked st = None"
| "revoke_loop (Suc k) rec dst revoked st =
     (case revoke_pass rec dst st of (pass_revoked, st) \<Rightarrow>
        if pass_revoked = 0 then Some (revoked + pass_revoked, st)
        else revoke_loop k rec dst (revoked + pass_revoked) st)"

definition revoke_end ::
    "nat \<Rightarrow> u64 \<Rightarrow> nat \<Rightarrow> delegate_record \<Rightarrow> u32 \<Rightarrow> 'z cap_state_scheme \<Rightarrow> 'z cap_state_scheme" where
  "revoke_end src token r rec revoked st =
     (let st = (case cap_validate_token_locked src token st of
                  None \<Rightarrow> st
                | Some slot \<Rightarrow> if sv_type slot = CAP_TYPE_DELEGATE then snd (cap_drop_slot_locked src slot st) else st);
          st = (if revoked > 0 then cap_release_object (dr_dst_type rec) (dr_dst_object_index rec) revoked st else st)
      in delegate_record_put (of_nat r) st)"

definition cap_revoke_delegate ::
    "nat \<Rightarrow> proc_ptr \<Rightarrow> u64 \<Rightarrow> 'z cap_state_scheme \<Rightarrow> (unit result \<times> 'z cap_state_scheme) option" where
  "cap_revoke_delegate fuel src token st =
     (case src of
        None \<Rightarrow> Some (Inl EPERM, st)
      | Some s \<Rightarrow>
          (case revoke_begin s token st of
             (Revoked r, st) \<Rightarrow> Some (r, st)
           | (Scan r rec, st) \<Rightarrow>
               (case revoke_loop fuel rec (the (dr_dst_proc rec)) 0 st of
                  None \<Rightarrow> None
                | Some (revoked, st) \<Rightarrow> Some (Inr (), revoke_end s token r rec revoked st))))"

section \<open>Capability spaces\<close>

definition cap_init :: "'z cap_state_scheme \<Rightarrow> 'z cap_state_scheme" where
  "cap_init st = st\<lparr>fd_pool := (\<lambda>i. if i < CAP_FD_POOL_MAX then zero_fd_entry else fd_pool st i),
     delegate_pool := (\<lambda>i. if i < CAP_DELEGATE_RECORD_MAX then zero_delegate else delegate_pool st i),
     next_grant_epoch := 1\<rparr>"

definition cap_space_init :: "nat \<Rightarrow> 'z cap_state_scheme \<Rightarrow> 'z cap_state_scheme" where
  "cap_space_init p st =
     (let st = upd_proc p (\<lambda>pr. pr\<lparr>p_slots := (\<lambda>_. 0), p_delegate_epoch := (\<lambda>_. 0)\<rparr>) st;
          st = snd (cap_open_console p 0 (CAP_RIGHT_READ OR CAP_RIGHT_GRANT) 0 True st);
          st = snd (cap_open_console p 1 (CAP_RIGHT_WRITE OR CAP_RIGHT_GRANT) 1 True st)
      in snd (cap_open_console p 2 (CAP_RIGHT_WRITE OR CAP_RIGHT_GRANT) 2 True st))"

text \<open>
  A revocation that runs alone ends after two passes, the second of which finds nothing; teardown holds the
  lock of the process table, and its revocations are given that fuel.
\<close>

definition teardown_revoke :: "nat \<Rightarrow> nat \<Rightarrow> 'z cap_state_scheme \<Rightarrow> 'z cap_state_scheme option" where
  "teardown_revoke p i st =
     (let slot = cap_slot_read (Some p) (int i) st in
      if \<not> sv_valid slot \<or> sv_type slot \<noteq> CAP_TYPE_DELEGATE then Some st
      else map_option snd (cap_revoke_delegate 2 (Some p) (cap_make_handle (Some slot)) st))"

definition teardown_drop :: "nat \<Rightarrow> nat \<Rightarrow> 'z cap_state_scheme \<Rightarrow> 'z cap_state_scheme" where
  "teardown_drop p i st =
     (let slot = slot_at st p i in if \<not> sv_valid slot then st else snd (cap_drop_slot_locked p slot st))"

definition cap_space_teardown :: "nat \<Rightarrow> 'z cap_state_scheme \<Rightarrow> 'z cap_state_scheme option" where
  "cap_space_teardown p st =
     (case fold (\<lambda>i r. Option.bind r (teardown_revoke p i)) [0..<CAP_SPACE_SLOTS] (Some st) of
        None \<Rightarrow> None
      | Some st \<Rightarrow> Some (fold (teardown_drop p) [0..<CAP_SPACE_SLOTS] st))"

end
