(* ===== verification/Cap_Inv.thy ===== *)
theory Cap_Inv
  imports Cap_Ops
begin

text \<open>
  The reference counts of the capability layer. The count of a file description, and of a delegation
  record, equals the number of slots that name it in all capability spaces plus the number of references held
  by code in progress (pins). The pins are a ghost argument of the invariant: a lookup adds one, publishing a slot
  turns one into a slot, invalidating a slot turns the slot into one, and dropping a reference removes one.
\<close>

section \<open>Slots after an update\<close>

lemma slot_at_upd:
  "slot_at (cap_slot_publish p i obj ty rights meta generation st) q j =
     (if q = p \<and> j = i then \<lparr>sv_valid = True, sv_slot_index = of_nat i, sv_object_index = obj AND 0xFFF,
        sv_type = ty AND 0xF, sv_rights = rights AND 0xF, sv_type_meta = meta AND 0x7FF, sv_generation = generation\<rparr>
      else slot_at st q j)"
  "slot_at (cap_slot_invalidate p i st) q j =
     (if q = p \<and> j = i then \<lparr>sv_valid = False, sv_slot_index = of_nat i, sv_object_index = 0, sv_type = 0,
        sv_rights = 0, sv_type_meta = 0, sv_generation = sv_generation (slot_at st p i) + 1\<rparr>
      else slot_at st q j)"
  "slot_at (cap_slot_set_delegate_epoch p i e st) q j = slot_at st q j"
  by (simp_all add: slot_at_def cap_slot_publish_def cap_slot_invalidate_def cap_slot_set_delegate_epoch_def
      upd_proc_def cap_next_generation_def Let_def)

lemma slot_at_cong: "proc_table st = proc_table st' \<Longrightarrow> slot_at st p i = slot_at st' p i"
  by (simp add: slot_at_def)

lemma epoch_upd:
  "cap_slot_delegate_epoch (cap_slot_publish p i obj ty rights meta generation st) q j =
     (if q = p \<and> j = i then 0 else cap_slot_delegate_epoch st q j)"
  "cap_slot_delegate_epoch (cap_slot_invalidate p i st) q j =
     (if q = p \<and> j = i then 0 else cap_slot_delegate_epoch st q j)"
  "cap_slot_delegate_epoch (cap_slot_set_delegate_epoch p i e st) q j =
     (if q = p \<and> j = i then e else cap_slot_delegate_epoch st q j)"
  by (simp_all add: cap_slot_delegate_epoch_def cap_slot_publish_def cap_slot_invalidate_def
      cap_slot_set_delegate_epoch_def upd_proc_def Let_def)

lemma epoch_cong: "proc_table st = proc_table st' \<Longrightarrow> cap_slot_delegate_epoch st p i = cap_slot_delegate_epoch st' p i"
  by (simp add: cap_slot_delegate_epoch_def)

section \<open>Frames\<close>

lemma upd_proc_frame [simp]:
  "proc_table (upd_proc p f st) = (proc_table st)(p := f (proc_table st p))"
  "fd_pool (upd_proc p f cst) = fd_pool cst" "delegate_pool (upd_proc p f cst) = delegate_pool cst"
  "next_grant_epoch (upd_proc p f cst) = next_grant_epoch cst"
  by (simp_all add: upd_proc_def)

lemma upd_fd_frame [simp]:
  "proc_table (upd_fd i f st) = proc_table st" "delegate_pool (upd_fd i f st) = delegate_pool st"
  "fd_pool (upd_fd i f st) = (fd_pool st)(i := f (fd_pool st i))"
  "next_grant_epoch (upd_fd i f st) = next_grant_epoch st"
  by (simp_all add: upd_fd_def)

lemma upd_delegate_frame [simp]:
  "proc_table (upd_delegate i f st) = proc_table st" "fd_pool (upd_delegate i f st) = fd_pool st"
  "delegate_pool (upd_delegate i f st) = (delegate_pool st)(i := f (delegate_pool st i))"
  "next_grant_epoch (upd_delegate i f st) = next_grant_epoch st"
  by (simp_all add: upd_delegate_def)

lemma slot_ops_frame [simp]:
  "fd_pool (cap_slot_publish p i obj ty rights meta g st) = fd_pool st"
  "delegate_pool (cap_slot_publish p i obj ty rights meta g st) = delegate_pool st"
  "fd_pool (cap_slot_invalidate p i st) = fd_pool st" "delegate_pool (cap_slot_invalidate p i st) = delegate_pool st"
  "fd_pool (cap_slot_set_delegate_epoch p i e st) = fd_pool st"
  "delegate_pool (cap_slot_set_delegate_epoch p i e st) = delegate_pool st"
  "next_grant_epoch (cap_slot_publish p i obj ty rights meta g st) = next_grant_epoch st"
  "next_grant_epoch (cap_slot_invalidate p i st) = next_grant_epoch st"
  "next_grant_epoch (cap_slot_set_delegate_epoch p i e st) = next_grant_epoch st"
  by (simp_all add: cap_slot_publish_def cap_slot_invalidate_def cap_slot_set_delegate_epoch_def Let_def)

lemma fd_put_frame [simp]:
  "proc_table (fd_put obj st) = proc_table st" "delegate_pool (fd_put obj st) = delegate_pool st"
  "next_grant_epoch (fd_put obj st) = next_grant_epoch st"
  by (simp_all add: fd_put_def cap_fd_dispose_def Let_def split: option.splits)

lemma delegate_record_put_frame [simp]:
  "proc_table (delegate_record_put r st) = proc_table st" "fd_pool (delegate_record_put r st) = fd_pool st"
  "next_grant_epoch (delegate_record_put r st) = next_grant_epoch st"
  by (simp_all add: delegate_record_put_def Let_def)

lemma more_frame:
  "timer_state.more (a :: 'z cap_state_scheme) = timer_state.more b \<Longrightarrow>
     fd_pool a = fd_pool b \<and> delegate_pool a = delegate_pool b \<and> next_grant_epoch a = next_grant_epoch b"
  by (cases a; cases b) simp

lemma release_once_frame [simp]:
  "proc_table (cap_release_object_once ty obj st) = proc_table st"
  "fd_pool (cap_release_object_once ty obj st) = fd_pool st"
  "delegate_pool (cap_release_object_once ty obj st) = delegate_pool st"
  "next_grant_epoch (cap_release_object_once ty obj st) = next_grant_epoch st"
  using more_frame [OF posix_timer_put_frame(4), of obj st] by (simp_all add: cap_release_object_once_def Let_def)

lemma funpow_frame: "(\<And>s. f (g s) = f s) \<Longrightarrow> f ((g ^^ n) s) = f s"
  by (induction n) auto

lemma release_frame [simp]:
  "proc_table (cap_release_object ty obj n st) = proc_table st"
  "delegate_pool (cap_release_object ty obj n st) = delegate_pool st"
  "next_grant_epoch (cap_release_object ty obj n st) = next_grant_epoch st"
  "ty \<noteq> CAP_TYPE_FD \<Longrightarrow> fd_pool (cap_release_object ty obj n st) = fd_pool st"
  by (simp_all add: cap_release_object_def funpow_frame [where f = proc_table] funpow_frame [where f = delegate_pool]
      funpow_frame [where f = next_grant_epoch] funpow_frame [where f = fd_pool])

section \<open>Who names an object\<close>

definition slot_ref :: "cap_slot_view \<Rightarrow> u8 \<Rightarrow> u16 \<Rightarrow> bool" where
  "slot_ref v ty x \<longleftrightarrow> sv_valid v \<and> sv_type v = ty \<and> sv_object_index v = x"

definition refs :: "u8 \<Rightarrow> 'z timer_state_scheme \<Rightarrow> u16 \<Rightarrow> (nat \<times> nat) set" where
  "refs ty st x = {(p, i). p < PROC_MAX \<and> i < CAP_SPACE_SLOTS \<and> slot_ref (slot_at st p i) ty x}"

lemma finite_refs [simp]: "finite (refs ty st x)"
  by (rule finite_subset [of _ "{..<PROC_MAX} \<times> {..<CAP_SPACE_SLOTS}"]) (auto simp: refs_def)

lemma card_refs_le: "card (refs ty st x) \<le> PROC_MAX * CAP_SPACE_SLOTS"
  using card_mono [of "{..<PROC_MAX} \<times> {..<CAP_SPACE_SLOTS}" "refs ty st x"]
  by (auto simp: refs_def)

text \<open>Changing one slot changes the count by what the slot named before and after.\<close>

lemma card_refs_upd:
  assumes "p < PROC_MAX" "i < CAP_SPACE_SLOTS"
    and upd: "\<And>q j. slot_at st' q j = (if q = p \<and> j = i then v else slot_at st q j)"
  shows "card (refs ty st' x) + of_bool (slot_ref (slot_at st p i) ty x) =
         card (refs ty st x) + of_bool (slot_ref v ty x)"
proof -
  define R where "R = refs ty st x - {(p, i)}"
  have R: "finite R" "(p, i) \<notin> R" by (simp_all add: R_def)
  have "refs ty st x = (if slot_ref (slot_at st p i) ty x then insert (p, i) R else R)"
    using assms(1,2) by (auto simp: R_def refs_def)
  moreover have "refs ty st' x = (if slot_ref v ty x then insert (p, i) R else R)"
    using assms(1,2) by (auto simp: R_def refs_def upd split: if_splits)
  ultimately show ?thesis using R by simp
qed

lemma refs_cong: "proc_table st = proc_table st' \<Longrightarrow> refs ty st x = refs ty st' x"
  by (simp add: refs_def slot_at_cong [of st st'])

lemma refs_set_epoch [simp]: "refs ty (cap_slot_set_delegate_epoch p i e st) x = refs ty st x"
  by (simp add: refs_def slot_at_upd)

lemma card_refs_publish:
  assumes "p < PROC_MAX" "i < CAP_SPACE_SLOTS" "\<not> sv_valid (slot_at st p i)"
  shows "card (refs ty (cap_slot_publish p i obj ty' rights meta g st) x) =
    card (refs ty st x) + of_bool (ty' AND 0xF = ty \<and> obj AND 0xFFF = x)"
  using card_refs_upd [OF assms(1,2) slot_at_upd(1) [of p i obj ty' rights meta g st], of ty x] assms(3) by (simp add: slot_ref_def)

lemma card_refs_invalidate:
  assumes "p < PROC_MAX" "i < CAP_SPACE_SLOTS"
  shows "card (refs ty st x) = card (refs ty (cap_slot_invalidate p i st) x) + of_bool (slot_ref (slot_at st p i) ty x)"
  using card_refs_upd [OF assms slot_at_upd(2) [of p i st], of ty x] by (simp add: slot_ref_def)

section \<open>The invariant\<close>

definition counted :: "(u16 \<Rightarrow> bool) \<Rightarrow> (u16 \<Rightarrow> u32) \<Rightarrow> (u16 \<Rightarrow> nat) \<Rightarrow> bool" where
  "counted live cnt uses \<longleftrightarrow> (\<forall>x. if live x then unat (cnt x) = uses x \<and> 0 < uses x else uses x = 0)"

definition fd_live :: "'z cap_state_scheme \<Rightarrow> u16 \<Rightarrow> bool" where
  "fd_live st x \<longleftrightarrow> unat x < CAP_FD_POOL_MAX \<and> fe_in_use (fd_pool st (unat x))"

definition fd_count :: "'z cap_state_scheme \<Rightarrow> u16 \<Rightarrow> u32" where
  "fd_count st x = fe_refcount (fd_pool st (unat x))"

definition dr_live :: "'z cap_state_scheme \<Rightarrow> u16 \<Rightarrow> bool" where
  "dr_live st x \<longleftrightarrow> unat x < CAP_DELEGATE_RECORD_MAX \<and> dr_in_use (delegate_pool st (unat x))"

definition dr_count :: "'z cap_state_scheme \<Rightarrow> u16 \<Rightarrow> u32" where
  "dr_count st x = dr_refcount (delegate_pool st (unat x))"

definition uses :: "u8 \<Rightarrow> 'z timer_state_scheme \<Rightarrow> (u16 \<Rightarrow> nat) \<Rightarrow> u16 \<Rightarrow> nat" where
  "uses ty st pins x = card (refs ty st x) + pins x"

definition fds_counted :: "(u16 \<Rightarrow> nat) \<Rightarrow> 'z cap_state_scheme \<Rightarrow> bool" where
  "fds_counted pins st \<longleftrightarrow> counted (fd_live st) (fd_count st) (uses CAP_TYPE_FD st pins)"

definition delegates_counted :: "(u16 \<Rightarrow> nat) \<Rightarrow> 'z cap_state_scheme \<Rightarrow> bool" where
  "delegates_counted pins st \<longleftrightarrow> counted (dr_live st) (dr_count st) (uses CAP_TYPE_DELEGATE st pins)"

lemma counted_put:
  assumes "counted live cnt u" "0 < u x"
    and "u x = 1 \<Longrightarrow> \<not> live' x" "1 < u x \<Longrightarrow> live' x \<and> cnt' x = cnt x - 1"
    and "\<And>y. y \<noteq> x \<Longrightarrow> live' y = live y \<and> cnt' y = cnt y"
  shows "counted live' cnt' (u(x := u x - 1))"
  unfolding counted_def
proof
  fix y
  have x: "live x" "unat (cnt x) = u x" using assms(1,2) by (auto simp: counted_def split: if_splits)
  then have "cnt x \<noteq> 0" using assms(2) by auto
  then have dec: "unat (cnt x - 1) = u x - 1" using x(2) unat_dec [of "cnt x"] assms(2) by simp
  show "if live' y then unat (cnt' y) = (u(x := u x - 1)) y \<and> 0 < (u(x := u x - 1)) y
        else (u(x := u x - 1)) y = 0"
  proof (cases "y = x")
    case True
    have "u x = 1 \<or> 1 < u x" using assms(2) by linarith
    with True assms(3,4) dec show ?thesis by auto
  next
    case False
    with assms(1,5) show ?thesis by (auto simp: counted_def)
  qed
qed

lemma counted_bump:
  assumes "counted live cnt u" "live x" "Suc (u x) < 2 ^ 32"
    and "live' x" "cnt' x = cnt x + 1" "\<And>y. y \<noteq> x \<Longrightarrow> live' y = live y \<and> cnt' y = cnt y"
  shows "counted live' cnt' (u(x := Suc (u x)))"
proof -
  have x: "unat (cnt x) = u x" using assms(1,2) unfolding counted_def by metis
  then have "unat (cnt x + 1) = Suc (u x)" using assms(3) unat_inc [of "cnt x"] by simp
  with assms show ?thesis by (auto simp: counted_def)
qed

lemma counted_new:
  assumes "counted live cnt u" "\<not> live x"
    and "live' x" "cnt' x = 1" "\<And>y. y \<noteq> x \<Longrightarrow> live' y = live y \<and> cnt' y = cnt y"
  shows "counted live' cnt' (u(x := 1))"
  using assms by (auto simp: counted_def)

lemma counted_cong:
  "\<lbrakk>counted live cnt u; \<And>x. live' x = live x; \<And>x. live x \<Longrightarrow> cnt' x = cnt x; \<And>x. u' x = u x\<rbrakk> \<Longrightarrow> counted live' cnt' u'"
  by (simp add: counted_def)

lemma counted_live_iff: "counted live cnt u \<Longrightarrow> live x \<longleftrightarrow> 0 < u x"
  unfolding counted_def by (metis less_irrefl)

section \<open>Primitive steps\<close>

lemma uses_cong: "proc_table st = proc_table st' \<Longrightarrow> uses ty st P = uses ty st' P"
  by (auto simp: uses_def refs_cong [of st st'])

lemma fds_counted_cong:
  assumes "fds_counted P st" "proc_table st' = proc_table st" "fd_pool st' = fd_pool st"
  shows "fds_counted P st'"
  using assms uses_cong [OF assms(2)] by (simp add: fds_counted_def fd_live_def [abs_def] fd_count_def [abs_def])

lemma delegates_counted_cong:
  assumes "delegates_counted P st" "proc_table st' = proc_table st" "delegate_pool st' = delegate_pool st"
  shows "delegates_counted P st'"
  using assms uses_cong [OF assms(2)]
  by (simp add: delegates_counted_def dr_live_def [abs_def] dr_count_def [abs_def])

lemma unat_u16_inj: "unat (a :: u16) = unat b \<longleftrightarrow> a = b"
  by (simp add: word_unat_eq_iff)

lemma last_ref: "c - 1 = 0 \<longleftrightarrow> unat c = 1" for c :: u32
  by (simp add: word_unat_eq_iff [of c 1])

lemma fd_live_iff: "fds_counted P st \<Longrightarrow> fd_live st x \<longleftrightarrow> 0 < uses CAP_TYPE_FD st P x"
  unfolding fds_counted_def by (rule counted_live_iff)

lemma dr_live_iff: "delegates_counted P st \<Longrightarrow> dr_live st x \<longleftrightarrow> 0 < uses CAP_TYPE_DELEGATE st P x"
  unfolding delegates_counted_def by (rule counted_live_iff)

text \<open>Dropping a reference.\<close>

lemma fds_counted_put:
  assumes "fds_counted P st" "0 < P x"
  shows "fds_counted (P(x := P x - 1)) (fd_put x st)"
proof -
  let ?u = "uses CAP_TYPE_FD st P"
  have u: "0 < ?u x" using assms(2) by (simp add: uses_def)
  then have live: "fd_live st x" using fd_live_iff [OF assms(1)] by simp
  then have ptr: "fd_pool_entry_of x = Some (unat x)" by (simp add: fd_live_def fd_pool_entry_of_def)
  have cnt: "unat (fd_count st x) = ?u x"
    using assms(1) live by (auto simp: fds_counted_def counted_def split: if_splits)
  have zero: "fe_refcount (fd_pool st (unat x)) - 1 = 0 \<longleftrightarrow> ?u x = 1"
    using cnt unfolding last_ref by (simp add: fd_count_def)
  have "counted (fd_live (fd_put x st)) (fd_count (fd_put x st)) (?u(x := ?u x - 1))"
  proof (rule counted_put [OF assms(1) [unfolded fds_counted_def] u])
    show "?u x = 1 \<Longrightarrow> \<not> fd_live (fd_put x st) x"
      using zero by (simp add: fd_put_def ptr Let_def cap_fd_dispose_def fd_live_def zero_fd_entry_def)
    show "1 < ?u x \<Longrightarrow> fd_live (fd_put x st) x \<and> fd_count (fd_put x st) x = fd_count st x - 1"
      using zero live by (auto simp: fd_put_def ptr Let_def fd_live_def fd_count_def)
    show "fd_live (fd_put x st) y = fd_live st y \<and> fd_count (fd_put x st) y = fd_count st y" if "y \<noteq> x" for y
      using that by (simp add: fd_put_def ptr Let_def cap_fd_dispose_def fd_live_def fd_count_def unat_u16_inj)
  qed
  moreover have "uses CAP_TYPE_FD (fd_put x st) (P(x := P x - 1)) = ?u(x := ?u x - 1)"
    using assms(2) by (auto simp: fun_eq_iff uses_def refs_cong [of "fd_put x st" st])
  ultimately show ?thesis by (simp add: fds_counted_def)
qed

lemma delegates_counted_put:
  assumes "delegates_counted P st" "0 < P x"
  shows "delegates_counted (P(x := P x - 1)) (delegate_record_put x st)"
proof -
  let ?u = "uses CAP_TYPE_DELEGATE st P"
  have u: "0 < ?u x" using assms(2) by (simp add: uses_def)
  then have live: "dr_live st x" using dr_live_iff [OF assms(1)] by simp
  have cnt: "unat (dr_count st x) = ?u x"
    using assms(1) live by (auto simp: delegates_counted_def counted_def split: if_splits)
  have zero: "dr_refcount (delegate_pool st (unat x)) - 1 = 0 \<longleftrightarrow> ?u x = 1"
    using cnt unfolding last_ref by (simp add: dr_count_def)
  note defs = delegate_record_put_def Let_def dr_live_def dr_count_def
  have "counted (dr_live (delegate_record_put x st)) (dr_count (delegate_record_put x st)) (?u(x := ?u x - 1))"
  proof (rule counted_put [OF assms(1) [unfolded delegates_counted_def] u])
    show "?u x = 1 \<Longrightarrow> \<not> dr_live (delegate_record_put x st) x"
      using zero live by (simp add: defs zero_delegate_def)
    show "1 < ?u x \<Longrightarrow> dr_live (delegate_record_put x st) x \<and> dr_count (delegate_record_put x st) x = dr_count st x - 1"
      using zero live by (auto simp: defs)
    show "dr_live (delegate_record_put x st) y = dr_live st y \<and> dr_count (delegate_record_put x st) y = dr_count st y"
      if "y \<noteq> x" for y
      using that by (simp add: defs unat_u16_inj)
  qed
  moreover have "uses CAP_TYPE_DELEGATE (delegate_record_put x st) (P(x := P x - 1)) = ?u(x := ?u x - 1)"
    using assms(2) by (auto simp: fun_eq_iff uses_def refs_cong [of "delegate_record_put x st" st])
  ultimately show ?thesis by (simp add: delegates_counted_def)
qed

text \<open>Taking a reference.\<close>

lemma fds_counted_bump:
  assumes "fds_counted P st" "fd_live st x" "P x < 2 ^ 31"
  shows "fds_counted (P(x := Suc (P x))) (upd_fd (unat x) (\<lambda>e. e\<lparr>fe_refcount := fe_refcount e + 1\<rparr>) st)"
proof -
  let ?u = "uses CAP_TYPE_FD st P" and ?st = "upd_fd (unat x) (\<lambda>e. e\<lparr>fe_refcount := fe_refcount e + 1\<rparr>) st"
  have "Suc (?u x) < 2 ^ 32" using card_refs_le [of CAP_TYPE_FD st x] assms(3) by (simp add: uses_def)
  then have "counted (fd_live ?st) (fd_count ?st) (?u(x := Suc (?u x)))"
    using assms(2) by (intro counted_bump [OF assms(1) [unfolded fds_counted_def]])
      (auto simp: fd_live_def fd_count_def unat_u16_inj)
  moreover have "uses CAP_TYPE_FD ?st (P(x := Suc (P x))) = ?u(x := Suc (?u x))"
    by (auto simp: fun_eq_iff uses_def refs_cong [of ?st st])
  ultimately show ?thesis by (simp add: fds_counted_def)
qed

lemma delegates_counted_bump:
  assumes "delegates_counted P st" "dr_live st x" "P x < 2 ^ 31"
  shows "delegates_counted (P(x := Suc (P x))) (upd_delegate (unat x) (\<lambda>d. d\<lparr>dr_refcount := dr_refcount d + 1\<rparr>) st)"
proof -
  let ?u = "uses CAP_TYPE_DELEGATE st P" and ?st = "upd_delegate (unat x) (\<lambda>d. d\<lparr>dr_refcount := dr_refcount d + 1\<rparr>) st"
  have "Suc (?u x) < 2 ^ 32" using card_refs_le [of CAP_TYPE_DELEGATE st x] assms(3) by (simp add: uses_def)
  then have "counted (dr_live ?st) (dr_count ?st) (?u(x := Suc (?u x)))"
    using assms(2) by (intro counted_bump [OF assms(1) [unfolded delegates_counted_def]])
      (auto simp: dr_live_def dr_count_def unat_u16_inj)
  moreover have "uses CAP_TYPE_DELEGATE ?st (P(x := Suc (P x))) = ?u(x := Suc (?u x))"
    by (auto simp: fun_eq_iff uses_def refs_cong [of ?st st])
  ultimately show ?thesis by (simp add: delegates_counted_def)
qed

text \<open>A new object.\<close>

lemma unat_of_nat_u16: "i < 65536 \<Longrightarrow> unat (of_nat i :: u16) = i"
  by (simp add: unat_of_nat take_bit_nat_eq_self)

lemma fds_counted_alloc:
  assumes "fds_counted P st" "cap_fd_pool_alloc kind st = (Inr i, st')"
  shows "i < CAP_FD_POOL_MAX" "P (of_nat i) = 0" "fds_counted (P(of_nat i := 1)) st'" "proc_table st' = proc_table st"
    "delegate_pool st' = delegate_pool st" "next_grant_epoch st' = next_grant_epoch st"
proof -
  let ?u = "uses CAP_TYPE_FD st P" and ?x = "of_nat i :: u16"
  have i: "i < CAP_FD_POOL_MAX" "\<not> fe_in_use (fd_pool st i)"
    and st': "st' = upd_fd i (\<lambda>_. zero_fd_entry\<lparr>fe_in_use := True, fe_kind := kind, fe_refcount := 1\<rparr>) st"
    using assms(2) by (auto simp: cap_fd_pool_alloc_def dest: first_index_SomeD split: option.splits)
  then have x: "unat ?x = i" by (simp add: unat_of_nat_u16)
  have pt: "proc_table st' = proc_table st" by (simp add: st')
  have dead: "\<not> fd_live st ?x" using i x by (simp add: fd_live_def)
  then have u0: "?u ?x = 0" using fd_live_iff [OF assms(1), of ?x] by simp
  have "counted (fd_live st') (fd_count st') (?u(?x := 1))"
    using i x by (intro counted_new [OF assms(1) [unfolded fds_counted_def] dead])
      (auto simp: st' fd_live_def fd_count_def)
  moreover have "uses CAP_TYPE_FD st' (P(?x := 1)) = ?u(?x := 1)"
    using u0 pt by (auto simp: fun_eq_iff uses_def refs_cong [of st' st])
  ultimately show "fds_counted (P(?x := 1)) st'" by (simp add: fds_counted_def)
  show "i < CAP_FD_POOL_MAX" by (rule i)
  show "P ?x = 0" using u0 by (simp add: uses_def)
qed (use assms(2) in \<open>auto simp: cap_fd_pool_alloc_def split: option.splits\<close>)

lemma delegates_counted_alloc:
  assumes "delegates_counted P st" "delegate_record_alloc dst obj ty st = (Inr i, st')"
  shows "i < CAP_DELEGATE_RECORD_MAX" "P (of_nat i) = 0" "delegates_counted (P(of_nat i := 1)) st'"
    "proc_table st' = proc_table st" "fd_pool st' = fd_pool st"
proof -
  let ?u = "uses CAP_TYPE_DELEGATE st P" and ?x = "of_nat i :: u16"
  have i: "i < CAP_DELEGATE_RECORD_MAX" "\<not> dr_in_use (delegate_pool st i)"
    and st': "dr_in_use (delegate_pool st' i)" "dr_refcount (delegate_pool st' i) = 1"
      "\<And>j. j \<noteq> i \<Longrightarrow> delegate_pool st' j = delegate_pool st j"
    and pt: "proc_table st' = proc_table st" "fd_pool st' = fd_pool st"
    using assms(2) by (auto simp: delegate_record_alloc_def dest: first_index_SomeD split: option.splits)
  then have x: "unat ?x = i" by (simp add: unat_of_nat_u16)
  have dead: "\<not> dr_live st ?x" using i x by (simp add: dr_live_def)
  then have u0: "?u ?x = 0" using dr_live_iff [OF assms(1), of ?x] by simp
  have "counted (dr_live st') (dr_count st') (?u(?x := 1))"
    using i x st' by (intro counted_new [OF assms(1) [unfolded delegates_counted_def] dead])
      (auto simp: dr_live_def dr_count_def unat_u16_inj [symmetric])
  moreover have "uses CAP_TYPE_DELEGATE st' (P(?x := 1)) = ?u(?x := 1)"
    using u0 pt by (auto simp: fun_eq_iff uses_def refs_cong [of st' st])
  ultimately show "delegates_counted (P(?x := 1)) st'" by (simp add: delegates_counted_def)
  show "i < CAP_DELEGATE_RECORD_MAX" "proc_table st' = proc_table st" "fd_pool st' = fd_pool st" by (fact i pt)+
  show "P ?x = 0" using u0 by (simp add: uses_def)
qed

text \<open>Publishing turns a held reference into a slot; invalidating turns the slot into a held reference.\<close>

lemma small_index:
  assumes "unat (x :: u16) < 4096"
  shows "x AND 0xFFF = x"
proof -
  have "unat (take_bit 12 x) = unat x"
    using assms by (simp add: unsigned_take_bit_eq take_bit_nat_eq_self)
  then have "take_bit 12 x = x" by (simp add: word_unat_eq_iff)
  then show ?thesis unfolding mask_lits by (simp add: take_bit_eq_mask)
qed

lemma counted_publish:
  assumes "p < PROC_MAX" "i < CAP_SPACE_SLOTS" "\<not> sv_valid (slot_at st p i)"
  shows "\<lbrakk>fds_counted P st; 0 < P x; unat x < CAP_FD_POOL_MAX\<rbrakk> \<Longrightarrow>
      fds_counted (P(x := P x - 1)) (cap_slot_publish p i x CAP_TYPE_FD rights meta g st)"
    and "\<lbrakk>fds_counted P st; ty AND 0xF \<noteq> CAP_TYPE_FD\<rbrakk> \<Longrightarrow> fds_counted P (cap_slot_publish p i obj ty rights meta g st)"
    and "\<lbrakk>delegates_counted D st; 0 < D x; unat x < CAP_DELEGATE_RECORD_MAX\<rbrakk> \<Longrightarrow>
      delegates_counted (D(x := D x - 1)) (cap_slot_publish p i x CAP_TYPE_DELEGATE rights meta g st)"
    and "\<lbrakk>delegates_counted D st; ty AND 0xF \<noteq> CAP_TYPE_DELEGATE\<rbrakk> \<Longrightarrow>
      delegates_counted D (cap_slot_publish p i obj ty rights meta g st)"
  by (auto simp: fds_counted_def delegates_counted_def uses_def card_refs_publish [OF assms] small_index
      fd_live_def dr_live_def fd_count_def dr_count_def elim!: counted_cong)

lemma counted_invalidate:
  fixes st :: "'z cap_state_scheme"
  assumes "p < PROC_MAX" "i < CAP_SPACE_SLOTS"
  defines "v \<equiv> slot_at st p i"
  shows "\<lbrakk>fds_counted P st; slot_ref v CAP_TYPE_FD x\<rbrakk> \<Longrightarrow> fds_counted (P(x := Suc (P x))) (cap_slot_invalidate p i st)"
    and "\<lbrakk>fds_counted P st; \<not> sv_valid v \<or> sv_type v \<noteq> CAP_TYPE_FD\<rbrakk> \<Longrightarrow> fds_counted P (cap_slot_invalidate p i st)"
    and "\<lbrakk>delegates_counted D st; slot_ref v CAP_TYPE_DELEGATE x\<rbrakk> \<Longrightarrow>
      delegates_counted (D(x := Suc (D x))) (cap_slot_invalidate p i st)"
    and "\<lbrakk>delegates_counted D st; \<not> sv_valid v \<or> sv_type v \<noteq> CAP_TYPE_DELEGATE\<rbrakk> \<Longrightarrow>
      delegates_counted D (cap_slot_invalidate p i st)"
  by (auto simp: fds_counted_def delegates_counted_def uses_def card_refs_invalidate [OF assms(1,2), of _ st] v_def
      slot_ref_def fd_live_def dr_live_def fd_count_def dr_count_def elim!: counted_cong)

end
