(* ===== verification/Cap_Refs.thy ===== *)
theory Cap_Refs
  imports Cap_Inv
begin

text \<open>
  Every operation of the capability layer keeps the reference counts exact: no file description and no
  delegation record is freed while a slot or a pin names it, and none stays allocated without one.
\<close>

definition rc_ok :: "(u16 \<Rightarrow> nat) \<Rightarrow> (u16 \<Rightarrow> nat) \<Rightarrow> 'z cap_state_scheme \<Rightarrow> bool" where
  "rc_ok P D st \<longleftrightarrow> fds_counted P st \<and> delegates_counted D st"

text \<open>Fewer than \<open>2^31\<close> references are held by code in progress: with the slots, the counts fit 32 bits.\<close>

definition few :: "(u16 \<Rightarrow> nat) \<Rightarrow> bool" where
  "few P \<longleftrightarrow> (\<forall>x. P x < 2 ^ 31)"

lemma rc_ok_cong:
  assumes "rc_ok P D st" "\<And>q j. slot_at st' q j = slot_at st q j" "delegate_pool st' = delegate_pool st"
    and "\<And>i. fe_in_use (fd_pool st' i) = fe_in_use (fd_pool st i)"
    and "\<And>i. fe_refcount (fd_pool st' i) = fe_refcount (fd_pool st i)"
  shows "rc_ok P D st'"
proof -
  have "refs ty st' x = refs ty st x" for ty x by (simp add: refs_def assms(2))
  with assms show ?thesis
    by (simp add: rc_ok_def fds_counted_def delegates_counted_def uses_def [abs_def] fd_live_def [abs_def]
        dr_live_def [abs_def] fd_count_def [abs_def] dr_count_def [abs_def])
qed

lemma rc_ok_same:
  assumes "rc_ok P D st" "proc_table st' = proc_table st" "fd_pool st' = fd_pool st" "delegate_pool st' = delegate_pool st"
  shows "rc_ok P D st'"
  using assms slot_at_cong [OF assms(2)] by (intro rc_ok_cong [OF assms(1)]) simp_all

lemma rc_ok_set_epoch: "rc_ok P D st \<Longrightarrow> rc_ok P D (cap_slot_set_delegate_epoch p i e st)"
  by (erule rc_ok_cong) (simp_all add: slot_at_upd)

lemma rc_ok_fill:
  assumes "rc_ok P D st" "\<And>e. fe_in_use (f e) = fe_in_use e" "\<And>e. fe_refcount (f e) = fe_refcount e"
  shows "rc_ok P D (upd_fd i f st)"
  using assms by (intro rc_ok_cong [OF assms(1)]) (simp_all add: slot_at_cong [of "upd_fd i f st" st])

lemma rc_ok_fd_put:
  assumes "rc_ok P D st" "0 < P x"
  shows "rc_ok (P(x := P x - 1)) D (fd_put x st)"
  using assms fds_counted_put [of P st x] delegates_counted_cong [of D st "fd_put x st"] by (simp add: rc_ok_def)

lemma rc_ok_delegate_put:
  assumes "rc_ok P D st" "0 < D x"
  shows "rc_ok P (D(x := D x - 1)) (delegate_record_put x st)"
  using assms delegates_counted_put [of D st x] fds_counted_cong [of P st "delegate_record_put x st"]
  by (simp add: rc_ok_def)

lemma rc_ok_release_fd:
  assumes "rc_ok P D st" "n \<le> P x"
  shows "rc_ok (P(x := P x - n)) D ((fd_put x ^^ n) st)"
  using assms(2)
proof (induction n)
  case (Suc n)
  have "rc_ok (P(x := P x - n)) D ((fd_put x ^^ n) st)" by (rule Suc.IH) (use Suc.prems in simp)
  from rc_ok_fd_put [OF this, of x] Suc.prems show ?case by (simp add: fun_upd_def cong: if_cong)
qed (use assms(1) in simp)

lemma rc_ok_release:
  assumes "rc_ok P D st" "ty = CAP_TYPE_FD \<Longrightarrow> unat n \<le> P x"
  shows "rc_ok (if ty = CAP_TYPE_FD then P(x := P x - unat n) else P) D (cap_release_object ty x n st)"
proof (cases "ty = CAP_TYPE_FD")
  case True
  with rc_ok_release_fd [OF assms(1), of "unat n" x] assms(2) show ?thesis by (auto simp: cap_release_object_def)
next
  case False
  then show ?thesis using rc_ok_same [OF assms(1), of "cap_release_object ty x n st"] by simp
qed

section \<open>Dropping and reserving slots\<close>

lemma slot_index_at: "i < CAP_SPACE_SLOTS \<Longrightarrow> unat (sv_slot_index (slot_at st p i)) = i"
  by (simp add: slot_at_def cap_unpack_slot_def unat_of_nat take_bit_nat_eq_self)

lemma drop_slot:
  assumes "i < CAP_SPACE_SLOTS" "sv_valid (slot_at st p i)" "cap_drop_slot_locked p (slot_at st p i) st = (r, st')"
  shows "r = Inr ()" "proc_table st' = proc_table (cap_slot_invalidate p i st)"
    "next_grant_epoch st' = next_grant_epoch st"
  using assms by (auto simp: cap_drop_slot_locked_def slot_index_at Let_def split: if_splits)

lemma drop_slot_at:
  assumes "i < CAP_SPACE_SLOTS" "sv_valid (slot_at st p i)" "cap_drop_slot_locked p (slot_at st p i) st = (r, st')"
  shows "slot_at st' q j = slot_at (cap_slot_invalidate p i st) q j"
  using drop_slot(2) [OF assms] by (rule slot_at_cong)

lemma rc_ok_drop:
  assumes "rc_ok P D st" "p < PROC_MAX" "i < CAP_SPACE_SLOTS"
    and "cap_drop_slot_locked p (slot_at st p i) st = (r, st')"
  shows "rc_ok P D st'"
proof (cases "sv_valid (slot_at st p i)")
  case True
  let ?v = "slot_at st p i"
  let ?x = "sv_object_index ?v" and ?st = "cap_slot_invalidate p i st"
  consider "sv_type ?v = CAP_TYPE_DELEGATE" | "sv_type ?v = CAP_TYPE_FD"
    | "sv_type ?v \<noteq> CAP_TYPE_DELEGATE" "sv_type ?v \<noteq> CAP_TYPE_FD" by blast
  then show ?thesis
  proof cases
    case 1
    then have "rc_ok P (D(?x := Suc (D ?x))) ?st"
      using assms True counted_invalidate [OF assms(2,3), where st = st] by (simp add: rc_ok_def slot_ref_def)
    from rc_ok_delegate_put [OF this, of ?x] 1 True assms(3,4) show ?thesis
      by (simp add: cap_drop_slot_locked_def slot_index_at Let_def)
  next
    case 2
    then have "rc_ok (P(?x := Suc (P ?x))) D ?st"
      using assms True counted_invalidate [OF assms(2,3), where st = st] by (simp add: rc_ok_def slot_ref_def)
    from rc_ok_release [OF this, of CAP_TYPE_FD 1 ?x] 2 True assms(3,4) show ?thesis
      by (simp add: cap_drop_slot_locked_def slot_index_at Let_def)
  next
    case 3
    then have "rc_ok P D ?st"
      using assms True counted_invalidate [OF assms(2,3), where st = st] by (simp add: rc_ok_def)
    from rc_ok_release [OF this, of "sv_type ?v" 1 ?x] 3 True assms(3,4) show ?thesis
      by (simp add: cap_drop_slot_locked_def slot_index_at Let_def)
  qed
qed (use assms in \<open>simp add: cap_drop_slot_locked_def\<close>)

lemma rc_ok_drop_snd:
  "\<lbrakk>rc_ok P D st; p < PROC_MAX; i < CAP_SPACE_SLOTS\<rbrakk> \<Longrightarrow> rc_ok P D (snd (cap_drop_slot_locked p (slot_at st p i) st))"
  by (rule rc_ok_drop [where r = "fst (cap_drop_slot_locked p (slot_at st p i) st)"]) simp_all

lemma find_free_slot:
  assumes "cap_find_free_slot_locked p allow st = Some i"
  shows "i < CAP_SPACE_SLOTS" "\<not> allow \<Longrightarrow> i < PROC_FD_MAX" "\<not> sv_valid (slot_at st p i)"
  using first_index_SomeD [OF assms [unfolded cap_find_free_slot_locked_def]]
  by (auto simp: cap_slot_is_thread_reserved_def)

lemma reserve_slot:
  assumes "cap_reserve_slot_locked p hint exact allow st = Inr i"
  shows "i < CAP_SPACE_SLOTS" "\<not> allow \<Longrightarrow> i < PROC_FD_MAX" "\<not> exact \<Longrightarrow> \<not> sv_valid (slot_at st p i)"
  using assms find_free_slot [of p allow st]
  by (auto simp: cap_reserve_slot_locked_def cap_slot_is_thread_reserved_def Let_def split: if_splits option.splits)

text \<open>Making room in a reserved slot: an exact target is dropped first.\<close>

lemma clear_slot:
  assumes "rc_ok P D st" "p < PROC_MAX" "i < CAP_SPACE_SLOTS" "\<not> exact \<Longrightarrow> \<not> sv_valid (slot_at st p i)"
    and d: "(if exact \<and> sv_valid (slot_at st p i) then cap_drop_slot_locked p (slot_at st p i) st
      else (Inr (), st)) = (dr, s1)"
  shows "rc_ok P D s1" "dr = Inr ()" "\<not> sv_valid (slot_at s1 p i)"
proof -
  have "rc_ok P D s1 \<and> dr = Inr () \<and> \<not> sv_valid (slot_at s1 p i)"
  proof (cases "exact \<and> sv_valid (slot_at st p i)")
    case True
    with d have dr: "cap_drop_slot_locked p (slot_at st p i) st = (dr, s1)" by simp
    from True have v: "sv_valid (slot_at st p i)" by simp
    show ?thesis
      using rc_ok_drop [OF assms(1-3) dr] drop_slot(1) [OF assms(3) v dr] drop_slot_at [OF assms(3) v dr, of p i]
      by (simp add: slot_at_upd)
  qed (use assms in auto)
  then show "rc_ok P D s1" "dr = Inr ()" "\<not> sv_valid (slot_at s1 p i)" by blast+
qed

section \<open>Minting\<close>

lemma rc_ok_mint_slot:
  assumes ok: "rc_ok P D st" "p < PROC_MAX" and x: "0 < P x" "unat x < CAP_FD_POOL_MAX"
    and r: "cap_mint_fd_slot p x rights meta hint exact bump st = (r, st')"
  shows "rc_ok (P(x := if (\<exists>fd. r = Inr fd) \<or> bump then P x - 1 else P x)) D st'"
proof (cases "cap_reserve_slot_locked p hint exact False st")
  case (Inl e)
  with r have "r = Inl (if e = ENOSPC then EMFILE else e)"
    "st' = (if bump then cap_release_object CAP_TYPE_FD x 1 st else st)"
    by (auto simp: cap_mint_fd_slot_def Let_def)
  with rc_ok_release [OF ok(1), of CAP_TYPE_FD 1 x] x ok(1) show ?thesis by simp
next
  case (Inr i)
  note i = reserve_slot [OF Inr]
  obtain dr s1 where d: "(if exact \<and> sv_valid (slot_at st p i) then cap_drop_slot_locked p (slot_at st p i) st
      else (Inr (), st)) = (dr, s1)" by (rule prod.exhaust)
  note s1 = clear_slot [OF ok i(1,3) d]
  have "r = Inr i" "st' = cap_slot_publish p i x CAP_TYPE_FD rights meta (sv_generation (slot_at s1 p i)) s1"
    using r Inr d s1(2) by (auto simp: cap_mint_fd_slot_def Let_def split: prod.splits)
  with s1 x counted_publish [OF ok(2) i(1) s1(3)] show ?thesis by (simp add: rc_ok_def)
qed

lemma rc_ok_mint:
  assumes "rc_ok P D st" "few P" "p < PROC_MAX"
    and "cap_mint_fd_locked p x rights meta hint exact True st = (r, st')"
  shows "rc_ok P D st'"
proof (cases "fd_live st x")
  case True
  let ?st = "upd_fd (unat x) (\<lambda>e. e\<lparr>fe_refcount := fe_refcount e + 1\<rparr>) st"
  have "cap_mint_fd_slot p x rights meta hint exact True ?st = (r, st')"
    using True assms(4) by (simp add: cap_mint_fd_locked_def fd_live_def fd_pool_entry_of_def)
  moreover have "rc_ok (P(x := Suc (P x))) D ?st"
    using assms(1,2) True fds_counted_bump [of P st x] delegates_counted_cong [of D st ?st]
    by (simp add: rc_ok_def few_def)
  ultimately show ?thesis
    using rc_ok_mint_slot [of "P(x := Suc (P x))" D ?st p x rights meta hint exact True r st'] assms(3) True
    by (simp add: fd_live_def)
qed (use assms in \<open>auto simp: cap_mint_fd_locked_def fd_live_def fd_pool_entry_of_def split: if_splits\<close>)

lemma rc_ok_open_new:
  assumes "rc_ok (P(of_nat i := 1)) D st" "P (of_nat i) = 0" "p < PROC_MAX" "i < CAP_FD_POOL_MAX"
    and "\<And>e. fe_in_use (f e) = fe_in_use e" "\<And>e. fe_refcount (f e) = fe_refcount e"
    and "cap_open_new p f rights hint exact i st = (r, st')"
  shows "rc_ok P D st'"
proof -
  let ?P = "P(of_nat i := 1)" and ?x = "of_nat i :: u16"
  obtain r1 s1 where m: "cap_mint_fd_slot p ?x rights 0 hint exact False (upd_fd i f st) = (r1, s1)" by (rule prod.exhaust)
  have "rc_ok ?P D (upd_fd i f st)" using rc_ok_fill [OF assms(1)] assms(5,6) by blast
  from rc_ok_mint_slot [OF this assms(3) _ _ m]
  have ok: "rc_ok (P(?x := if \<exists>fd. r1 = Inr fd then 0 else 1)) D s1"
    using assms(4) by (simp add: unat_of_nat_u16 cong: if_cong)
  show ?thesis
  proof (cases r1)
    case (Inl e)
    then have "rc_ok ?P D s1" using ok by simp
    from rc_ok_fd_put [OF this, of ?x] have "rc_ok P D (fd_put ?x s1)" using assms(2) by (simp add: fun_upd_idem)
    then show ?thesis using Inl m assms(7) by (simp add: cap_open_new_def cap_mint_fd_locked_def cap_fd_pool_abort_new_def)
  next
    case (Inr fd)
    then have "rc_ok P D s1" using ok assms(2) by (simp add: fun_upd_idem)
    then show ?thesis using Inr m assms(7) by (simp add: cap_open_new_def cap_mint_fd_locked_def)
  qed
qed

lemma rc_ok_alloc:
  assumes "rc_ok P D st" "cap_fd_pool_alloc kind st = (Inr i, st')"
  shows "rc_ok (P(of_nat i := 1)) D st'" "P (of_nat i) = 0" "i < CAP_FD_POOL_MAX"
  using assms fds_counted_alloc [of P st kind i st'] delegates_counted_cong [of D st st'] by (simp_all add: rc_ok_def)

lemma fd_pool_alloc_fails: "cap_fd_pool_alloc kind st = (Inl e, st') \<Longrightarrow> st' = st"
  by (auto simp: cap_fd_pool_alloc_def split: option.splits)

lemma rc_ok_open_kind:
  assumes "rc_ok P D st" "p < PROC_MAX" "\<And>e. fe_in_use (f e) = fe_in_use e" "\<And>e. fe_refcount (f e) = fe_refcount e"
    and fail: "\<And>e. cap_fd_pool_alloc kind st = (Inl e, st) \<Longrightarrow> st' = st \<or> (\<exists>l. st' = st\<lparr>fd_closes := l\<rparr>)"
    and new: "\<And>i s. cap_fd_pool_alloc kind st = (Inr i, s) \<Longrightarrow> cap_open_new p f rights hint exact i s = (r, st')"
  shows "rc_ok P D st'"
proof -
  obtain a s where al: "cap_fd_pool_alloc kind st = (a, s)" by (rule prod.exhaust)
  show ?thesis
  proof (cases a)
    case (Inl e)
    with al fd_pool_alloc_fails [of kind st e s] fail [of e]
    have "proc_table st' = proc_table st" "fd_pool st' = fd_pool st" "delegate_pool st' = delegate_pool st" by auto
    then show ?thesis by (rule rc_ok_same [OF assms(1)])
  next
    case (Inr i)
    with al have al: "cap_fd_pool_alloc kind st = (Inr i, s)" by simp
    from rc_ok_open_new [OF rc_ok_alloc(1,2) [OF assms(1) al] assms(2) rc_ok_alloc(3) [OF assms(1) al] assms(3,4) new [OF al]]
    show ?thesis .
  qed
qed

lemma rc_ok_open:
  assumes "rc_ok P D st" "p < PROC_MAX"
  shows "cap_open_vfs p file rights sk fl hint exact st = (r, st') \<Longrightarrow> rc_ok P D st'"
    and "cap_open_pipe p pipe re rights hint exact st = (r, st') \<Longrightarrow> rc_ok P D st'"
    and "cap_open_console p cid rights hint exact st = (r, st') \<Longrightarrow> rc_ok P D st'"
proof -
  show "cap_open_vfs p file rights sk fl hint exact st = (r, st') \<Longrightarrow> rc_ok P D st'"
    by (rule rc_ok_open_kind [OF assms, where kind = CAP_FD_KIND_VFS and st' = st' and r = r and rights = rights and hint = hint
          and exact = exact and f = "\<lambda>e. e\<lparr>fe_file := file, fe_is_seekable := sk, fe_open_flags := fl\<rparr>"])
      (auto simp: cap_open_vfs_def)
  show "cap_open_pipe p pipe re rights hint exact st = (r, st') \<Longrightarrow> rc_ok P D st'"
    by (rule rc_ok_open_kind [OF assms, where kind = CAP_FD_KIND_PIPE and st' = st' and r = r and rights = rights and hint = hint
          and exact = exact and f = "\<lambda>e. e\<lparr>fe_pipe := Some pipe, fe_pipe_read_end := re, fe_is_seekable := False\<rparr>"])
      (auto simp: cap_open_pipe_def)
  show "cap_open_console p cid rights hint exact st = (r, st') \<Longrightarrow> rc_ok P D st'"
    by (rule rc_ok_open_kind [OF assms, where kind = CAP_FD_KIND_CONSOLE and st' = st' and r = r and rights = rights and
          hint = hint and exact = exact and f = "\<lambda>e. e\<lparr>fe_console_id := cid, fe_is_seekable := False\<rparr>"])
      (auto simp: cap_open_console_def)
qed

section \<open>Closing, lookups, handles\<close>

lemma validate_token:
  assumes "cap_validate_token_locked p token st = Some slot"
  obtains i where "i < CAP_SPACE_SLOTS" "slot = slot_at st p i" "sv_valid (slot_at st p i)" "i = unat (token_slot token)"
  using assms by (auto simp: cap_validate_token_locked_def Let_def split: if_splits)

lemma rc_ok_close:
  assumes "rc_ok P D st" "p < PROC_MAX"
  shows "cap_close_fd (Some p) fd st = (r, st') \<Longrightarrow> rc_ok P D st'"
    and "cap_drop_token (Some p) token st = (r, st') \<Longrightarrow> rc_ok P D st'"
proof -
  show "cap_close_fd (Some p) fd st = (r, st') \<Longrightarrow> rc_ok P D st'"
    using assms rc_ok_drop [OF assms, of "nat fd" r st'] by (auto simp: cap_close_fd_def Let_def split: if_splits)
  show "cap_drop_token (Some p) token st = (r, st') \<Longrightarrow> rc_ok P D st'"
    using assms(1) by (auto simp: cap_drop_token_def split: option.splits elim!: validate_token dest: rc_ok_drop [OF assms])
qed

lemma rc_ok_pin:
  assumes "rc_ok P D st" "few P" "cap_pinned_lookup p h rights CAP_TYPE_FD st = (r, st')"
  shows "case r of None \<Rightarrow> st' = st | Some (x, i) \<Rightarrow> rc_ok (P(x := Suc (P x))) D st'"
proof (cases r)
  case None
  then show ?thesis using assms(3) by (auto simp: cap_pinned_lookup_def Let_def split: option.splits if_splits)
next
  case (Some y)
  obtain x i where y: "y = (x, i)" by (rule prod.exhaust)
  have "fd_live st x" "st' = upd_fd (unat x) (\<lambda>e. e\<lparr>fe_refcount := fe_refcount e + 1\<rparr>) st"
    using assms(3) Some y
    by (auto simp: cap_pinned_lookup_def Let_def fd_live_def fd_pool_entry_of_def split: option.splits if_splits)
  then show ?thesis
    using Some y assms(1,2) fds_counted_bump [of P st x] delegates_counted_cong [of D st st'] by (simp add: rc_ok_def few_def)
qed

lemma rc_ok_lookup_fd:
  assumes "rc_ok P D st" "few P" "cap_lookup_fd p h rights st = (ref, st')"
  shows "(ref = zero_ref \<and> st' = st) \<or>
    (cr_type ref = CAP_TYPE_FD \<and> rc_ok (P(cr_object_index ref := Suc (P (cr_object_index ref)))) D st')"
  using assms(3) rc_ok_pin [OF assms(1,2), of p h rights] unfolding cap_lookup_fd_def pinned_ref_def
  by (auto split: prod.splits option.splits)

lemma rc_ok_lookup_timer:
  assumes "rc_ok P D st" "cap_lookup_timer p h rights st = (ref, st')"
  shows "rc_ok P D st'"
proof -
  have "proc_table st' = proc_table st" "timer_state.more st' = timer_state.more st"
    using assms(2) by (auto simp: cap_lookup_timer_def pinned_ref_def cap_pinned_lookup_def timer_get_ref_def Let_def
        split: prod.splits option.splits if_splits)
  then show ?thesis using rc_ok_same [OF assms(1)] more_frame by blast
qed

lemma rc_ok_lookup_object:
  assumes "rc_ok P D st" "cap_lookup_object p h rights ty st = (ref, st')"
  shows "rc_ok P D st'"
proof -
  have "proc_table s' = proc_table s \<and> fd_pool s' = fd_pool s \<and> delegate_pool s' = delegate_pool s"
    if "cap_object_inc_ref ty x s = (b, s')" for x b and s s' :: "'a cap_state_scheme"
    using that by (auto simp: cap_object_inc_ref_def Let_def split: prod.splits if_splits)
  then have "proc_table st' = proc_table st \<and> fd_pool st' = fd_pool st \<and> delegate_pool st' = delegate_pool st"
    using assms(2) by (fastforce simp: cap_lookup_object_def Let_def split: prod.splits option.splits if_splits bool.splits)
  then show ?thesis using rc_ok_same [OF assms(1)] by blast
qed

lemma rc_ok_put_ref:
  assumes "rc_ok P D st" "cr_type ref = CAP_TYPE_FD \<Longrightarrow> 0 < P (cr_object_index ref)"
    and "cap_put_ref ref st = (ref', st')"
  shows "rc_ok (if cr_type ref = CAP_TYPE_FD then P(cr_object_index ref := P (cr_object_index ref) - 1) else P) D st'"
  using assms rc_ok_release [OF assms(1), of "cr_type ref" 1 "cr_object_index ref"]
  by (auto simp: cap_put_ref_def split: if_splits)

lemma rc_ok_open_handle:
  assumes "rc_ok P D st" "p < PROC_MAX" "ty AND 0xF \<noteq> CAP_TYPE_FD" "ty AND 0xF \<noteq> CAP_TYPE_DELEGATE"
    and "cap_open_handle (Some p) x ty rights hint exact st = (r, st')"
  shows "rc_ok P D st'"
proof (cases "cap_reserve_slot_locked p hint exact (ty = CAP_TYPE_THREAD) st")
  case (Inl e)
  with assms show ?thesis by (auto simp: cap_open_handle_def)
next
  case (Inr i)
  note i = reserve_slot(1,3) [OF Inr]
  obtain dr s1 where d: "(if exact \<and> sv_valid (slot_at st p i) then cap_drop_slot_locked p (slot_at st p i) st
      else (Inr (), st)) = (dr, s1)" by (rule prod.exhaust)
  note s1 = clear_slot [OF assms(1,2) i d]
  have "st' = cap_slot_publish p i x ty rights 0 (sv_generation (slot_at s1 p i)) s1"
    using assms(5) Inr d by (auto simp: cap_open_handle_def Let_def split: if_splits)
  then show ?thesis using s1 assms(3,4) counted_publish [OF assms(2) i(1) s1(3)] by (simp add: rc_ok_def)
qed

section \<open>Duplication, delegation\<close>

lemma rc_ok_dup:
  assumes "rc_ok P D st" "few P" "p < PROC_MAX" "cap_dup_fd (Some p) old new exact st = (r, st')"
  shows "rc_ok P D st'"
  using assms(1,4) rc_ok_mint [OF assms(1-3)]
  by (auto simp: cap_dup_fd_def Let_def rc_ok_set_epoch split: if_splits prod.splits sum.splits)

lemma rc_ok_inherit:
  assumes "rc_ok P D st" "few P" "s < PROC_MAX" "d < PROC_MAX" "cap_inherit_fd (Some s) (Some d) sfd dfd st = (r, st')"
  shows "rc_ok P D st'"
  using assms(1,5) rc_ok_mint [OF assms(1,2,4)] rc_ok_dup [OF assms(1-3)]
  by (auto simp: cap_inherit_fd_def Let_def rc_ok_set_epoch split: if_splits prod.splits sum.splits)

lemma mint_fd_slot_index:
  assumes "cap_mint_fd_locked p x rights meta hint exact bump st = (Inr fd, st')"
  shows "fd < PROC_FD_MAX"
  using assms reserve_slot(2) [of p hint exact False]
  by (auto simp: cap_mint_fd_locked_def cap_mint_fd_slot_def Let_def split: if_splits option.splits sum.splits prod.splits)

lemma delegate_alloc_fails: "delegate_record_alloc dst x ty st = (Inl e, st') \<Longrightarrow> st' = st"
  by (auto simp: delegate_record_alloc_def split: option.splits)

lemma rc_ok_delegate_alloc:
  assumes "rc_ok P D st" "delegate_record_alloc dst x ty st = (Inr i, st')"
  shows "rc_ok P (D(of_nat i := 1)) st'" "D (of_nat i) = 0" "i < CAP_DELEGATE_RECORD_MAX" "proc_table st' = proc_table st"
  using assms delegates_counted_alloc [of D st dst x ty i st'] fds_counted_cong [of P st st'] by (simp_all add: rc_ok_def)

lemma rc_ok_publish_delegate:
  assumes "rc_ok P D st" "0 < D x" "unat x < CAP_DELEGATE_RECORD_MAX"
    and "p < PROC_MAX" "i < CAP_SPACE_SLOTS" "\<not> sv_valid (slot_at st p i)"
  shows "rc_ok P (D(x := D x - 1)) (cap_slot_publish p i x CAP_TYPE_DELEGATE rights meta g st)"
  using assms(1-3) counted_publish(2) [OF assms(4-6), of P CAP_TYPE_DELEGATE] counted_publish(3) [OF assms(4-6)]
  by (simp add: rc_ok_def)

lemma rc_ok_grant:
  assumes "rc_ok P D st" "src < PROC_MAX" "dst < PROC_MAX" "fd < PROC_FD_MAX"
    and "cap_transfer_grant src dst slot fd st = (r, st')"
  shows "rc_ok P D st'"
proof (cases "fst (delegate_record_alloc (Some dst) (sv_object_index slot) (sv_type slot) st)")
  case (Inl e)
  then have "st' = snd (cap_drop_slot_locked dst (slot_at st dst fd) st)"
    using assms(5) delegate_alloc_fails [of "Some dst" "sv_object_index slot" "sv_type slot" st e]
    by (auto simp: cap_transfer_grant_def Let_def split: prod.splits)
  then show ?thesis using rc_ok_drop_snd [OF assms(1,3), of fd] assms(4) by simp
next
  case (Inr k)
  then obtain s1 where al: "delegate_record_alloc (Some dst) (sv_object_index slot) (sv_type slot) st = (Inr k, s1)"
    by (metis prod.collapse)
  note k = rc_ok_delegate_alloc [OF assms(1) al]
  let ?x = "of_nat k :: u16"
  show ?thesis
  proof (cases "cap_reserve_slot_locked src (-1) False False s1")
    case (Inl e)
    obtain dr s2 where d: "cap_drop_slot_locked dst (slot_at s1 dst fd) s1 = (dr, s2)" by (rule prod.exhaust)
    have "rc_ok P (D(?x := 1)) s2" using rc_ok_drop [OF k(1) assms(3) _ d] assms(4) by simp
    from rc_ok_delegate_put [OF this, of ?x] have "rc_ok P D (delegate_record_put ?x s2)"
      using k(2) by (simp add: fun_upd_idem)
    then show ?thesis using assms(5) al Inl d by (simp add: cap_transfer_grant_def Let_def)
  next
    case (Inr i)
    note i = reserve_slot(1,3) [OF Inr]
    let ?s2 = "cap_slot_set_delegate_epoch dst fd (dr_grant_epoch (delegate_pool s1 k)) s1"
    have s2: "rc_ok P (D(?x := 1)) ?s2" using k(1) by (rule rc_ok_set_epoch)
    have "\<not> sv_valid (slot_at ?s2 src i)" using i(2) by (simp add: slot_at_upd)
    from rc_ok_publish_delegate [OF s2 _ _ assms(2) i(1) this, of ?x CAP_RIGHT_READ 0 "sv_generation (slot_at s1 src i)"] k(2,3)
    show ?thesis using assms(5) al Inr by (simp add: cap_transfer_grant_def Let_def unat_of_nat_u16 fun_upd_idem)
  qed
qed

lemma rc_ok_transfer:
  assumes "rc_ok P D st" "few P" "src < PROC_MAX" "dst < PROC_MAX" "cap_transfer_locked src dst token rights st = (r, st')"
  shows "rc_ok P D st'"
  using assms(1,5) rc_ok_mint [OF assms(1,2,4)]
  by (auto simp: cap_transfer_locked_def Let_def split: option.splits if_splits prod.splits sum.splits
      intro: rc_ok_grant [OF rc_ok_mint [OF assms(1,2,4)] assms(3,4) mint_fd_slot_index])

end
