(* ===== verification/Cap_Revoke.thy ===== *)
theory Cap_Revoke
  imports Cap_Refs
begin

text \<open>
  Revocation (\<^verbatim>\<open>cap_revoke_delegate_impl\<close>): what a scan changes, that a second pass finds nothing,
  that the reference counts stay exact, and what the whole operation leaves behind.
\<close>

section \<open>What only depends on the skeleton of the process table\<close>

text \<open>A process without its capability space. The slot operations do not change it.\<close>

definition skel :: "'z timer_state_scheme \<Rightarrow> nat \<Rightarrow> proc" where
  "skel st p = (proc_table st p)\<lparr>p_slots := (\<lambda>_. 0), p_delegate_epoch := (\<lambda>_. 0)\<rparr>"

lemma skel_upd [simp]:
  "skel (cap_slot_publish p i x ty rights meta g st) = skel st"
  "skel (cap_slot_invalidate p i st) = skel st"
  "skel (cap_slot_set_delegate_epoch p i e st) = skel st"
  by (auto simp: skel_def fun_eq_iff cap_slot_publish_def cap_slot_invalidate_def cap_slot_set_delegate_epoch_def Let_def)

lemma skel_cong: "proc_table st = proc_table st' \<Longrightarrow> skel st = skel st'"
  by (simp add: skel_def fun_eq_iff)

lemma skel_fields:
  assumes "skel st = skel st'"
  shows "p_state (proc_table st p) = p_state (proc_table st' p)"
    "p_generation (proc_table st p) = p_generation (proc_table st' p)"
    "p_pid (proc_table st p) = p_pid (proc_table st' p)"
    "p_parent_pid (proc_table st p) = p_parent_pid (proc_table st' p)"
    "p_parent_generation (proc_table st p) = p_parent_generation (proc_table st' p)"
proof -
  have "skel st p = skel st' p" using assms by simp
  from arg_cong [OF this, of p_state] arg_cong [OF this, of p_generation] arg_cong [OF this, of p_pid]
    arg_cong [OF this, of p_parent_pid] arg_cong [OF this, of p_parent_generation]
  show "p_state (proc_table st p) = p_state (proc_table st' p)"
    "p_generation (proc_table st p) = p_generation (proc_table st' p)"
    "p_pid (proc_table st p) = p_pid (proc_table st' p)"
    "p_parent_pid (proc_table st p) = p_parent_pid (proc_table st' p)"
    "p_parent_generation (proc_table st p) = p_parent_generation (proc_table st' p)"
    by (simp_all add: skel_def)
qed

lemma skel_child: "skel st = skel st' \<Longrightarrow>
    proc_child_matches_parent (proc_table st) = proc_child_matches_parent (proc_table st')"
  by (intro ext) (simp add: proc_child_matches_parent_def skel_fields [of st st'])

lemma skel_candidate: "skel st = skel st' \<Longrightarrow> collect_candidate (proc_table st) = collect_candidate (proc_table st')"
  by (intro ext) (simp add: collect_candidate_def skel_child [of st st'] skel_fields [of st st'])

lemma skel_loop:
  assumes "skel st = skel st'"
  shows "collect_loop (proc_table st) mx added out = collect_loop (proc_table st') mx added out"
proof -
  have "collect_loop pt mx added out = collect_loop pt' mx added out"
    if "collect_candidate pt = collect_candidate pt'" for pt pt' :: procs
    using that
  proof (induction pt mx added out rule: collect_loop.induct)
    case (1 pt mx added out)
    have "collect_pass pt mx out = collect_pass pt' mx out" using "1.prems" by (simp add: collect_pass_def)
    with 1 show ?case
      by (subst (1 2) collect_loop.simps) (simp add: Let_def)
  qed
  with skel_candidate [OF assms] show ?thesis by blast
qed

lemma skel_descendants: "skel st = skel st' \<Longrightarrow>
    proc_collect_descendants_locked (proc_table st) r g mx = proc_collect_descendants_locked (proc_table st') r g mx"
  by (auto simp: proc_collect_descendants_locked_def skel_loop [of st st'] skel_fields [of st st'] split: option.splits)

section \<open>The effect of a scan\<close>

text \<open>
  \<open>revoked_in st st' rec S\<close>: the slots in \<open>S\<close> that match the record are invalidated, every other slot
  and everything else about the processes is as before.
\<close>

definition revoked_in ::
    "'z cap_state_scheme \<Rightarrow> 'z cap_state_scheme \<Rightarrow> delegate_record \<Rightarrow> (nat \<times> nat) set \<Rightarrow> bool" where
  "revoked_in st st' rec S \<longleftrightarrow> skel st' = skel st \<and> delegate_pool st' = delegate_pool st \<and>
     next_grant_epoch st' = next_grant_epoch st \<and>
     (\<forall>q j. if (q, j) \<in> S \<and> revoke_matches st rec q j
            then \<not> sv_valid (slot_at st' q j) \<and> cap_slot_delegate_epoch st' q j = 0
            else slot_at st' q j = slot_at st q j \<and> cap_slot_delegate_epoch st' q j = cap_slot_delegate_epoch st q j)"

lemma revoke_matches_cong:
  "slot_at st' q j = slot_at st q j \<Longrightarrow> cap_slot_delegate_epoch st' q j = cap_slot_delegate_epoch st q j \<Longrightarrow>
     revoke_matches st' rec q j = revoke_matches st rec q j"
  by (simp add: revoke_matches_def)

lemma revoked_in_refl: "revoked_in st st rec {}"
  by (simp add: revoked_in_def)

lemma revoked_in_trans:
  assumes "revoked_in st s1 rec S" "revoked_in s1 s2 rec T"
  shows "revoked_in st s2 rec (S \<union> T)"
  unfolding revoked_in_def
proof (intro conjI allI)
  fix q j
  have 1: "if (q, j) \<in> S \<and> revoke_matches st rec q j
      then \<not> sv_valid (slot_at s1 q j) \<and> cap_slot_delegate_epoch s1 q j = 0
      else slot_at s1 q j = slot_at st q j \<and> cap_slot_delegate_epoch s1 q j = cap_slot_delegate_epoch st q j"
    and 2: "if (q, j) \<in> T \<and> revoke_matches s1 rec q j
      then \<not> sv_valid (slot_at s2 q j) \<and> cap_slot_delegate_epoch s2 q j = 0
      else slot_at s2 q j = slot_at s1 q j \<and> cap_slot_delegate_epoch s2 q j = cap_slot_delegate_epoch s1 q j"
    using assms unfolding revoked_in_def by blast+
  show "if (q, j) \<in> S \<union> T \<and> revoke_matches st rec q j
      then \<not> sv_valid (slot_at s2 q j) \<and> cap_slot_delegate_epoch s2 q j = 0
      else slot_at s2 q j = slot_at st q j \<and> cap_slot_delegate_epoch s2 q j = cap_slot_delegate_epoch st q j"
  proof (cases "(q, j) \<in> S \<and> revoke_matches st rec q j")
    case True
    with 1 have "\<not> revoke_matches s1 rec q j" by (simp add: revoke_matches_def Let_def)
    with True 1 2 show ?thesis by simp
  next
    case False
    with 1 have "revoke_matches s1 rec q j = revoke_matches st rec q j" by (intro revoke_matches_cong) auto
    with False 1 2 show ?thesis by auto
  qed
qed (use assms in \<open>auto simp: revoked_in_def\<close>)

lemma revoke_slot_in:
  assumes "revoke_slot rec q i (n, st) = (n', st')"
  shows "revoked_in st st' rec {(q, i)}" "n' = n + of_bool (revoke_matches st rec q i)"
  using assms by (auto simp: revoke_slot_def revoked_in_def slot_at_upd epoch_upd split: if_splits)

lemma revoke_fold_in:
  "fold (revoke_slot rec q) is (n, st) = (n', st') \<Longrightarrow> revoked_in st st' rec ({q} \<times> set is)"
proof (induction "is" arbitrary: n st)
  case Nil
  then show ?case using revoked_in_refl by simp
next
  case (Cons i "is")
  obtain n1 s1 where 1: "revoke_slot rec q i (n, st) = (n1, s1)" by (rule prod.exhaust)
  with Cons.prems have "fold (revoke_slot rec q) is (n1, s1) = (n', st')" by simp
  from revoked_in_trans [OF revoke_slot_in(1) [OF 1] Cons.IH [OF this]] show ?case
    by (simp add: insert_Times_insert [symmetric])
qed

lemma revoke_target_in:
  assumes "revoke_target rec (q, g) (n, st) = (n', st')"
  shows "\<exists>S. revoked_in st st' rec S \<and> S \<subseteq> {q} \<times> {..<CAP_SPACE_SLOTS} \<and>
    (p_generation (proc_table st q) = g \<and> p_state (proc_table st q) \<noteq> PROC_STATE_FREE \<longrightarrow> S = {q} \<times> {..<CAP_SPACE_SLOTS})"
proof (cases "p_generation (proc_table st q) = g \<and> p_state (proc_table st q) \<noteq> PROC_STATE_FREE")
  case True
  with assms have "fold (revoke_slot rec q) [0..<CAP_SPACE_SLOTS] (n, st) = (n', st')" by (simp add: revoke_target_def)
  from revoke_fold_in [OF this] show ?thesis by (intro exI [of _ "{q} \<times> {..<CAP_SPACE_SLOTS}"]) (simp add: atLeast_upt)
next
  case False
  with assms have "st' = st" by (auto simp: revoke_target_def split: if_splits)
  with False show ?thesis using revoked_in_refl by (intro exI [of _ "{}"]) auto
qed

text \<open>A pass over the targets clears every matching slot of the live ones.\<close>

lemma revoke_targets_in:
  assumes "fold (revoke_target rec) l (n, st) = (n', st')"
    and "\<forall>(q, g) \<in> set l. p_generation (proc_table st q) = g \<and> p_state (proc_table st q) \<noteq> PROC_STATE_FREE"
  shows "revoked_in st st' rec (fst ` set l \<times> {..<CAP_SPACE_SLOTS})"
  using assms
proof (induction l arbitrary: n st)
  case Nil
  then show ?case using revoked_in_refl by simp
next
  case (Cons a l)
  obtain q g where a: "a = (q, g)" by (rule prod.exhaust)
  obtain n1 s1 where 1: "revoke_target rec (q, g) (n, st) = (n1, s1)" by (rule prod.exhaust)
  from revoke_target_in [OF 1] Cons.prems(2) a
  have in1: "revoked_in st s1 rec ({q} \<times> {..<CAP_SPACE_SLOTS})" by auto
  then have sk: "skel s1 = skel st" by (simp add: revoked_in_def)
  have "fold (revoke_target rec) l (n1, s1) = (n', st')" using Cons.prems(1) a 1 by simp
  from Cons.IH [OF this] have in2: "revoked_in s1 st' rec (fst ` set l \<times> {..<CAP_SPACE_SLOTS})"
    using Cons.prems(2) skel_fields [OF sk] by auto
  have "{q} \<times> {..<CAP_SPACE_SLOTS} \<union> fst ` set l \<times> {..<CAP_SPACE_SLOTS} = fst ` set (a # l) \<times> {..<CAP_SPACE_SLOTS}"
    using a by auto
  with revoked_in_trans [OF in1 in2] show ?case by simp
qed

lemma descendants_list:
  assumes "dst < PROC_MAX"
  shows "set (proc_collect_descendants_locked pt (Some dst) g PROC_MAX) =
      (if p_state (pt dst) \<noteq> PROC_STATE_FREE \<and> p_generation (pt dst) = g
       then {(q, p_generation (pt q)) | q. descends pt dst q} else {})"
    and "\<forall>(q, g') \<in> set (proc_collect_descendants_locked pt (Some dst) g PROC_MAX).
      q < PROC_MAX \<and> g' = p_generation (pt q) \<and> p_state (pt q) \<noteq> PROC_STATE_FREE"
proof -
  show s: "set (proc_collect_descendants_locked pt (Some dst) g PROC_MAX) =
      (if p_state (pt dst) \<noteq> PROC_STATE_FREE \<and> p_generation (pt dst) = g
       then {(q, p_generation (pt q)) | q. descends pt dst q} else {})"
    using collect_loop_descendants(1) [OF assms, of pt] by (auto simp: proc_collect_descendants_locked_def)
  have "q < PROC_MAX \<and> p_state (pt q) \<noteq> PROC_STATE_FREE" if "descends pt dst q" "p_state (pt dst) \<noteq> PROC_STATE_FREE" for q
    using that assms by (cases rule: rtranclp.cases) (auto simp: live_child_def)
  then show "\<forall>(q, g') \<in> set (proc_collect_descendants_locked pt (Some dst) g PROC_MAX).
      q < PROC_MAX \<and> g' = p_generation (pt q) \<and> p_state (pt q) \<noteq> PROC_STATE_FREE"
    unfolding s by auto
qed

lemma revoke_pass_in:
  assumes "dst < PROC_MAX" "revoke_pass rec dst st = (n, st')"
  shows "revoked_in st st' rec
    (fst ` set (proc_collect_descendants_locked (proc_table st) (Some dst) (dr_dst_generation rec) PROC_MAX) \<times> {..<CAP_SPACE_SLOTS})"
  using assms(2) descendants_list(2) [OF assms(1), of "proc_table st" "dr_dst_generation rec"]
  unfolding revoke_pass_def by (intro revoke_targets_in) auto

section \<open>Scans and the reference counts\<close>

definition pins_add :: "(u16 \<Rightarrow> nat) \<Rightarrow> u16 \<Rightarrow> nat \<Rightarrow> u16 \<Rightarrow> nat" where
  "pins_add P x k = P(x := P x + k)"

lemma pins_add_simps [simp]:
  "pins_add P x 0 = P" "pins_add (pins_add P x k) x l = pins_add P x (k + l)" "pins_add P x k x = P x + k"
  by (simp_all add: pins_add_def add.assoc)

lemma revoke_slot_rc:
  assumes "rc_ok P D st" "q < PROC_MAX" "i < CAP_SPACE_SLOTS" "dr_dst_type rec = CAP_TYPE_FD" "x = dr_dst_object_index rec"
    and "revoke_slot rec q i (n, st) = (n', st')"
  shows "\<exists>k. n' = n + of_nat k \<and> rc_ok (pins_add P x k) D st' \<and> k = of_bool (revoke_matches st rec q i)"
proof (cases "revoke_matches st rec q i")
  case True
  then have "slot_ref (slot_at st q i) CAP_TYPE_FD x"
    using assms(4,5) by (simp add: revoke_matches_def slot_ref_def Let_def)
  then have "rc_ok (P(x := Suc (P x))) D (cap_slot_invalidate q i st)"
    using assms(1) counted_invalidate(1,4) [OF assms(2,3), where st = st] by (simp add: rc_ok_def slot_ref_def)
  with True assms(6) show ?thesis by (intro exI [of _ 1]) (auto simp: revoke_slot_def pins_add_def)
qed (use assms in \<open>auto simp: revoke_slot_def\<close>)

lemma revoke_fold_rc:
  assumes "rc_ok P D st" "q < PROC_MAX" "set is \<subseteq> {..<CAP_SPACE_SLOTS}" "dr_dst_type rec = CAP_TYPE_FD"
    "x = dr_dst_object_index rec" "fold (revoke_slot rec q) is (n, st) = (n', st')"
  shows "\<exists>k. n' = n + of_nat k \<and> rc_ok (pins_add P x k) D st'"
  using assms(1,3,6)
proof (induction "is" arbitrary: n st P)
  case Nil
  then show ?case by (intro exI [of _ 0]) auto
next
  case (Cons i "is")
  obtain n1 s1 where 1: "revoke_slot rec q i (n, st) = (n1, s1)" by (rule prod.exhaust)
  have "i < CAP_SPACE_SLOTS" using Cons.prems(2) by simp
  from revoke_slot_rc [OF Cons.prems(1) assms(2) this assms(4,5) 1]
  obtain k where k: "n1 = n + of_nat k" "rc_ok (pins_add P x k) D s1" by blast
  have "fold (revoke_slot rec q) is (n1, s1) = (n', st')" using Cons.prems(3) 1 by simp
  from Cons.IH [OF k(2) _ this] Cons.prems(2)
  obtain l where "n' = n1 + of_nat l" "rc_ok (pins_add P x (k + l)) D st'" by auto
  with k(1) show ?case by (intro exI [of _ "k + l"]) (simp add: add.assoc)
qed

lemma revoke_targets_rc:
  assumes "rc_ok P D st" "\<forall>(q, g) \<in> set l. q < PROC_MAX" "dr_dst_type rec = CAP_TYPE_FD" "x = dr_dst_object_index rec"
    "fold (revoke_target rec) l (n, st) = (n', st')"
  shows "\<exists>k. n' = n + of_nat k \<and> rc_ok (pins_add P x k) D st'"
  using assms(1,2,5)
proof (induction l arbitrary: n st P)
  case Nil
  then show ?case by (intro exI [of _ 0]) auto
next
  case (Cons a l)
  obtain q g where a: "a = (q, g)" by (rule prod.exhaust)
  then have q: "q < PROC_MAX" using Cons.prems(2) by simp
  obtain n1 s1 where 1: "revoke_target rec (q, g) (n, st) = (n1, s1)" by (rule prod.exhaust)
  have "\<exists>k. n1 = n + of_nat k \<and> rc_ok (pins_add P x k) D s1"
  proof (cases "p_generation (proc_table st q) \<noteq> g \<or> p_state (proc_table st q) = PROC_STATE_FREE")
    case True
    with 1 Cons.prems(1) show ?thesis by (intro exI [of _ 0]) (auto simp: revoke_target_def)
  next
    case False
    with 1 have "fold (revoke_slot rec q) [0..<CAP_SPACE_SLOTS] (n, st) = (n1, s1)" by (simp add: revoke_target_def)
    from revoke_fold_rc [OF Cons.prems(1) q _ assms(3,4) this] show ?thesis by (simp add: subset_iff)
  qed
  then obtain k where k: "n1 = n + of_nat k" "rc_ok (pins_add P x k) D s1" by blast
  have "fold (revoke_target rec) l (n1, s1) = (n', st')" using Cons.prems(3) a 1 by simp
  from Cons.IH [OF k(2) _ this] Cons.prems(2)
  obtain m where "n' = n1 + of_nat m" "rc_ok (pins_add P x (k + m)) D st'" by auto
  with k(1) show ?case by (intro exI [of _ "k + m"]) (simp add: add.assoc)
qed

lemma revoke_pass_rc:
  assumes "rc_ok P D st" "dst < PROC_MAX" "dr_dst_type rec = CAP_TYPE_FD" "x = dr_dst_object_index rec"
    "revoke_pass rec dst st = (n, st')"
  shows "\<exists>k. n = of_nat k \<and> rc_ok (pins_add P x k) D st'"
  using revoke_targets_rc [OF assms(1) _ assms(3,4) assms(5) [unfolded revoke_pass_def]]
    descendants_list(2) [OF assms(2), of "proc_table st" "dr_dst_generation rec"] by auto

text \<open>The references a scan has collected are counted in 32 bits.\<close>

lemma rc_ok_pins_bound: "rc_ok P D st \<Longrightarrow> P x < 2 ^ 32"
proof -
  assume "rc_ok P D st"
  then have "if fd_live st x then unat (fd_count st x) = uses CAP_TYPE_FD st P x \<and> 0 < uses CAP_TYPE_FD st P x
      else uses CAP_TYPE_FD st P x = 0"
    by (simp add: rc_ok_def fds_counted_def counted_def)
  then show "P x < 2 ^ 32"
    using unsigned_less [of "fd_count st x", where 'a = nat] by (simp add: uses_def split: if_splits)
qed

lemma revoke_loop_rc:
  assumes "rc_ok P D st" "dst < PROC_MAX" "dr_dst_type rec = CAP_TYPE_FD" "x = dr_dst_object_index rec"
    "revoke_loop fuel rec dst n st = Some (n', st')"
  shows "\<exists>k. n' = n + of_nat k \<and> rc_ok (pins_add P x k) D st'"
  using assms(1,5)
proof (induction fuel arbitrary: P n st)
  case (Suc fuel)
  obtain m s1 where 1: "revoke_pass rec dst st = (m, s1)" by (rule prod.exhaust)
  from revoke_pass_rc [OF Suc.prems(1) assms(2-4) 1] obtain k where k: "m = of_nat k" "rc_ok (pins_add P x k) D s1" by blast
  show ?case
  proof (cases "m = 0")
    case True
    with Suc.prems(2) 1 k show ?thesis by (intro exI [of _ k]) auto
  next
    case False
    with Suc.prems(2) 1 have "revoke_loop fuel rec dst (n + m) s1 = Some (n', st')" by simp
    from Suc.IH [OF k(2) this] obtain l where "n' = n + m + of_nat l" "rc_ok (pins_add P x (k + l)) D st'" by auto
    with k(1) show ?thesis by (intro exI [of _ "k + l"]) (simp add: add.assoc)
  qed
qed simp

section \<open>The whole operation\<close>

text \<open>Every record in use was made by a transfer of a file descriptor to a process of the table.\<close>

definition records_ok :: "'z cap_state_scheme \<Rightarrow> bool" where
  "records_ok st \<longleftrightarrow> (\<forall>r < CAP_DELEGATE_RECORD_MAX. dr_in_use (delegate_pool st r) \<longrightarrow>
     dr_dst_type (delegate_pool st r) = CAP_TYPE_FD \<and> (\<exists>d < PROC_MAX. dr_dst_proc (delegate_pool st r) = Some d))"

lemma revoke_begin_Scan:
  assumes "rc_ok P D st" "few D" "records_ok st" "revoke_begin src token st = (Scan r rec, st')"
  shows "rc_ok P (pins_add D (of_nat r) 1) st'" "rec = (delegate_pool st r)\<lparr>dr_refcount := dr_refcount (delegate_pool st r) + 1\<rparr>"
    "proc_table st' = proc_table st" "next_grant_epoch st' = next_grant_epoch st"
    "dr_dst_type rec = CAP_TYPE_FD" "\<exists>d < PROC_MAX. dr_dst_proc rec = Some d" "r < CAP_DELEGATE_RECORD_MAX"
    "\<And>k. k \<noteq> r \<Longrightarrow> delegate_pool st' k = delegate_pool st k" "delegate_pool st' r = rec"
proof -
  obtain slot where slot: "cap_validate_token_locked src token st = Some slot" "sv_type slot = CAP_TYPE_DELEGATE"
    and r: "r = unat (sv_object_index slot)" "r < CAP_DELEGATE_RECORD_MAX" "dr_in_use (delegate_pool st r)"
    and st': "st' = upd_delegate r (\<lambda>d. d\<lparr>dr_refcount := dr_refcount d + 1\<rparr>) st" "rec = delegate_pool st' r"
    using assms(4) by (auto simp: revoke_begin_def Let_def split: option.splits if_splits)
  have x: "of_nat r = sv_object_index slot" using r(1) by simp
  have "delegates_counted (D(sv_object_index slot := Suc (D (sv_object_index slot)))) st'"
    using delegates_counted_bump [of D st "sv_object_index slot"] assms(1,2) r st'(1)
    by (simp add: rc_ok_def few_def dr_live_def)
  then show "rc_ok P (pins_add D (of_nat r) 1) st'"
    using assms(1) fds_counted_cong [of P st st'] x by (simp add: rc_ok_def pins_add_def st'(1))
  show "dr_dst_type rec = CAP_TYPE_FD" "\<exists>d < PROC_MAX. dr_dst_proc rec = Some d"
    using assms(3) r st' by (auto simp: records_ok_def)
qed (use assms(4) in \<open>auto simp: revoke_begin_def Let_def split: option.splits if_splits\<close>)

lemma revoke_begin_Revoked:
  assumes "rc_ok P D st" "few D" "src < PROC_MAX" "revoke_begin src token st = (Revoked r, st')"
  shows "rc_ok P D st'"
proof (cases "st' = st")
  case False
  then obtain slot where slot: "cap_validate_token_locked src token st = Some slot" "sv_type slot = CAP_TYPE_DELEGATE"
    and live: "dr_live st (sv_object_index slot)"
    and st': "st' = delegate_record_put (sv_object_index slot) (snd (cap_drop_slot_locked src slot
      (upd_delegate (unat (sv_object_index slot)) (\<lambda>d. d\<lparr>dr_refcount := dr_refcount d + 1\<rparr>) st)))"
    using assms(4) by (auto simp: revoke_begin_def Let_def dr_live_def split: option.splits if_splits)
  let ?x = "sv_object_index slot"
  let ?s1 = "upd_delegate (unat ?x) (\<lambda>d. d\<lparr>dr_refcount := dr_refcount d + 1\<rparr>) st"
  obtain i where i: "i < CAP_SPACE_SLOTS" "slot = slot_at st src i" using validate_token [OF slot(1)] by metis
  have "rc_ok P (D(?x := Suc (D ?x))) ?s1"
    using assms(1,2) live delegates_counted_bump [of D st ?x] fds_counted_cong [of P st ?s1]
    by (simp add: rc_ok_def few_def)
  from rc_ok_drop_snd [OF this assms(3) i(1)]
  have "rc_ok P (D(?x := Suc (D ?x))) (snd (cap_drop_slot_locked src slot ?s1))"
    using i(2) slot_at_cong [of ?s1 st src i] by simp
  from rc_ok_delegate_put [OF this, of ?x] show ?thesis by (simp add: st')
qed (use assms in simp)

lemma revoke_end_rc:
  assumes "rc_ok (pins_add P (dr_dst_object_index rec) k) (pins_add D (of_nat r) 1) st" "src < PROC_MAX"
    "dr_dst_type rec = CAP_TYPE_FD"
  shows "rc_ok P D (revoke_end src token r rec (of_nat k) st)"
proof -
  let ?x = "dr_dst_object_index rec" and ?P = "pins_add P (dr_dst_object_index rec) k" and ?D = "pins_add D (of_nat r) 1"
  define s1 where "s1 = (case cap_validate_token_locked src token st of
      None \<Rightarrow> st
    | Some slot \<Rightarrow> if sv_type slot = CAP_TYPE_DELEGATE then snd (cap_drop_slot_locked src slot st) else st)"
  have s1: "rc_ok ?P ?D s1"
    unfolding s1_def using assms(1) rc_ok_drop_snd [OF assms(1,2)] by (auto split: option.split elim!: validate_token)
  have "k < 2 ^ 32" using rc_ok_pins_bound [OF s1, of ?x] by simp
  then have k: "unat (of_nat k :: u32) = k" by (simp add: unat_of_nat take_bit_nat_eq_self)
  define s2 where "s2 = (if (of_nat k :: u32) > 0 then cap_release_object (dr_dst_type rec) ?x (of_nat k) s1 else s1)"
  have "rc_ok P ?D s2"
  proof (cases "k = 0")
    case False
    then have "(of_nat k :: u32) > 0" using k by (simp add: word_less_nat_alt)
    moreover have "?P(?x := ?P ?x - k) = P" by (simp add: pins_add_def fun_eq_iff)
    ultimately show ?thesis
      using rc_ok_release [OF s1, of CAP_TYPE_FD "of_nat k" ?x] k assms(3) by (simp add: s2_def)
  qed (use s1 in \<open>simp add: s2_def\<close>)
  moreover have "?D(of_nat r := ?D (of_nat r) - 1) = D" by (simp add: pins_add_def fun_eq_iff)
  ultimately have "rc_ok P D (delegate_record_put (of_nat r) s2)"
    using rc_ok_delegate_put [of P ?D s2 "of_nat r"] by (simp add: pins_add_def)
  then show ?thesis unfolding revoke_end_def Let_def s2_def s1_def .
qed

lemma rc_ok_revoke:
  assumes "rc_ok P D st" "few D" "records_ok st" "src < PROC_MAX"
    "cap_revoke_delegate fuel (Some src) token st = Some (r, st')"
  shows "rc_ok P D st'"
proof -
  obtain e s1 where b: "revoke_begin src token st = (e, s1)" by (rule prod.exhaust)
  show ?thesis
  proof (cases e)
    case (Revoked r')
    with b assms show ?thesis using revoke_begin_Revoked [OF assms(1,2,4)] by (simp add: cap_revoke_delegate_def)
  next
    case (Scan k rec)
    note S = revoke_begin_Scan [OF assms(1-3) b [unfolded Scan]]
    obtain d where d: "d < PROC_MAX" "dr_dst_proc rec = Some d" using S(6) by blast
    obtain n s2 where l: "revoke_loop fuel rec d 0 s1 = Some (n, s2)" "st' = revoke_end src token k rec n s2"
      using assms(5) b Scan d by (auto simp: cap_revoke_delegate_def split: option.splits)
    from revoke_loop_rc [OF S(1) d(1) S(5) refl l(1)] obtain m where
      "n = of_nat m" "rc_ok (pins_add P (dr_dst_object_index rec) m) (pins_add D (of_nat k) 1) s2" by auto
    with revoke_end_rc [OF this(2) assms(4) S(5)] l(2) show ?thesis by simp
  qed
qed

text \<open>A scan of processes without matching slots changes nothing; so the second pass is the last.\<close>

lemma revoke_slots_none:
  "(\<And>i. i \<in> set is \<Longrightarrow> \<not> revoke_matches st rec q i) \<Longrightarrow> fold (revoke_slot rec q) is (n, st) = (n, st)"
  by (induction "is") (auto simp: revoke_slot_def)

lemma revoke_targets_none:
  "(\<And>q g i. (q, g) \<in> set l \<Longrightarrow> i < CAP_SPACE_SLOTS \<Longrightarrow> \<not> revoke_matches st rec q i) \<Longrightarrow>
     fold (revoke_target rec) l (n, st) = (n, st)"
proof (induction l)
  case (Cons a l)
  obtain q g where a: "a = (q, g)" by (rule prod.exhaust)
  have "\<not> revoke_matches st rec q i" if "i < CAP_SPACE_SLOTS" for i using Cons.prems a that by auto
  then have "revoke_target rec (q, g) (n, st) = (n, st)"
    using revoke_slots_none [of "[0..<CAP_SPACE_SLOTS]" st rec q n] by (simp add: revoke_target_def)
  with Cons a show ?case by (simp del: One_nat_def) (metis list.set_intros(2))
qed simp

lemma revoke_loop_two:
  fixes st :: "'z cap_state_scheme" and rec :: delegate_record
  assumes "dst < PROC_MAX" "2 \<le> fuel"
  defines "T \<equiv> fst ` set (proc_collect_descendants_locked (proc_table st) (Some dst) (dr_dst_generation rec) PROC_MAX)"
  obtains n st' where "revoke_loop fuel rec dst m st = Some (n, st')" "revoked_in st st' rec (T \<times> {..<CAP_SPACE_SLOTS})"
proof -
  obtain k where fuel: "fuel = Suc (Suc k)" using le_Suc_ex [OF assms(2)] by auto
  obtain n1 s1 where 1: "revoke_pass rec dst st = (n1, s1)" by (rule prod.exhaust)
  have in1: "revoked_in st s1 rec (T \<times> {..<CAP_SPACE_SLOTS})" using revoke_pass_in [OF assms(1) 1] by (simp add: T_def)
  then have "skel s1 = skel st" by (simp add: revoked_in_def)
  then have l: "proc_collect_descendants_locked (proc_table s1) (Some dst) (dr_dst_generation rec) PROC_MAX =
      proc_collect_descendants_locked (proc_table st) (Some dst) (dr_dst_generation rec) PROC_MAX"
    by (rule skel_descendants)
  have "\<not> revoke_matches s1 rec q i" if "q \<in> T" "i < CAP_SPACE_SLOTS" for q i
  proof (cases "revoke_matches st rec q i")
    case True
    with in1 that have "\<not> sv_valid (slot_at s1 q i)" unfolding revoked_in_def by auto
    then show ?thesis by (simp add: revoke_matches_def Let_def)
  next
    case False
    with in1 that have "slot_at s1 q i = slot_at st q i" "cap_slot_delegate_epoch s1 q i = cap_slot_delegate_epoch st q i"
      unfolding revoked_in_def by auto
    with False show ?thesis by (simp add: revoke_matches_def)
  qed
  then have "revoke_pass rec dst s1 = (0, s1)"
    unfolding revoke_pass_def l by (intro revoke_targets_none) (force simp: T_def)
  with 1 have "\<exists>n. revoke_loop fuel rec dst m st = Some (n, s1)" by (simp add: fuel)
  with in1 that show thesis by blast
qed

text \<open>The last section only touches the delegate handle.\<close>

lemma revoke_end_slots:
  assumes "cap_validate_token_locked src token st = Some slot" "sv_type slot = CAP_TYPE_DELEGATE"
  shows "slot_at (revoke_end src token r rec n st) q j =
    slot_at (cap_slot_invalidate src (unat (token_slot token)) st) q j"
proof -
  obtain i where i: "i < CAP_SPACE_SLOTS" "slot = slot_at st src i" "sv_valid (slot_at st src i)" "i = unat (token_slot token)"
    by (rule validate_token [OF assms(1)])
  obtain dr s1 where d: "cap_drop_slot_locked src (slot_at st src i) st = (dr, s1)" by (rule prod.exhaust)
  have "proc_table (revoke_end src token r rec n st) = proc_table s1"
    using assms d i(2) by (simp add: revoke_end_def Let_def)
  also have "\<dots> = proc_table (cap_slot_invalidate src i st)" by (rule drop_slot(2) [OF i(1,3) d])
  finally show ?thesis unfolding i(4) by (rule slot_at_cong)
qed

lemma validate_token_cong:
  "slot_at st' p (unat (token_slot token)) = slot_at st p (unat (token_slot token)) \<Longrightarrow>
     cap_validate_token_locked p token st' = cap_validate_token_locked p token st"
  by (simp add: cap_validate_token_locked_def Let_def)

lemma revoke_effect:
  assumes ok: "rc_ok P D st" "few D" "records_ok st" "src < PROC_MAX" "2 \<le> fuel"
    and slot: "cap_validate_token_locked src token st = Some slot" "sv_type slot = CAP_TYPE_DELEGATE"
    and rec: "rec = delegate_pool st (unat (sv_object_index slot))" "dr_dst_proc rec = Some dst"
      "p_generation (proc_table st dst) = dr_dst_generation rec" "p_state (proc_table st dst) \<noteq> PROC_STATE_FREE"
  obtains st' where "cap_revoke_delegate fuel (Some src) token st = Some (Inr (), st')" "rc_ok P D st'"
    "\<And>q j. \<lbrakk>descends (proc_table st) dst q; j < CAP_SPACE_SLOTS; revoke_matches st rec q j\<rbrakk> \<Longrightarrow> \<not> sv_valid (slot_at st' q j)"
    "\<not> sv_valid (slot_at st' src (unat (token_slot token)))"
    "\<And>q j. \<lbrakk>\<not> (q = src \<and> j = unat (token_slot token));
        \<not> (descends (proc_table st) dst q \<and> j < CAP_SPACE_SLOTS \<and> revoke_matches st rec q j)\<rbrakk> \<Longrightarrow> slot_at st' q j = slot_at st q j"
proof -
  let ?x = "sv_object_index slot" and ?i = "unat (token_slot token)"
  have i: "?i < CAP_SPACE_SLOTS" "slot = slot_at st src ?i" "sv_valid slot" using validate_token [OF slot(1)] by metis+
  have "(src, ?i) \<in> refs CAP_TYPE_DELEGATE st ?x" using ok(4) i slot(2) by (auto simp: refs_def slot_ref_def)
  then have "0 < card (refs CAP_TYPE_DELEGATE st ?x)" by (auto simp: card_gt_0_iff)
  then have live: "dr_live st ?x" using dr_live_iff [of D st ?x] ok(1) by (simp add: rc_ok_def uses_def)
  define s1 where "s1 = upd_delegate (unat ?x) (\<lambda>d. d\<lparr>dr_refcount := dr_refcount d + 1\<rparr>) st"
  define rec' where "rec' = rec\<lparr>dr_refcount := dr_refcount rec + 1\<rparr>"
  have b: "revoke_begin src token st = (Scan (unat ?x) rec', s1)"
    using slot rec live by (simp add: revoke_begin_def Let_def dr_live_def s1_def rec'_def)
  have dst: "dst < PROC_MAX" "dr_dst_proc rec' = Some dst" "dr_dst_generation rec' = dr_dst_generation rec"
    "dr_dst_type rec' = CAP_TYPE_FD" "\<And>s q j. revoke_matches s rec' q j = revoke_matches s rec q j"
    using ok(3) live rec by (auto simp: records_ok_def dr_live_def rec'_def revoke_matches_def)
  have same: "slot_at s1 q j = slot_at st q j" "revoke_matches s1 rec q j = revoke_matches st rec q j" for q j
    by (simp_all add: s1_def slot_at_def revoke_matches_def cap_slot_delegate_epoch_def)
  obtain n s2 where l: "revoke_loop fuel rec' dst 0 s1 = Some (n, s2)" and
    in2: "revoked_in s1 s2 rec' (fst ` set (proc_collect_descendants_locked (proc_table s1) (Some dst)
      (dr_dst_generation rec') PROC_MAX) \<times> {..<CAP_SPACE_SLOTS})"
    by (rule revoke_loop_two [OF dst(1) ok(5)])
  have T: "fst ` set (proc_collect_descendants_locked (proc_table s1) (Some dst) (dr_dst_generation rec') PROC_MAX) =
      {q. descends (proc_table st) dst q}"
    using descendants_list(1) [OF dst(1), of "proc_table s1" "dr_dst_generation rec'"] rec(3,4) dst(3)
    by (force simp: s1_def)
  have s2: "if descends (proc_table st) dst q \<and> j < CAP_SPACE_SLOTS \<and> revoke_matches st rec q j
      then \<not> sv_valid (slot_at s2 q j) else slot_at s2 q j = slot_at st q j" for q j
    using in2 unfolding revoked_in_def T dst(5) same by auto
  have "\<not> revoke_matches st rec src ?i"
    using slot(2) i(2) dst(4) by (auto simp: revoke_matches_def Let_def rec'_def)
  then have keep: "slot_at s2 src ?i = slot_at st src ?i" using s2 [of src ?i] by auto
  define st' where "st' = revoke_end src token (unat ?x) rec' n s2"
  have res: "cap_revoke_delegate fuel (Some src) token st = Some (Inr (), st')"
    using b l dst(2) by (simp add: cap_revoke_delegate_def st'_def)
  have "cap_validate_token_locked src token s2 = Some slot" using validate_token_cong [OF keep] slot(1) by simp
  from revoke_end_slots [OF this slot(2)]
  have sl: "slot_at st' q j = slot_at (cap_slot_invalidate src ?i s2) q j" for q j by (simp add: st'_def)
  show thesis
    using s2 sl by (intro that [OF res rc_ok_revoke [OF ok(1-4) res]]) (auto simp: slot_at_upd split: if_splits)
qed

end
