(* ===== verification/Cap_Delegation.thy ===== *)
theory Cap_Delegation
  imports Cap_Revoke
begin

text \<open>
  Delegation. A slot made by a transfer, and every copy of it, carries the grant epoch of the transfer; such a
  slot never has the grant right, so a delegate cannot delegate further. The
  invariant also keeps the epochs of the slots below the counter of grants, so every grant is told apart from all
  earlier ones.
\<close>

section \<open>The invariant\<close>

definition deleg_ok :: "'z cap_state_scheme \<Rightarrow> bool" where
  "deleg_ok st \<longleftrightarrow> 0 < next_grant_epoch st \<and> records_ok st \<and>
     (\<forall>p j. sv_valid (slot_at st p j) \<and> cap_slot_delegate_epoch st p j \<noteq> 0 \<longrightarrow>
        sv_rights (slot_at st p j) AND CAP_RIGHT_GRANT = 0) \<and>
     (\<forall>p j. cap_slot_delegate_epoch st p j < next_grant_epoch st)"

text \<open>Each slot is as before or is not delegated.\<close>

definition undelegated :: "'z cap_state_scheme \<Rightarrow> 'z cap_state_scheme \<Rightarrow> bool" where
  "undelegated st st' \<longleftrightarrow> next_grant_epoch st' = next_grant_epoch st \<and>
     (\<forall>q j. cap_slot_delegate_epoch st' q j = 0 \<or>
        slot_at st' q j = slot_at st q j \<and> cap_slot_delegate_epoch st' q j = cap_slot_delegate_epoch st q j)"

text \<open>No record appears, and those that stay keep their contents.\<close>

definition records_shrink :: "'z cap_state_scheme \<Rightarrow> 'z cap_state_scheme \<Rightarrow> bool" where
  "records_shrink st st' \<longleftrightarrow> (\<forall>r. dr_in_use (delegate_pool st' r) \<longrightarrow> dr_in_use (delegate_pool st r) \<and>
     (delegate_pool st' r)\<lparr>dr_refcount := 0\<rparr> = (delegate_pool st r)\<lparr>dr_refcount := 0\<rparr>)"

definition calm :: "'z cap_state_scheme \<Rightarrow> 'z cap_state_scheme \<Rightarrow> bool" where
  "calm st st' \<longleftrightarrow> undelegated st st' \<and> records_shrink st st'"

lemma records_shrink_same: "delegate_pool st' = delegate_pool st \<Longrightarrow> records_shrink st st'"
  by (simp add: records_shrink_def)

lemma records_shrink_trans: "records_shrink a b \<Longrightarrow> records_shrink b c \<Longrightarrow> records_shrink a c"
  by (simp add: records_shrink_def)

lemma same_record:
  assumes "a\<lparr>dr_refcount := 0\<rparr> = b\<lparr>dr_refcount := 0\<rparr>"
  shows "dr_dst_type a = dr_dst_type b" "dr_dst_proc a = dr_dst_proc b" "dr_grant_epoch a = dr_grant_epoch b"
    "dr_dst_object_index a = dr_dst_object_index b" "dr_dst_generation a = dr_dst_generation b"
  using arg_cong [OF assms, of dr_dst_type] arg_cong [OF assms, of dr_dst_proc] arg_cong [OF assms, of dr_grant_epoch]
    arg_cong [OF assms, of dr_dst_object_index] arg_cong [OF assms, of dr_dst_generation] by simp_all

lemma undelegated_refl [simp]: "undelegated st st"
  by (simp add: undelegated_def)

lemma undelegated_trans: "undelegated a b \<Longrightarrow> undelegated b c \<Longrightarrow> undelegated a c"
  unfolding undelegated_def by metis

lemma calm_refl [simp]: "calm st st"
  by (simp add: calm_def records_shrink_same)

lemma calm_trans: "calm a b \<Longrightarrow> calm b c \<Longrightarrow> calm a c"
  unfolding calm_def using undelegated_trans records_shrink_trans by blast

lemma calm_same:
  "\<lbrakk>proc_table st' = proc_table st; delegate_pool st' = delegate_pool st; next_grant_epoch st' = next_grant_epoch st\<rbrakk> \<Longrightarrow> calm st st'"
  by (simp add: calm_def undelegated_def records_shrink_same slot_at_def cap_slot_delegate_epoch_def)

lemma records_ok_shrink: "records_ok st \<Longrightarrow> records_shrink st st' \<Longrightarrow> records_ok st'"
  unfolding records_ok_def records_shrink_def using same_record(1,2) by metis

lemma deleg_ok_calm:
  assumes "deleg_ok st" "calm st st'"
  shows "deleg_ok st'"
proof -
  have n: "next_grant_epoch st' = next_grant_epoch st" and
    s: "\<And>q j. cap_slot_delegate_epoch st' q j = 0 \<or>
        slot_at st' q j = slot_at st q j \<and> cap_slot_delegate_epoch st' q j = cap_slot_delegate_epoch st q j"
    using assms(2) by (auto simp: calm_def undelegated_def)
  have "records_ok st'" using assms records_ok_shrink by (auto simp: deleg_ok_def calm_def)
  moreover have "sv_rights (slot_at st' q j) AND CAP_RIGHT_GRANT = 0"
    if "sv_valid (slot_at st' q j)" "cap_slot_delegate_epoch st' q j \<noteq> 0" for q j
    using that s [of q j] assms(1) by (auto simp: deleg_ok_def)
  moreover have "cap_slot_delegate_epoch st' q j < next_grant_epoch st" for q j
    using s [of q j] assms(1) by (auto simp: deleg_ok_def)
  ultimately show ?thesis using assms(1) n by (auto simp: deleg_ok_def)
qed

section \<open>The primitives\<close>

lemma calm_publish: "calm st (cap_slot_publish p i x ty rights meta g st)"
  by (simp add: calm_def undelegated_def records_shrink_same slot_at_upd epoch_upd)

lemma calm_invalidate: "calm st (cap_slot_invalidate p i st)"
  by (simp add: calm_def undelegated_def records_shrink_same slot_at_upd epoch_upd)

lemma calm_release: "calm st (cap_release_object ty x n st)"
  by (simp add: calm_same)

lemma calm_fd_put: "calm st (fd_put x st)"
  by (simp add: calm_same)

lemma calm_upd_fd: "calm st (upd_fd i f st)"
  by (simp add: calm_same)

lemma calm_delegate_put: "calm st (delegate_record_put r st)"
proof -
  have "records_shrink st (delegate_record_put r st)"
    by (auto simp: records_shrink_def delegate_record_put_def Let_def zero_delegate_def)
  then show ?thesis
    by (simp add: calm_def undelegated_def slot_at_def cap_slot_delegate_epoch_def)
qed

lemma calm_drop: "calm st (snd (cap_drop_slot_locked p slot st))"
  by (auto simp: cap_drop_slot_locked_def Let_def
      intro: calm_trans [OF calm_invalidate calm_delegate_put] calm_trans [OF calm_invalidate calm_release])

lemma calm_alloc: "cap_fd_pool_alloc kind st = (r, st') \<Longrightarrow> calm st st'"
  by (auto simp: cap_fd_pool_alloc_def calm_upd_fd split: option.splits)

lemma calm_dropE: "cap_drop_slot_locked p slot st = (r, st') \<Longrightarrow> calm st st'"
  using calm_drop [of st p slot] by simp

section \<open>The operations\<close>

lemma calm_mint_slot:
  assumes "cap_mint_fd_slot p x rights meta hint exact bump st = (r, st')"
  shows "calm st st'"
proof (cases "cap_reserve_slot_locked p hint exact False st")
  case (Inl e)
  with assms show ?thesis by (auto simp: cap_mint_fd_slot_def Let_def calm_release)
next
  case (Inr i)
  obtain dr s1 where d: "(if exact \<and> sv_valid (slot_at st p i) then cap_drop_slot_locked p (slot_at st p i) st
      else (Inr (), st)) = (dr, s1)" by (rule prod.exhaust)
  then have s1: "calm st s1" by (auto split: if_splits dest: calm_dropE)
  have "calm s1 st'"
    using assms Inr d by (cases dr) (auto simp: cap_mint_fd_slot_def Let_def calm_release calm_publish)
  with s1 show ?thesis by (rule calm_trans)
qed

lemma calm_mint: "cap_mint_fd_locked p x rights meta hint exact bump st = (r, st') \<Longrightarrow> calm st st'"
  by (auto simp: cap_mint_fd_locked_def split: if_splits option.splits
      dest: calm_mint_slot intro: calm_trans [OF calm_upd_fd calm_mint_slot])

text \<open>The minted slot.\<close>

lemma mint_fd_slot_view:
  assumes "cap_mint_fd_locked p x rights meta hint exact bump st = (Inr fd, st')"
  shows "sv_valid (slot_at st' p fd)" "sv_type (slot_at st' p fd) = CAP_TYPE_FD" "sv_object_index (slot_at st' p fd) = x AND 0xFFF"
    "sv_rights (slot_at st' p fd) = rights AND 0xF" "cap_slot_delegate_epoch st' p fd = 0"
proof -
  obtain s0 where "cap_mint_fd_slot p x rights meta hint exact bump s0 = (Inr fd, st')"
    using assms by (auto simp: cap_mint_fd_locked_def split: if_splits option.splits)
  then obtain s1 g where "st' = cap_slot_publish p fd x CAP_TYPE_FD rights meta g s1"
    by (auto simp: cap_mint_fd_slot_def Let_def split: sum.splits prod.splits)
  then show "sv_valid (slot_at st' p fd)" "sv_type (slot_at st' p fd) = CAP_TYPE_FD" "sv_object_index (slot_at st' p fd) = x AND 0xFFF"
    "sv_rights (slot_at st' p fd) = rights AND 0xF" "cap_slot_delegate_epoch st' p fd = 0"
    by (simp_all add: slot_at_upd epoch_upd)
qed

lemma calm_open_new: "cap_open_new p f rights hint exact i st = (r, st') \<Longrightarrow> calm st st'"
  by (auto simp: cap_open_new_def Let_def cap_fd_pool_abort_new_def split: prod.splits sum.splits
      intro: calm_trans [OF calm_upd_fd calm_mint] calm_trans [OF calm_trans [OF calm_upd_fd calm_mint] calm_fd_put])

lemma calm_log: "calm st (st\<lparr>fd_closes := l\<rparr>)"
  by (simp add: calm_same)

lemma calm_open:
  "cap_open_vfs p file rights sk fl hint exact st = (r, st') \<Longrightarrow> calm st st'"
  "cap_open_pipe p pipe re rights hint exact st = (r, st') \<Longrightarrow> calm st st'"
  "cap_open_console p cid rights hint exact st = (r, st') \<Longrightarrow> calm st st'"
  by (auto simp: cap_open_vfs_def cap_open_pipe_def cap_open_console_def split: prod.splits sum.splits
      intro: calm_trans [OF calm_alloc calm_open_new] calm_trans [OF calm_alloc calm_log] calm_alloc)

lemma calm_close:
  "cap_close_fd (Some p) fd st = (r, st') \<Longrightarrow> calm st st'"
  "cap_drop_token (Some p) token st = (r, st') \<Longrightarrow> calm st st'"
  by (auto simp: cap_close_fd_def cap_drop_token_def Let_def split: option.splits if_splits dest: calm_dropE)

lemma calm_put_ref: "cap_put_ref ref st = (ref', st') \<Longrightarrow> calm st st'"
  by (auto simp: cap_put_ref_def calm_release split: if_splits)

lemma calm_timer_ref: "calm st (timer_get_ref i st)"
  using more_frame [of "timer_get_ref i st" st] by (intro calm_same) (simp_all add: timer_get_ref_def)

lemma calm_pin: "cap_pinned_lookup p h rights ty st = (r, st') \<Longrightarrow> calm st st'"
  by (auto simp: cap_pinned_lookup_def Let_def calm_upd_fd calm_timer_ref split: option.splits if_splits)

lemma calm_lookup:
  "cap_lookup_fd p h rights st = (ref, st') \<Longrightarrow> calm st st'"
  "cap_lookup_timer p h rights st = (ref, st') \<Longrightarrow> calm st st'"
  by (auto simp: cap_lookup_fd_def cap_lookup_timer_def pinned_ref_def split: prod.splits option.splits dest: calm_pin)

lemma calm_inc_ref: "cap_object_inc_ref ty x st = (b, st') \<Longrightarrow> calm st st'"
  by (auto simp: cap_object_inc_ref_def Let_def split: prod.splits if_splits intro!: calm_same)

lemma calm_lookup_object: "cap_lookup_object p h rights ty st = (ref, st') \<Longrightarrow> calm st st'"
  by (auto simp: cap_lookup_object_def Let_def split: prod.splits option.splits if_splits bool.splits dest: calm_inc_ref)

lemma calm_open_handle: "cap_open_handle p x ty rights hint exact st = (r, st') \<Longrightarrow> calm st st'"
  by (auto simp: cap_open_handle_def Let_def calm_publish split: option.splits sum.splits if_splits
      intro: calm_trans [OF calm_drop calm_publish])

lemma calm_revoked_in: "revoked_in st st' rec S \<Longrightarrow> calm st st'"
  unfolding revoked_in_def calm_def undelegated_def by (metis records_shrink_same)

lemma records_shrink_upd: "calm st (upd_delegate r (\<lambda>d. d\<lparr>dr_refcount := n d\<rparr>) st)"
  by (auto simp: calm_def undelegated_def records_shrink_def slot_at_def cap_slot_delegate_epoch_def)

lemma calm_revoke_begin: "revoke_begin src token st = (e, st') \<Longrightarrow> calm st st'"
  by (auto simp: revoke_begin_def Let_def records_shrink_upd split: option.splits if_splits
      intro: calm_trans [OF calm_trans [OF records_shrink_upd calm_drop] calm_delegate_put])

lemma calm_revoke_target: "revoke_target rec tgt (n, st) = (n', st') \<Longrightarrow> calm st st'"
  using revoke_target_in [of rec "fst tgt" "snd tgt" n st n' st'] calm_revoked_in by auto

lemma calm_revoke_end: "calm st (revoke_end src token r rec n st)"
proof -
  let ?s1 = "case cap_validate_token_locked src token st of None \<Rightarrow> st
    | Some slot \<Rightarrow> if sv_type slot = CAP_TYPE_DELEGATE then snd (cap_drop_slot_locked src slot st) else st"
  let ?s2 = "if n > 0 then cap_release_object (dr_dst_type rec) (dr_dst_object_index rec) n ?s1 else ?s1"
  have "calm st ?s1" using calm_drop by (auto split: option.split)
  moreover have "calm ?s1 ?s2" using calm_release by auto
  ultimately have "calm st ?s2" by (rule calm_trans)
  from calm_trans [OF this calm_delegate_put] show ?thesis by (simp add: revoke_end_def Let_def)
qed

section \<open>Copies and grants\<close>

lemma deleg_ok_set_epoch:
  assumes "deleg_ok st" "e < next_grant_epoch st"
    and "e \<noteq> 0 \<Longrightarrow> sv_rights (slot_at st p i) AND CAP_RIGHT_GRANT = 0"
  shows "deleg_ok (cap_slot_set_delegate_epoch p i e st)"
  using assms by (auto simp: deleg_ok_def slot_at_upd epoch_upd records_ok_def)

lemma mask_rights: "(rights AND 0xF) AND CAP_RIGHT_GRANT = rights AND CAP_RIGHT_GRANT" for rights :: u8
proof -
  have "(0xF :: u8) AND 8 = 8" by simp
  then show ?thesis by (simp only: and.assoc)
qed

lemma deleg_ok_copy:
  assumes "deleg_ok st" "sv_valid (slot_at st s j)"
    "cap_mint_fd_locked p x (sv_rights (slot_at st s j)) meta hint exact bump st = (Inr fd, st')"
  shows "deleg_ok (cap_slot_set_delegate_epoch p fd (cap_slot_delegate_epoch st' s j) st')"
proof -
  have ok: "deleg_ok st'" using assms(1) calm_mint [OF assms(3)] by (rule deleg_ok_calm)
  let ?e = "cap_slot_delegate_epoch st' s j"
  have "sv_rights (slot_at st' p fd) AND CAP_RIGHT_GRANT = 0" if "?e \<noteq> 0"
  proof -
    have "cap_slot_delegate_epoch st s j \<noteq> 0"
      using that calm_mint [OF assms(3)] unfolding calm_def undelegated_def by metis
    with assms(1,2) have "sv_rights (slot_at st s j) AND CAP_RIGHT_GRANT = 0" by (auto simp: deleg_ok_def)
    then show ?thesis using mint_fd_slot_view(4) [OF assms(3)] by (simp add: mask_rights)
  qed
  with ok show ?thesis by (intro deleg_ok_set_epoch) (auto simp: deleg_ok_def)
qed

lemma deleg_ok_dup:
  assumes "deleg_ok st" "cap_dup_fd (Some p) old new exact st = (r, st')"
  shows "deleg_ok st'"
  using assms deleg_ok_copy [OF assms(1)] deleg_ok_calm [OF assms(1) calm_mint]
  by (auto simp: cap_dup_fd_def Let_def split: if_splits prod.splits sum.splits)

lemma deleg_ok_inherit:
  assumes "deleg_ok st" "cap_inherit_fd (Some s) (Some d) sfd dfd st = (r, st')"
  shows "deleg_ok st'"
  using assms deleg_ok_copy [OF assms(1)] deleg_ok_calm [OF assms(1) calm_mint] deleg_ok_dup [OF assms(1)]
  by (auto simp: cap_inherit_fd_def Let_def split: if_splits prod.splits sum.splits)

lemma u64_less_inc: "e \<noteq> -1 \<Longrightarrow> e < e + 1" for e :: u64
  using unatSuc [of e] by (simp add: word_less_nat_alt add.commute eq_neg_iff_add_eq_0)

lemma deleg_ok_alloc:
  assumes "deleg_ok st" "next_grant_epoch st \<noteq> -1" "d < PROC_MAX"
    "delegate_record_alloc (Some d) x CAP_TYPE_FD st = (Inr k, st')"
  shows "deleg_ok st'" "next_grant_epoch st' = next_grant_epoch st + 1" "proc_table st' = proc_table st"
    "delegate_pool st' k = \<lparr>dr_in_use = True, dr_dst_proc = Some d, dr_dst_generation = p_generation (proc_table st d),
      dr_dst_object_index = x, dr_dst_type = CAP_TYPE_FD, dr_grant_epoch = next_grant_epoch st, dr_refcount = 1\<rparr>"
proof -
  have lt: "next_grant_epoch st < next_grant_epoch st + 1"
    using assms(2) by (simp add: u64_less_inc)
  have st': "delegate_pool st' = (delegate_pool st)(k := \<lparr>dr_in_use = True, dr_dst_proc = Some d,
      dr_dst_generation = p_generation (proc_table st d), dr_dst_object_index = x, dr_dst_type = CAP_TYPE_FD,
      dr_grant_epoch = next_grant_epoch st, dr_refcount = 1\<rparr>)"
    and n: "next_grant_epoch st' = next_grant_epoch st + 1" and pt: "proc_table st' = proc_table st"
    using assms(4) by (auto simp: delegate_record_alloc_def split: option.splits)
  have same: "slot_at st' q j = slot_at st q j" "cap_slot_delegate_epoch st' q j = cap_slot_delegate_epoch st q j" for q j
    using pt by (simp_all add: slot_at_def cap_slot_delegate_epoch_def)
  have "0 < next_grant_epoch st'" using assms(1) lt n by (simp add: deleg_ok_def) (meson less_trans)
  moreover have "records_ok st'" using assms(1,3) st' by (auto simp: deleg_ok_def records_ok_def)
  moreover have "cap_slot_delegate_epoch st q j < next_grant_epoch st'" for q j
    using assms(1) lt n by (simp add: deleg_ok_def) (meson less_trans)
  ultimately show "deleg_ok st'" using assms(1) same by (simp add: deleg_ok_def)
qed (use assms(4) in \<open>auto simp: delegate_record_alloc_def split: option.splits\<close>)

lemma deleg_ok_grant:
  assumes "deleg_ok st" "next_grant_epoch st \<noteq> -1" "dst < PROC_MAX" "sv_type slot = CAP_TYPE_FD"
    and "sv_rights (slot_at st dst fd) AND CAP_RIGHT_GRANT = 0"
    and r: "cap_transfer_grant src dst slot fd st = (r, st')"
  shows "deleg_ok st'"
proof -
  obtain a s1 where al: "delegate_record_alloc (Some dst) (sv_object_index slot) CAP_TYPE_FD st = (a, s1)" by (rule prod.exhaust)
  show ?thesis
  proof (cases a)
    case (Inl e)
    with al delegate_alloc_fails have "s1 = st" by fastforce
    with Inl al r assms(4) have "st' = snd (cap_drop_slot_locked dst (slot_at st dst fd) st)"
      by (auto simp: cap_transfer_grant_def Let_def)
    then show ?thesis using deleg_ok_calm [OF assms(1) calm_drop] by simp
  next
    case (Inr k)
    note A = deleg_ok_alloc [OF assms(1-3) al [unfolded Inr]]
    show ?thesis
    proof (cases "cap_reserve_slot_locked src (-1) False False s1")
      case (Inl e)
      with \<open>a = Inr k\<close> al r assms(4)
      have "st' = delegate_record_put (of_nat k) (snd (cap_drop_slot_locked dst (slot_at s1 dst fd) s1))"
        by (auto simp: cap_transfer_grant_def Let_def)
      then show ?thesis using deleg_ok_calm [OF A(1) calm_trans [OF calm_drop calm_delegate_put]] by simp
    next
      case (Inr i)
      let ?e = "next_grant_epoch st" and ?g = "sv_generation (slot_at s1 src i)"
      have "st' = cap_slot_publish src i (of_nat k) CAP_TYPE_DELEGATE CAP_RIGHT_READ 0 ?g
          (cap_slot_set_delegate_epoch dst fd ?e s1)"
        using \<open>a = Inr k\<close> Inr al r assms(4) A(4) by (auto simp: cap_transfer_grant_def Let_def)
      moreover have "?e < next_grant_epoch s1"
        using assms(2) A(2) by (simp add: u64_less_inc)
      moreover have "slot_at s1 dst fd = slot_at st dst fd" using A(3) by (simp add: slot_at_def)
      ultimately show ?thesis
        using deleg_ok_calm [OF deleg_ok_set_epoch [OF A(1), of ?e dst fd] calm_publish] assms(5) by simp
    qed
  qed
qed

lemma strip_grant: "((rights AND -9) AND 0xF) AND CAP_RIGHT_GRANT = 0" for rights :: u8
  by (simp only: mask_rights and.assoc) simp

lemma deleg_ok_transfer:
  assumes "deleg_ok st" "next_grant_epoch st \<noteq> -1" "dst < PROC_MAX" "cap_transfer_locked src dst token rights st = (r, st')"
  shows "deleg_ok st'"
proof -
  have "deleg_ok s2" if m: "cap_mint_fd_locked dst x (rights AND NOT CAP_RIGHT_GRANT) meta (-1) False True st = (Inr fd, s1)"
    and g: "sv_type slot = CAP_TYPE_FD" "cap_transfer_grant src dst slot fd s1 = (r, s2)" for x meta fd s1 slot s2
  proof -
    have c: "calm st s1" by (rule calm_mint [OF m])
    show ?thesis
      using deleg_ok_grant [OF deleg_ok_calm [OF assms(1) c] _ assms(3) g(1) _ g(2)] c assms(2) mint_fd_slot_view(4) [OF m]
      by (simp add: strip_grant calm_def undelegated_def)
  qed
  then show ?thesis
    using assms(1,4) deleg_ok_calm [OF assms(1) calm_mint]
    by (auto simp: cap_transfer_locked_def Let_def split: option.splits if_splits prod.splits sum.splits)
qed

end
