(* ===== verification/Capability.thy ===== *)
theory Capability
  imports Cap_Delegation
begin

text \<open>
  The capability layer as a whole: its steps, the invariants of every run, and the properties of tokens, reference
  counts, delegation, revocation and teardown.
\<close>

section \<open>Steps\<close>

text \<open>
  A step runs one section under the \<^verbatim>\<open>fd_lock\<close>s, of any process, on any arguments. The ghost components \<open>P\<close>
  and \<open>D\<close> count the references held by code in progress: a lookup gives its caller one, which
  \<^verbatim>\<open>cap_put_ref\<close> consumes, and a revocation holds one on the record and one for every slot it has invalidated. Revocation is
  three kinds of steps, so that other operations interleave with it. A transfer starts its locked
  section with a target that is not free.
\<close>

type_synonym 'z cap_config = "(u16 \<Rightarrow> nat) \<times> (u16 \<Rightarrow> nat) \<times> 'z cap_state_scheme"

inductive cap_step :: "'z cap_config \<Rightarrow> 'z cap_config \<Rightarrow> bool" where
  cs_open_vfs: "\<lbrakk>p < PROC_MAX; cap_open_vfs p file rights sk fl hint exact st = (r, st')\<rbrakk> \<Longrightarrow> cap_step (P, D, st) (P, D, st')"
| cs_open_pipe: "\<lbrakk>p < PROC_MAX; cap_open_pipe p pipe re rights hint exact st = (r, st')\<rbrakk> \<Longrightarrow> cap_step (P, D, st) (P, D, st')"
| cs_open_console: "\<lbrakk>p < PROC_MAX; cap_open_console p cid rights hint exact st = (r, st')\<rbrakk> \<Longrightarrow> cap_step (P, D, st) (P, D, st')"
| cs_close: "\<lbrakk>p < PROC_MAX; cap_close_fd (Some p) fd st = (ru, st')\<rbrakk> \<Longrightarrow> cap_step (P, D, st) (P, D, st')"
| cs_drop_token: "\<lbrakk>p < PROC_MAX; cap_drop_token (Some p) token st = (ru, st')\<rbrakk> \<Longrightarrow> cap_step (P, D, st) (P, D, st')"
| cs_open_handle: "\<lbrakk>p < PROC_MAX; ty AND 0xF \<noteq> CAP_TYPE_FD; ty AND 0xF \<noteq> CAP_TYPE_DELEGATE;
    cap_open_handle (Some p) x ty rights hint exact st = (r, st')\<rbrakk> \<Longrightarrow> cap_step (P, D, st) (P, D, st')"
| cs_lookup_fd: "\<lbrakk>few P; cap_lookup_fd (Some p) fd rights st = (ref, st')\<rbrakk> \<Longrightarrow>
    cap_step (P, D, st) (if cr_type ref = CAP_TYPE_FD then pins_add P (cr_object_index ref) 1 else P, D, st')"
| cs_lookup_timer: "cap_lookup_timer (Some p) h rights st = (ref, st') \<Longrightarrow> cap_step (P, D, st) (P, D, st')"
| cs_lookup_object: "cap_lookup_object (Some p) h rights ty st = (ref, st') \<Longrightarrow> cap_step (P, D, st) (P, D, st')"
| cs_put_ref: "\<lbrakk>cr_type ref = CAP_TYPE_FD; cap_put_ref ref st = (ref', st')\<rbrakk> \<Longrightarrow>
    cap_step (pins_add P (cr_object_index ref) 1, D, st) (P, D, st')"
| cs_put_ref_other: "\<lbrakk>cr_type ref \<noteq> CAP_TYPE_FD; cap_put_ref ref st = (ref', st')\<rbrakk> \<Longrightarrow> cap_step (P, D, st) (P, D, st')"
| cs_dup: "\<lbrakk>few P; p < PROC_MAX; cap_dup_fd (Some p) old new exact st = (r, st')\<rbrakk> \<Longrightarrow> cap_step (P, D, st) (P, D, st')"
| cs_inherit: "\<lbrakk>few P; s < PROC_MAX; d < PROC_MAX; cap_inherit_fd (Some s) (Some d) sfd dfd st = (r, st')\<rbrakk> \<Longrightarrow>
    cap_step (P, D, st) (P, D, st')"
| cs_transfer: "\<lbrakk>few P; s < PROC_MAX; d < PROC_MAX; p_state (proc_table st d) \<noteq> PROC_STATE_FREE; next_grant_epoch st \<noteq> -1;
    cap_transfer_locked s d token rights st = (rt, st')\<rbrakk> \<Longrightarrow> cap_step (P, D, st) (P, D, st')"
| cs_revoke_done: "\<lbrakk>few D; s < PROC_MAX; revoke_begin s token st = (Revoked ru, st')\<rbrakk> \<Longrightarrow> cap_step (P, D, st) (P, D, st')"
| cs_revoke_begin: "\<lbrakk>few D; s < PROC_MAX; revoke_begin s token st = (Scan k rec, st')\<rbrakk> \<Longrightarrow>
    cap_step (P, D, st) (P, pins_add D (of_nat k) 1, st')"
| cs_revoke_target: "\<lbrakk>q < PROC_MAX; dr_dst_type rec = CAP_TYPE_FD; revoke_target rec (q, g) (0, st) = (n, st')\<rbrakk> \<Longrightarrow>
    cap_step (P, D, st) (pins_add P (dr_dst_object_index rec) (unat n), D, st')"
| cs_revoke_end: "\<lbrakk>s < PROC_MAX; dr_dst_type rec = CAP_TYPE_FD\<rbrakk> \<Longrightarrow>
    cap_step (pins_add P (dr_dst_object_index rec) k, pins_add D (of_nat r) 1, st)
      (P, D, revoke_end s token r rec (of_nat k) st)"

definition cap_ok :: "'z cap_config \<Rightarrow> bool" where
  "cap_ok c \<longleftrightarrow> (case c of (P, D, st) \<Rightarrow> rc_ok P D st \<and> deleg_ok st)"

lemma deleg_records: "deleg_ok st \<Longrightarrow> records_ok st"
  by (simp add: deleg_ok_def)

lemma revoke_target_rc:
  assumes "rc_ok P D st" "q < PROC_MAX" "dr_dst_type rec = CAP_TYPE_FD" "revoke_target rec (q, g) (0, st) = (n, st')"
  shows "rc_ok (pins_add P (dr_dst_object_index rec) (unat n)) D st'"
proof -
  from revoke_targets_rc [OF assms(1) _ assms(3) refl, of "[(q, g)]" 0 n st'] assms(2,4)
  obtain k where k: "n = of_nat k" "rc_ok (pins_add P (dr_dst_object_index rec) k) D st'" by auto
  have "k < 2 ^ 32" using rc_ok_pins_bound [OF k(2), of "dr_dst_object_index rec"] by simp
  then have "unat n = k" using k(1) by (simp add: unat_of_nat take_bit_nat_eq_self)
  with k(2) show ?thesis by simp
qed

lemma cap_step_ok: "cap_step c c' \<Longrightarrow> cap_ok c \<Longrightarrow> cap_ok c'"
proof (induction rule: cap_step.induct)
  case (cs_open_vfs p f rights sk fl hint exact st r st' P D)
  then show ?case using rc_ok_open(1) deleg_ok_calm calm_open(1) by (fastforce simp: cap_ok_def)
next
  case (cs_open_pipe p pipe re rights hint exact st r st' P D)
  then show ?case using rc_ok_open(2) deleg_ok_calm calm_open(2) by (fastforce simp: cap_ok_def)
next
  case (cs_open_console p cid rights hint exact st r st' P D)
  then show ?case using rc_ok_open(3) deleg_ok_calm calm_open(3) by (fastforce simp: cap_ok_def)
next
  case (cs_close p fd st ru st' P D)
  then show ?case using rc_ok_close(1) deleg_ok_calm calm_close(1) by (fastforce simp: cap_ok_def)
next
  case (cs_drop_token p token st ru st' P D)
  then show ?case using rc_ok_close(2) deleg_ok_calm calm_close(2) by (fastforce simp: cap_ok_def)
next
  case (cs_open_handle p ty x rights hint exact st r st' P D)
  then show ?case using rc_ok_open_handle deleg_ok_calm calm_open_handle by (fastforce simp: cap_ok_def)
next
  case (cs_lookup_fd P p fd rights st ref st' D)
  then have "deleg_ok st'" using deleg_ok_calm calm_lookup(1) by (fastforce simp: cap_ok_def)
  moreover have "rc_ok (if cr_type ref = CAP_TYPE_FD then pins_add P (cr_object_index ref) 1 else P) D st'"
    using rc_ok_lookup_fd [of P D st "Some p" fd rights ref st'] cs_lookup_fd by (auto simp: cap_ok_def pins_add_def zero_ref_def)
  ultimately show ?case by (simp add: cap_ok_def)
next
  case (cs_lookup_timer p h rights st ref st' P D)
  then show ?case using rc_ok_lookup_timer deleg_ok_calm calm_lookup(2) by (fastforce simp: cap_ok_def)
next
  case (cs_lookup_object p h rights ty st ref st' P D)
  then show ?case using rc_ok_lookup_object deleg_ok_calm calm_lookup_object by (fastforce simp: cap_ok_def)
next
  case (cs_put_ref ref st ref' st' P D)
  let ?x = "cr_object_index ref"
  have "(pins_add P ?x 1)(?x := pins_add P ?x 1 ?x - 1) = P" by (simp add: pins_add_def fun_eq_iff)
  then have "rc_ok P D st'"
    using rc_ok_put_ref [of "pins_add P ?x 1" D st ref ref' st'] cs_put_ref by (simp add: cap_ok_def)
  then show ?case using cs_put_ref deleg_ok_calm [OF _ calm_put_ref] by (auto simp: cap_ok_def)
next
  case (cs_put_ref_other ref st ref' st' P D)
  then show ?case using rc_ok_put_ref [of P D st ref ref' st'] deleg_ok_calm [OF _ calm_put_ref] by (auto simp: cap_ok_def)
next
  case (cs_dup P p old new exact st r st' D)
  then show ?case using rc_ok_dup deleg_ok_dup by (fastforce simp: cap_ok_def)
next
  case (cs_inherit P s d sfd dfd st r st' D)
  then show ?case using rc_ok_inherit deleg_ok_inherit by (fastforce simp: cap_ok_def)
next
  case (cs_transfer P s d st token rights rt st' D)
  then show ?case using rc_ok_transfer deleg_ok_transfer by (fastforce simp: cap_ok_def)
next
  case (cs_revoke_done D s token st ru st' P)
  then show ?case using revoke_begin_Revoked deleg_ok_calm calm_revoke_begin by (fastforce simp: cap_ok_def)
next
  case (cs_revoke_begin D s token st k rec st' P)
  then show ?case
    using revoke_begin_Scan(1) [of P D st s token k rec st'] deleg_ok_calm [OF _ calm_revoke_begin] deleg_records [of st]
    by (auto simp: cap_ok_def)
next
  case (cs_revoke_target q rec g st n st' P D)
  then show ?case using revoke_target_rc deleg_ok_calm calm_revoke_target by (fastforce simp: cap_ok_def)
next
  case (cs_revoke_end s rec P k D r st token)
  then show ?case using revoke_end_rc deleg_ok_calm [OF _ calm_revoke_end] by (auto simp: cap_ok_def)
qed

lemma cap_steps_ok: "cap_step\<^sup>*\<^sup>* c c' \<Longrightarrow> cap_ok c \<Longrightarrow> cap_ok c'"
  by (induction rule: rtranclp_induct) (auto intro: cap_step_ok)

section \<open>Teardown\<close>

text \<open>Revocation of any token ends, whatever the record says.\<close>

lemma revoke_total:
  assumes "rc_ok P D st" "few D" "deleg_ok st" "src < PROC_MAX" "2 \<le> fuel"
  obtains r st' where "cap_revoke_delegate fuel (Some src) token st = Some (r, st')" "rc_ok P D st'" "deleg_ok st'"
proof -
  obtain e s1 where b: "revoke_begin src token st = (e, s1)" by (rule prod.exhaust)
  have "\<exists>r st'. cap_revoke_delegate fuel (Some src) token st = Some (r, st') \<and> calm st st'"
  proof (cases e)
    case (Revoked r)
    with b show ?thesis using calm_revoke_begin [OF b] by (auto simp: cap_revoke_delegate_def)
  next
    case (Scan k rec)
    obtain d where d: "d < PROC_MAX" "dr_dst_proc rec = Some d"
      using revoke_begin_Scan(6) [OF assms(1,2) deleg_records [OF assms(3)] b [unfolded Scan]] by blast
    obtain n s2 where l: "revoke_loop fuel rec d 0 s1 = Some (n, s2)"
      and in2: "revoked_in s1 s2 rec (fst ` set (proc_collect_descendants_locked (proc_table s1) (Some d)
        (dr_dst_generation rec) PROC_MAX) \<times> {..<CAP_SPACE_SLOTS})"
      by (rule revoke_loop_two [OF d(1) assms(5)])
    have "calm st (revoke_end src token k rec n s2)"
      using calm_trans [OF calm_trans [OF calm_revoke_begin [OF b] calm_revoked_in [OF in2]] calm_revoke_end] .
    then show ?thesis using b Scan d l by (simp add: cap_revoke_delegate_def)
  qed
  then obtain r st' where res: "cap_revoke_delegate fuel (Some src) token st = Some (r, st')" "calm st st'" by blast
  show thesis
    by (rule that [OF res(1) rc_ok_revoke [OF assms(1,2) deleg_records [OF assms(3)] assms(4) res(1)] deleg_ok_calm [OF assms(3) res(2)]])
qed

lemma teardown_revokes:
  assumes "rc_ok P D st" "few D" "deleg_ok st" "p < PROC_MAX"
  shows "\<exists>st'. fold (\<lambda>i r. Option.bind r (teardown_revoke p i)) is (Some st) = Some st' \<and> rc_ok P D st' \<and> deleg_ok st'"
  using assms(1,3)
proof (induction "is" arbitrary: st)
  case (Cons i "is")
  have "\<exists>s1. teardown_revoke p i st = Some s1 \<and> rc_ok P D s1 \<and> deleg_ok s1"
  proof (cases "let slot = cap_slot_read (Some p) (int i) st in \<not> sv_valid slot \<or> sv_type slot \<noteq> CAP_TYPE_DELEGATE")
    case True
    with Cons.prems show ?thesis by (simp add: teardown_revoke_def Let_def)
  next
    case False
    from revoke_total [OF Cons.prems(1) assms(2) Cons.prems(2) assms(4), of 2
        "cap_make_handle (Some (cap_slot_read (Some p) (int i) st))"]
    obtain r s1 where "cap_revoke_delegate 2 (Some p) (cap_make_handle (Some (cap_slot_read (Some p) (int i) st))) st =
        Some (r, s1)" "rc_ok P D s1" "deleg_ok s1" by auto
    with False show ?thesis by (simp add: teardown_revoke_def Let_def)
  qed
  then obtain s1 where "teardown_revoke p i st = Some s1" "rc_ok P D s1" "deleg_ok s1" by blast
  with Cons.IH [of s1] show ?case by simp
qed auto

lemma teardown_drop_slots:
  assumes "i < CAP_SPACE_SLOTS"
  shows "slot_at (teardown_drop p i st) q j =
    (if q = p \<and> j = i \<and> sv_valid (slot_at st p i) then slot_at (cap_slot_invalidate p i st) q j else slot_at st q j)"
proof (cases "sv_valid (slot_at st p i)")
  case True
  obtain r s1 where d: "cap_drop_slot_locked p (slot_at st p i) st = (r, s1)" by (rule prod.exhaust)
  show ?thesis using drop_slot_at [OF assms True d] True d by (simp add: teardown_drop_def slot_at_upd)
qed (simp add: teardown_drop_def)

lemma teardown_drops:
  assumes "p < PROC_MAX" "rc_ok P D st" "deleg_ok st" "set is \<subseteq> {..<CAP_SPACE_SLOTS}"
  defines "st' \<equiv> fold (teardown_drop p) is st"
  shows "rc_ok P D st' \<and> deleg_ok st' \<and> (\<forall>j. j \<in> set is \<or> \<not> sv_valid (slot_at st p j) \<longrightarrow> \<not> sv_valid (slot_at st' p j)) \<and>
    (\<forall>q j. q \<noteq> p \<longrightarrow> slot_at st' q j = slot_at st q j)"
  using assms(2-4) unfolding st'_def
proof (induction "is" arbitrary: st)
  case (Cons i "is")
  let ?s1 = "teardown_drop p i st"
  have i: "i < CAP_SPACE_SLOTS" using Cons.prems by simp
  have s1: "rc_ok P D ?s1" "deleg_ok ?s1"
    using Cons.prems rc_ok_drop_snd [OF Cons.prems(1) assms(1) i] deleg_ok_calm [OF Cons.prems(2) calm_drop]
    by (simp_all add: teardown_drop_def Let_def)
  have v: "\<not> sv_valid (slot_at ?s1 p i)" "\<And>j. \<not> sv_valid (slot_at st p j) \<Longrightarrow> \<not> sv_valid (slot_at ?s1 p j)"
    "\<And>q j. q \<noteq> p \<Longrightarrow> slot_at ?s1 q j = slot_at st q j"
    by (auto simp: teardown_drop_slots [OF i] slot_at_upd)
  from Cons.IH [OF s1] Cons.prems(3) v show ?case by auto
qed simp

lemma teardown_ok:
  assumes "rc_ok P D st" "few D" "deleg_ok st" "p < PROC_MAX"
  obtains st' where "cap_space_teardown p st = Some st'" "rc_ok P D st'" "deleg_ok st'"
    "\<And>j. j < CAP_SPACE_SLOTS \<Longrightarrow> \<not> sv_valid (slot_at st' p j)"
proof -
  obtain s1 where s1: "fold (\<lambda>i r. Option.bind r (teardown_revoke p i)) [0..<CAP_SPACE_SLOTS] (Some st) = Some s1"
    "rc_ok P D s1" "deleg_ok s1" using teardown_revokes [OF assms] by blast
  have "set [0..<CAP_SPACE_SLOTS] \<subseteq> {..<CAP_SPACE_SLOTS}" by (simp add: subset_iff)
  from teardown_drops [OF assms(4) s1(2,3) this] s1(1) that show thesis
    by (simp add: cap_space_teardown_def)
qed

section \<open>Tokens\<close>

lemma slot_at_view_ok [simp]: "view_ok (slot_at st p i)"
  by (simp add: slot_at_def)

lemma slot_index_ucast: "i < CAP_SPACE_SLOTS \<Longrightarrow> unat (ucast (sv_slot_index (slot_at st p i)) :: u32) = i"
  using slot_index_at [of i st p] by (simp add: unat_ucast_up)

lemma validate_iff:
  "cap_validate_token_locked p token st = Some slot \<longleftrightarrow>
     (\<exists>i. i < CAP_SPACE_SLOTS \<and> slot = slot_at st p i \<and> sv_valid slot \<and> token AND mask 48 = cap_make_handle (Some slot))"
proof
  assume v: "cap_validate_token_locked p token st = Some slot"
  let ?i = "unat (token_slot token)"
  have i: "?i < CAP_SPACE_SLOTS" "slot = slot_at st p ?i" "sv_valid slot" "token_generation token = sv_generation slot"
    "token_type token = sv_type slot" "token_rights token = sv_rights slot"
    using v by (auto simp: cap_validate_token_locked_def Let_def split: if_splits)
  have ts: "token_slot token = ucast (sv_slot_index slot)"
    using slot_index_ucast [OF i(1), of st p] unfolding i(2) by (simp add: word_unat_eq_iff)
  have "view_ok slot" unfolding i(2) by simp
  from token_matches_iff [OF this i(3), of token] i(4-6) ts have "token AND mask 48 = cap_make_handle (Some slot)" by blast
  with i(1-3) show "\<exists>i. i < CAP_SPACE_SLOTS \<and> slot = slot_at st p i \<and> sv_valid slot \<and> token AND mask 48 = cap_make_handle (Some slot)"
    by blast
next
  assume "\<exists>i. i < CAP_SPACE_SLOTS \<and> slot = slot_at st p i \<and> sv_valid slot \<and> token AND mask 48 = cap_make_handle (Some slot)"
  then obtain i where i: "i < CAP_SPACE_SLOTS" "slot = slot_at st p i" "sv_valid slot" "token AND mask 48 = cap_make_handle (Some slot)"
    by blast
  then have f: "token_generation token = sv_generation slot" "token_type token = sv_type slot"
      "token_rights token = sv_rights slot" "token_slot token = ucast (sv_slot_index slot)"
    using token_matches_iff [of slot token] by simp_all
  have "unat (token_slot token) = i" unfolding f(4) i(2) by (rule slot_index_ucast [OF i(1)])
  then show "cap_validate_token_locked p token st = Some slot"
    using f i by (simp add: cap_validate_token_locked_def Let_def)
qed

lemma handle_valid:
  assumes "i < CAP_SPACE_SLOTS" "sv_valid (slot_at st p i)"
  shows "cap_validate_token_locked p (cap_make_handle (Some (slot_at st p i))) st = Some (slot_at st p i)"
proof -
  note f = token_fields_of_handle [OF slot_at_view_ok assms(2)]
  have "unat (token_slot (cap_make_handle (Some (slot_at st p i)))) = i" unfolding f(4) by (rule slot_index_ucast [OF assms(1)])
  then show ?thesis using f(1-3) assms by (simp add: cap_validate_token_locked_def Let_def)
qed

text \<open>
  The history of one slot. Every operation of the layer changes a slot by these two events: it publishes with the generation
  it has just read from the slot, or it invalidates.
\<close>

datatype slot_event = Publish u16 u8 u8 u16 | Invalidate

fun slot_run :: "nat \<Rightarrow> nat \<Rightarrow> slot_event list \<Rightarrow> 'z timer_state_scheme \<Rightarrow> 'z timer_state_scheme" where
  "slot_run p i [] st = st"
| "slot_run p i (Publish x ty rights meta # evs) st =
     slot_run p i evs (cap_slot_publish p i x ty rights meta (sv_generation (slot_at st p i)) st)"
| "slot_run p i (Invalidate # evs) st = slot_run p i evs (cap_slot_invalidate p i st)"

lemma slot_run_generation:
  "sv_generation (slot_at (slot_run p i evs st) p i) =
     sv_generation (slot_at st p i) + of_nat (length (filter (\<lambda>e. e = Invalidate) evs))"
  by (induction p i evs st rule: slot_run.induct) (simp_all add: slot_at_upd add.assoc)

section \<open>Transfers\<close>

text \<open>What a successful transfer has checked and done.\<close>

lemma transfer_success:
  assumes "deleg_ok st" "next_grant_epoch st \<noteq> -1" "dst < PROC_MAX" "src \<noteq> dst"
    and "cap_transfer_locked src dst token rights st = (Inr h, st')"
  obtains slot fd s1 i where "cap_validate_token_locked src token st = Some slot" "sv_type slot = CAP_TYPE_FD"
    "sv_rights slot AND CAP_RIGHT_GRANT \<noteq> 0" "rights AND sv_rights slot = rights"
    "cap_mint_fd_locked dst (sv_object_index slot) (rights AND NOT CAP_RIGHT_GRANT) (sv_type_meta slot) (-1) False True st = (Inr fd, s1)"
    "\<forall>q j. slot_at st' q j = (if q = src \<and> j = i then slot_at st' src i else slot_at s1 q j)"
    "\<forall>q j. cap_slot_delegate_epoch st' q j = (if q = src \<and> j = i then 0 else if q = dst \<and> j = fd then next_grant_epoch st
        else cap_slot_delegate_epoch s1 q j)"
    "sv_valid (slot_at st' src i)" "sv_type (slot_at st' src i) = CAP_TYPE_DELEGATE" "h = cap_make_handle (Some (slot_at st' src i))"
proof -
  obtain slot fd s1 where v: "cap_validate_token_locked src token st = Some slot" "sv_type slot = CAP_TYPE_FD"
    "sv_rights slot AND CAP_RIGHT_GRANT \<noteq> 0" "rights AND sv_rights slot = rights"
    and m: "cap_mint_fd_locked dst (sv_object_index slot) (rights AND NOT CAP_RIGHT_GRANT) (sv_type_meta slot) (-1) False True st = (Inr fd, s1)"
    and g: "cap_transfer_grant src dst slot fd s1 = (Inr h, st')"
    using assms(5) by (auto simp: cap_transfer_locked_def Let_def split: option.splits if_splits prod.splits sum.splits)
  have c: "calm st s1" by (rule calm_mint [OF m])
  then have n: "next_grant_epoch s1 = next_grant_epoch st" by (simp add: calm_def undelegated_def)
  obtain a s2 where al: "delegate_record_alloc (Some dst) (sv_object_index slot) CAP_TYPE_FD s1 = (a, s2)" by (rule prod.exhaust)
  then obtain k where k: "a = Inr k" using g v(2) by (cases a) (auto simp: cap_transfer_grant_def Let_def)
  note A = deleg_ok_alloc [OF deleg_ok_calm [OF assms(1) c] _ assms(3) al [unfolded k]]
  obtain i where i: "st' = cap_slot_publish src i (of_nat k) CAP_TYPE_DELEGATE CAP_RIGHT_READ 0 (sv_generation (slot_at s2 src i))
      (cap_slot_set_delegate_epoch dst fd (next_grant_epoch st) s2)" "h = cap_make_handle (Some (slot_at st' src i))"
    using g v(2) al k A(4) n assms(2) by (auto simp: cap_transfer_grant_def Let_def split: sum.splits)
  have pt: "slot_at s2 q j = slot_at s1 q j" "cap_slot_delegate_epoch s2 q j = cap_slot_delegate_epoch s1 q j" for q j
    using A(3) n assms(2) by (simp_all add: slot_at_def cap_slot_delegate_epoch_def)
  show thesis
    by (rule that [OF v m _ _ _ _ i(2)]) (use assms(4) in \<open>auto simp: i(1) slot_at_upd epoch_upd pt\<close>)
qed

text \<open>The view read from a slot word has a twelve-bit object index, so copying it keeps the object.\<close>

lemma slot_object_mask: "sv_object_index (slot_at st p i) AND 0xFFF = sv_object_index (slot_at st p i)"
  unfolding mask_lits by (rule word_bits_eqI) (auto simp: bit_andmask slot_at_def bit_cap_unpack_slot)

lemma find_free_cong:
  "(\<And>i. slot_at st' p i = slot_at st p i) \<Longrightarrow> cap_find_free_slot_locked p a st' = cap_find_free_slot_locked p a st"
  by (simp add: cap_find_free_slot_locked_def)

lemma mint_free:
  assumes "fd_live st x" "cap_find_free_slot_locked p False st = Some fd"
  shows "cap_mint_fd_locked p x rights meta (-1) False True st = (Inr fd, cap_slot_publish p fd x CAP_TYPE_FD rights meta
    (sv_generation (slot_at st p fd)) (upd_fd (unat x) (\<lambda>e. e\<lparr>fe_refcount := fe_refcount e + 1\<rparr>) st))"
proof -
  have "cap_find_free_slot_locked p False (upd_fd k f st) = Some fd" for k f
    using assms(2) find_free_cong [of "upd_fd k f st" p st] by (simp add: slot_at_def)
  with assms(1) show ?thesis
    by (simp add: cap_mint_fd_locked_def fd_live_def fd_pool_entry_of_def cap_mint_fd_slot_def cap_reserve_slot_locked_def
        slot_at_def)
qed

text \<open>What a transfer needs to succeed. The target's state is not part of it.\<close>

lemma transfer_forward:
  assumes "cap_validate_token_locked src token st = Some slot" "sv_type slot = CAP_TYPE_FD"
    "sv_rights slot AND CAP_RIGHT_GRANT \<noteq> 0" "rights AND sv_rights slot = rights" "fd_live st (sv_object_index slot)"
    "cap_find_free_slot_locked dst False st = Some fd" "cap_find_free_slot_locked src False st = Some i" "src \<noteq> dst"
    "first_index (\<lambda>k. \<not> dr_in_use (delegate_pool st k)) 0 CAP_DELEGATE_RECORD_MAX = Some r"
  shows "\<exists>h st'. cap_transfer_locked src dst token rights st = (Inr h, st') \<and> sv_valid (slot_at st' dst fd) \<and>
    sv_type (slot_at st' dst fd) = CAP_TYPE_FD \<and> sv_object_index (slot_at st' dst fd) = sv_object_index slot \<and>
    skel st' = skel st"
proof -
  let ?x = "sv_object_index slot"
  obtain j where j: "slot = slot_at st src j" using validate_token [OF assms(1)] by metis
  define s1 where "s1 = cap_slot_publish dst fd ?x CAP_TYPE_FD (rights AND NOT CAP_RIGHT_GRANT) (sv_type_meta slot)
    (sv_generation (slot_at st dst fd)) (upd_fd (unat ?x) (\<lambda>e. e\<lparr>fe_refcount := fe_refcount e + 1\<rparr>) st)"
  have m: "cap_mint_fd_locked dst ?x (rights AND NOT CAP_RIGHT_GRANT) (sv_type_meta slot) (-1) False True st = (Inr fd, s1)"
    unfolding s1_def by (rule mint_free [OF assms(5,6)])
  have s1: "slot_at s1 src k = slot_at st src k" for k
    using assms(8) by (simp add: s1_def slot_at_upd) (simp add: slot_at_def)
  have dp: "delegate_pool s1 = delegate_pool st" by (simp add: s1_def)
  obtain a s2 where al: "delegate_record_alloc (Some dst) ?x CAP_TYPE_FD s1 = (a, s2)" by (rule prod.exhaust)
  then have a: "a = Inr r" "proc_table s2 = proc_table s1" using assms(9) dp by (auto simp: delegate_record_alloc_def)
  have "slot_at s2 src k = slot_at st src k" for k using slot_at_cong [OF a(2), of src k] s1 by simp
  then have "cap_find_free_slot_locked src False s2 = Some i" using find_free_cong [of s2 src st] assms(7) by simp
  then have g: "cap_reserve_slot_locked src (-1) False False s2 = Inr i" by (simp add: cap_reserve_slot_locked_def)
  have "slot_at s2 dst fd = slot_at s1 dst fd" using slot_at_cong [OF a(2)] by blast
  moreover have "skel s2 = skel st" using skel_cong [OF a(2)] skel_cong [of "upd_fd k f st" st for k f] by (simp add: s1_def)
  moreover have "slot_at s1 dst fd = \<lparr>sv_valid = True, sv_slot_index = of_nat fd, sv_object_index = ?x,
      sv_type = CAP_TYPE_FD, sv_rights = (rights AND NOT CAP_RIGHT_GRANT) AND 0xF, sv_type_meta = sv_type_meta slot AND 0x7FF,
      sv_generation = sv_generation (slot_at st dst fd)\<rparr>"
    using slot_object_mask [of st src j] j by (simp add: s1_def slot_at_upd)
  ultimately show ?thesis
    using assms(1-4,8) m al a(1) g
    by (simp add: cap_transfer_locked_def cap_transfer_grant_def Let_def slot_at_upd)
qed

lemma cap_lock_order_sym:
  assumes "x \<noteq> y \<Longrightarrow> p_pid (proc_table st x) \<noteq> p_pid (proc_table st y)"
  shows "cap_lock_order st (Some x) (Some y) = cap_lock_order st (Some y) (Some x)"
  using assms by (auto simp: cap_lock_order_def)

section \<open>An example run\<close>

definition idle_sync :: "unit sync_slot" where
  "idle_sync = \<lparr>ss_prim = (), ss_owner = None, ss_owner_gen = 0, ss_refcount = 0, ss_in_use = False\<rparr>"

definition cap_boot :: cap_state where
  "cap_boot = \<lparr>proc_table = two_procs, task_of = (\<lambda>_. idle_task), co_state = idle_callouts, cur_cpu = 0,
     timer_pool = (\<lambda>_. idle_timer), fd_pool = (\<lambda>_. zero_fd_entry), delegate_pool = (\<lambda>_. zero_delegate),
     next_grant_epoch = 1, mutex_pool = (\<lambda>_. idle_sync), condvar_pool = (\<lambda>_. idle_sync), sem_pool = (\<lambda>_. idle_sync),
     barrier_pool = (\<lambda>_. idle_sync), rwlock_pool = (\<lambda>_. idle_sync), mqueues = mq_boot, fd_closes = []\<rparr>"

abbreviation no_pins :: "u16 \<Rightarrow> nat" where
  "no_pins \<equiv> \<lambda>_. 0"

lemma zero_slot: "cap_unpack_slot 0 i = zero_view\<lparr>sv_slot_index := i\<rparr>"
  by (simp add: cap_unpack_slot_def zero_view_def)

lemma cap_boot_slots: "slot_at cap_boot p i = zero_view\<lparr>sv_slot_index := of_nat i\<rparr>" "cap_slot_delegate_epoch cap_boot p i = 0"
  by (simp_all add: slot_at_def cap_slot_delegate_epoch_def cap_boot_def two_procs_def free_proc_def zero_slot)

lemma cap_boot_ok: "cap_ok (no_pins, no_pins, cap_boot)"
proof -
  have "refs ty cap_boot x = {}" for ty x by (simp add: refs_def slot_ref_def cap_boot_slots zero_view_def)
  then have "rc_ok no_pins no_pins cap_boot"
    by (simp add: rc_ok_def fds_counted_def delegates_counted_def counted_def uses_def fd_live_def dr_live_def)
      (simp add: cap_boot_def zero_fd_entry_def zero_delegate_def)
  moreover have "deleg_ok cap_boot"
    by (simp add: deleg_ok_def records_ok_def cap_boot_slots) (simp add: cap_boot_def zero_delegate_def)
  ultimately show ?thesis by (simp add: cap_ok_def)
qed

text \<open>Process 0 opens its console on descriptor 0, with the rights to read and to grant.\<close>

definition cap_one :: cap_state where
  "cap_one = snd (cap_open_console 0 0 9 0 True cap_boot)"

lemma first_index_0: "P 0 \<Longrightarrow> 0 < n \<Longrightarrow> first_index P 0 n = Some 0"
  by (subst first_index.simps) simp

lemma slot_at_fd: "slot_at (upd_fd k f st) p i = slot_at st p i" "slot_at (upd_delegate k g st) p i = slot_at st p i"
  by (simp_all add: slot_at_def)

lemma epoch_fd: "cap_slot_delegate_epoch (upd_fd k f st) p i = cap_slot_delegate_epoch st p i"
  by (simp add: cap_slot_delegate_epoch_def)

lemma cap_one_eq:
  "cap_one = cap_slot_publish 0 0 0 CAP_TYPE_FD 9 0 0 (upd_fd 0 (\<lambda>_. zero_fd_entry\<lparr>fe_in_use := True, fe_refcount := 1\<rparr>) cap_boot)"
  "fst (cap_open_console 0 0 9 0 True cap_boot) = Inr 0"
proof -
  have f: "first_index (\<lambda>i. \<not> fe_in_use (fd_pool cap_boot i)) 0 CAP_FD_POOL_MAX = Some 0"
    by (rule first_index_0) (simp_all add: cap_boot_def zero_fd_entry_def)
  have al: "cap_fd_pool_alloc CAP_FD_KIND_CONSOLE cap_boot = (Inr 0, upd_fd 0 (\<lambda>_. zero_fd_entry
      \<lparr>fe_in_use := True, fe_kind := CAP_FD_KIND_CONSOLE, fe_refcount := 1\<rparr>) cap_boot)"
    using f by (simp add: cap_fd_pool_alloc_def)
  have "cap_open_console 0 0 9 0 True cap_boot = (Inr 0, cap_slot_publish 0 0 0 CAP_TYPE_FD 9 0 0
      (upd_fd 0 (\<lambda>_. zero_fd_entry\<lparr>fe_in_use := True, fe_refcount := 1\<rparr>) cap_boot))"
    by (simp add: cap_open_console_def al cap_open_new_def Let_def cap_mint_fd_locked_def cap_mint_fd_slot_def
        slot_at_fd cap_boot_slots cap_reserve_slot_locked_def cap_slot_is_thread_reserved_def zero_view_def)
      (simp add: upd_fd_def zero_fd_entry_def)
  then show "cap_one = cap_slot_publish 0 0 0 CAP_TYPE_FD 9 0 0
      (upd_fd 0 (\<lambda>_. zero_fd_entry\<lparr>fe_in_use := True, fe_refcount := 1\<rparr>) cap_boot)"
    "fst (cap_open_console 0 0 9 0 True cap_boot) = Inr 0"
    by (simp_all add: cap_one_def)
qed

text \<open>Process 0 then delegates the descriptor to its child, process 3, which may read.\<close>

abbreviation token_one :: u64 where
  "token_one \<equiv> cap_make_handle (Some (slot_at cap_one 0 0))"

lemma cap_one_slots:
  "slot_at cap_one p i = (if p = 0 \<and> i = 0 then \<lparr>sv_valid = True, sv_slot_index = 0, sv_object_index = 0, sv_type = CAP_TYPE_FD,
     sv_rights = 9, sv_type_meta = 0, sv_generation = 0\<rparr> else zero_view\<lparr>sv_slot_index := of_nat i\<rparr>)"
  "cap_slot_delegate_epoch cap_one p i = 0"
  unfolding cap_one_eq by (auto simp: slot_at_upd epoch_upd slot_at_fd epoch_fd cap_boot_slots)

lemma cap_one_steps: "cap_step\<^sup>*\<^sup>* (no_pins, no_pins, cap_boot) (no_pins, no_pins, cap_one)"
  by (rule r_into_rtranclp, rule cs_open_console [where p = 0 and cid = 0 and rights = 9 and hint = 0 and exact = True])
    (auto simp: cap_one_def cap_one_eq(2) prod_eq_iff)

lemma cap_one_valid: "cap_validate_token_locked 0 token_one cap_one = Some (slot_at cap_one 0 0)"
  by (rule handle_valid) (simp_all add: cap_one_slots)

definition cap_two :: cap_state where
  "cap_two = snd (cap_transfer_locked 0 3 token_one 1 cap_one)"

lemma cap_one_free:
  "cap_find_free_slot_locked 0 False cap_one = Some 1" "cap_find_free_slot_locked 3 False cap_one = Some 0"
  unfolding cap_find_free_slot_locked_def
  by (simp_all add: first_index.simps cap_one_slots cap_slot_is_thread_reserved_def zero_view_def)

abbreviation cap_two_child :: cap_state where
  "cap_two_child \<equiv> cap_slot_publish 3 0 0 CAP_TYPE_FD 1 0 0 (upd_fd 0 (\<lambda>e. e\<lparr>fe_refcount := fe_refcount e + 1\<rparr>) cap_one)"

lemma cap_one_pools:
  "proc_table cap_one 3 = (two_procs 3)" "delegate_pool cap_one = (\<lambda>_. zero_delegate)" "next_grant_epoch cap_one = 1"
  "fd_live cap_one 0" "fe_refcount (fd_pool cap_one 0) = 1" "fd_closes cap_one = []"
  unfolding cap_one_eq
  by (simp_all add: fd_live_def cap_slot_publish_def upd_proc_def Let_def) (simp_all add: cap_boot_def upd_fd_def)

lemma cap_two_mint: "cap_mint_fd_locked 3 0 1 0 (-1) False True cap_one = (Inr 0, cap_two_child)"
  using mint_free [OF cap_one_pools(4) cap_one_free(2), of 1 0] by (simp add: cap_one_slots zero_view_def)

lemma cap_two_free: "cap_find_free_slot_locked 0 False cap_two_child = Some 1"
  using cap_one_free(1) find_free_cong [of cap_two_child 0 cap_one] by (simp add: slot_at_upd slot_at_fd)

definition record_two :: delegate_record where
  "record_two = \<lparr>dr_in_use = True, dr_dst_proc = Some 3, dr_dst_generation = p_generation (two_procs 3),
     dr_dst_object_index = 0, dr_dst_type = CAP_TYPE_FD, dr_grant_epoch = 1, dr_refcount = 1\<rparr>"

lemma cap_two_alloc: "delegate_record_alloc (Some 3) 0 CAP_TYPE_FD cap_two_child =
    (Inr 0, (upd_delegate 0 (\<lambda>_. record_two) cap_two_child)\<lparr>next_grant_epoch := 2\<rparr>)"
proof -
  have "first_index (\<lambda>i. \<not> dr_in_use (delegate_pool cap_two_child i)) 0 CAP_DELEGATE_RECORD_MAX = Some 0"
    by (rule first_index_0) (simp_all add: cap_one_pools zero_delegate_def)
  then show ?thesis
    by (simp add: delegate_record_alloc_def cap_one_pools upd_delegate_def record_two_def zero_delegate_def cap_slot_publish_def
        upd_proc_def Let_def)
qed

lemma cap_two_eq:
  "cap_two = cap_slot_publish 0 1 0 CAP_TYPE_DELEGATE 1 0 0 (cap_slot_set_delegate_epoch 3 0 1
     ((upd_delegate 0 (\<lambda>_. record_two) cap_two_child)\<lparr>next_grant_epoch := 2\<rparr>))" (is "_ = ?two")
  "cap_transfer_locked 0 3 token_one 1 cap_one = (Inr (cap_make_handle (Some (slot_at cap_two 0 1))), cap_two)"
proof -
  let ?s2 = "(upd_delegate 0 (\<lambda>_. record_two) cap_two_child)\<lparr>next_grant_epoch := 2\<rparr>"
  have s2: "slot_at ?s2 q j = slot_at cap_two_child q j" for q j by (simp add: slot_at_def)
  have r: "cap_reserve_slot_locked 0 (-1) False False ?s2 = Inr 1"
    using cap_two_free find_free_cong [of ?s2 0 cap_two_child, OF s2] by (simp add: cap_reserve_slot_locked_def)
  have g: "sv_generation (slot_at ?s2 0 1) = 0" by (simp add: s2 slot_at_upd slot_at_fd cap_one_slots zero_view_def)
  have e: "dr_grant_epoch (delegate_pool ?s2 0) = 1" by (simp add: upd_delegate_def record_two_def)
  have "cap_transfer_grant 0 3 (slot_at cap_one 0 0) 0 cap_two_child = (Inr (cap_make_handle (Some (slot_at ?two 0 1))), ?two)"
    using r g e cap_two_alloc by (simp add: cap_transfer_grant_def Let_def cap_one_slots(1) del: One_nat_def)
  then have t: "cap_transfer_locked 0 3 token_one 1 cap_one = (Inr (cap_make_handle (Some (slot_at ?two 0 1))), ?two)"
    using cap_two_mint cap_one_valid by (simp add: cap_transfer_locked_def cap_one_slots(1))
  then show a: "cap_two = ?two" by (simp add: cap_two_def)
  then show "cap_transfer_locked 0 3 token_one 1 cap_one = (Inr (cap_make_handle (Some (slot_at cap_two 0 1))), cap_two)"
    using t by simp
qed

end
