(* ===== verification/Cap_Correct.thy ===== *)
theory Cap_Correct
  imports Capability
begin

text \<open>
  The correctness properties of the capability layer: tokens, reference counts, delegation, revocation and teardown.
\<close>

section \<open>Tokens\<close>

text \<open>
  C15: A token is accepted exactly when its low 48 bits are the handle of a valid slot of the caller's space whose type is the
  expected one and which has every required right, and the lookup returns that slot.
\<close>

theorem cap_token_exact:
  "cap_lookup_token (Some p) token rights ty st = Some slot \<longleftrightarrow>
     (\<exists>i. i < CAP_SPACE_SLOTS \<and> slot = slot_at st p i \<and> slot_grants slot rights ty \<and>
        token AND mask 48 = cap_make_handle (Some slot))"
  by (auto simp: cap_lookup_token_def slot_grants_def validate_iff split: option.splits if_splits)
    (metis option.distinct(1) option.inject validate_iff)+



section \<open>Reference counts\<close>



text \<open>A description with a slot is in use.\<close>

lemma cap_refs_live:
  assumes "cap_ok (P, D, st)" "y \<in> refs CAP_TYPE_FD st x"
  shows "fd_live st x" "unat (fd_count st x) = uses CAP_TYPE_FD st P x"
proof -
  have n: "counted (fd_live st) (fd_count st) (uses CAP_TYPE_FD st P)"
    using assms(1) by (simp add: cap_ok_def rc_ok_def fds_counted_def)
  have "0 < uses CAP_TYPE_FD st P x" using assms(2) by (auto simp: uses_def card_gt_0_iff)
  with n show "fd_live st x" "unat (fd_count st x) = uses CAP_TYPE_FD st P x" unfolding counted_def by (metis less_irrefl)+
qed

lemma fd_close_refcount: "fd_close_of (e\<lparr>fe_refcount := n\<rparr>) = fd_close_of e"
  by (simp add: fd_close_of_def split: cap_fd_kind.split option.split)

lemma fd_closes_invalidate: "fd_closes (cap_slot_invalidate p i st) = fd_closes st"
  by (simp add: cap_slot_invalidate_def upd_proc_def Let_def)

text \<open>
  C13: Closing a descriptor closes the file, or the end of the pipe, behind it exactly when it was the last reference: the
  description is then freed and its close runs once; otherwise the description stays in use, with one reference
  less, and nothing is closed. In both cases the slot becomes invalid.
\<close>

theorem cap_close_disposes:
  assumes "cap_ok (P, D, st)" "p < PROC_MAX" "cap_close_fd (Some p) fd st = (Inr (), st')"
  shows "let x = sv_object_index (slot_at st p (nat fd)); e = fd_pool st (unat x) in
    \<not> sv_valid (slot_at st' p (nat fd)) \<and>
    (if uses CAP_TYPE_FD st P x = 1 then fd_closes st' = fd_close_of e @ fd_closes st \<and> \<not> fd_live st' x
     else fd_closes st' = fd_closes st \<and> fd_live st' x \<and> fd_count st' x = fd_count st x - 1)"
proof -
  let ?v = "slot_at st p (nat fd)" let ?x = "sv_object_index ?v" let ?s1 = "cap_slot_invalidate p (nat fd) st"
  have c: "nat fd < CAP_SPACE_SLOTS" "sv_valid ?v" "sv_type ?v = CAP_TYPE_FD" "cap_drop_slot_locked p ?v st = (Inr (), st')"
    using assms(3) by (auto simp: cap_close_fd_def Let_def split: if_splits)
  have d: "st' = fd_put ?x ?s1"
    using c(2-4) by (simp add: cap_drop_slot_locked_def slot_index_at [OF c(1)] cap_release_object_def Let_def)
  have "(p, nat fd) \<in> refs CAP_TYPE_FD st ?x" using c assms(2) by (simp add: refs_def slot_ref_def)
  note l = cap_refs_live [OF assms(1) this]
  have z: "fd_count st ?x - 1 = 0 \<longleftrightarrow> uses CAP_TYPE_FD st P ?x = 1"
    unfolding l(2) [symmetric] right_minus_eq by (simp add: word_unat_eq_iff [of _ 1])
  have "\<not> sv_valid (slot_at st' p (nat fd))" using drop_slot_at [OF c(1,2,4)] by (simp add: slot_at_upd)
  moreover have "if fd_count st ?x - 1 = 0 then fd_closes st' = fd_close_of (fd_pool st (unat ?x)) @ fd_closes st \<and> \<not> fd_live st' ?x
     else fd_closes st' = fd_closes st \<and> fd_live st' ?x \<and> fd_count st' ?x = fd_count st ?x - 1"
    using l(1) by (simp add: d fd_put_def fd_pool_entry_of_def fd_live_def fd_count_def cap_fd_dispose_def Let_def upd_fd_def
        zero_fd_entry_def fd_close_refcount fd_closes_invalidate)
  ultimately show ?thesis unfolding z Let_def by simp
qed

theorem cap_close_disposes_witness:
  "\<not> sv_valid (slot_at (snd (cap_close_fd (Some 0) 0 cap_one)) 0 0)"
proof -
  have c: "cap_close_fd (Some 0) 0 cap_one = (Inr (), snd (cap_close_fd (Some 0) 0 cap_one))"
    by (simp add: cap_close_fd_def Let_def cap_one_slots(1) cap_drop_slot_locked_def)
  from cap_close_disposes [OF cap_steps_ok [OF cap_one_steps cap_boot_ok] _ c] show ?thesis by (simp add: Let_def)
qed

section \<open>Delegation\<close>

text \<open>
  C7: Delegation has depth one: in every run a descriptor that came by delegation, or was copied from one by dup or inheritance,
  cannot be delegated again. The attempt fails and changes nothing.
\<close>

theorem cap_no_redelegation:
  assumes "cap_ok c" "cap_step\<^sup>*\<^sup>* c (P, D, st)" "cap_validate_token_locked s token st = Some slot"
    and "cap_slot_delegate_epoch st s (unat (sv_slot_index slot)) \<noteq> 0"
  shows "\<exists>e. cap_transfer (Some s) pid token rights st = (Inl e, st)"
proof -
  obtain i where i: "i < CAP_SPACE_SLOTS" "slot = slot_at st s i" "sv_valid slot" using assms(3) unfolding validate_iff by blast
  have "unat (sv_slot_index slot) = i" unfolding i(2) by (rule slot_index_at [OF i(1)])
  moreover have "deleg_ok st" using cap_steps_ok [OF assms(2,1)] by (simp add: cap_ok_def)
  ultimately have "sv_rights slot AND CAP_RIGHT_GRANT = 0" using assms(4) i unfolding deleg_ok_def by metis
  with assms(3) show ?thesis by (auto simp: cap_transfer_def cap_transfer_locked_def split: option.splits)
qed

lemma cap_two_slots:
  "slot_at cap_two 3 0 = \<lparr>sv_valid = True, sv_slot_index = 0, sv_object_index = 0, sv_type = CAP_TYPE_FD,
     sv_rights = 1, sv_type_meta = 0, sv_generation = 0\<rparr>"
  "slot_at cap_two 0 1 = \<lparr>sv_valid = True, sv_slot_index = 1, sv_object_index = 0, sv_type = CAP_TYPE_DELEGATE,
     sv_rights = 1, sv_type_meta = 0, sv_generation = 0\<rparr>"
  "cap_slot_delegate_epoch cap_two 3 0 = 1" "delegate_pool cap_two 0 = record_two" "next_grant_epoch cap_two = 2"
  "skel cap_two 3 = skel cap_one 3"
  unfolding cap_two_eq(1)
  by (simp_all add: slot_at_upd epoch_upd slot_at_fd del: One_nat_def)
    (simp_all add: slot_at_upd epoch_upd slot_at_fd upd_delegate_def skel_def cap_slot_publish_def upd_proc_def Let_def slot_at_def
      cap_slot_set_delegate_epoch_def)

lemma cap_two_steps: "cap_step\<^sup>*\<^sup>* (no_pins, no_pins, cap_boot) (no_pins, no_pins, cap_two)"
  by (rule rtranclp.rtrancl_into_rtrancl [OF cap_one_steps],
      rule cs_transfer [where s = 0 and d = 3 and token = token_one and rights = 1, OF _ _ _ _ _ cap_two_eq(2)])
    (simp_all add: few_def cap_one_pools two_procs_def)

theorem cap_no_redelegation_witness:
  "\<exists>e. cap_transfer (Some 3) 1 (cap_make_handle (Some (slot_at cap_two 3 0))) 1 cap_two = (Inl e, cap_two)"
  by (rule cap_no_redelegation [OF cap_boot_ok cap_two_steps handle_valid]) (simp_all add: cap_two_slots)

lemma slot_rights_mask: "sv_rights (slot_at st p i) AND 0xF = sv_rights (slot_at st p i)"
  unfolding mask_lits by (rule word_bits_eqI) (auto simp: bit_andmask slot_at_def bit_cap_unpack_slot)

lemma and_not_disjoint: "a AND b = 0 \<Longrightarrow> a AND NOT b = a" for a b :: "'w::len word"
proof (rule word_bits_eqI)
  fix n assume z: "a AND b = 0" and n: "n < LENGTH('w)"
  have "\<not> bit (a AND b) n" unfolding z by simp
  then show "bit (a AND NOT b) n = bit a n" using n by (auto simp: bit_and_iff bit_not_iff)
qed

text \<open>The rights of the child: those asked for, without the grant right, in four bits.\<close>

lemma child_rights:
  assumes "rights AND sv_rights (slot_at st p i) = rights" "rights AND CAP_RIGHT_GRANT = 0"
  shows "(rights AND NOT CAP_RIGHT_GRANT) AND 0xF = rights"
proof -
  have "rights AND 0xF = (rights AND sv_rights (slot_at st p i)) AND 0xF" using assms(1) by simp
  also have "\<dots> = rights AND sv_rights (slot_at st p i)" by (simp only: and.assoc slot_rights_mask)
  also have "\<dots> = rights" by (rule assms(1))
  finally show ?thesis using and_not_disjoint [OF assms(2)] by simp
qed

lemma mint_fresh:
  assumes "cap_mint_fd_locked p x rights meta hint False bump st = (Inr fd, st')"
  shows "\<not> sv_valid (slot_at st p fd)"
proof -
  obtain s0 where s0: "cap_mint_fd_slot p x rights meta hint False bump s0 = (Inr fd, st')" "proc_table s0 = proc_table st"
    using assms by (auto simp: cap_mint_fd_locked_def split: if_splits option.splits)
  then have "cap_reserve_slot_locked p hint False False s0 = Inr fd"
    by (auto simp: cap_mint_fd_slot_def Let_def split: sum.splits)
  then show ?thesis using reserve_slot(3) slot_at_cong [OF s0(2)] by metis
qed

text \<open>
  C6: A successful transfer attenuates: the caller's token names a valid descriptor with the right to grant, the rights asked
  for are among its rights, and the target gets a descriptor for the same object with exactly those rights, without the
  right to grant. The new descriptor carries a grant epoch that no other slot of any process has, so revocation
  finds it and nothing else.
\<close>

theorem cap_transfer_attenuates:
  assumes "cap_ok (P, D, st)" "next_grant_epoch st \<noteq> -1" "dst < PROC_MAX" "proc_find (proc_table st) pid = Some dst"
    and "cap_transfer (Some src) pid token rights st = (Inr h, st')"
  shows "\<exists>slot fd. cap_validate_token_locked src token st = Some slot \<and> sv_type slot = CAP_TYPE_FD \<and>
    sv_rights slot AND CAP_RIGHT_GRANT \<noteq> 0 \<and> rights AND sv_rights slot = rights \<and> rights AND CAP_RIGHT_GRANT = 0 \<and>
    \<not> sv_valid (slot_at st dst fd) \<and> sv_valid (slot_at st' dst fd) \<and> sv_type (slot_at st' dst fd) = CAP_TYPE_FD \<and>
    sv_object_index (slot_at st' dst fd) = sv_object_index slot \<and> sv_rights (slot_at st' dst fd) = rights \<and>
    (\<forall>q j. cap_slot_delegate_epoch st' q j = next_grant_epoch st \<longleftrightarrow> q = dst \<and> j = fd)"
proof -
  have d: "deleg_ok st" using assms(1) by (simp add: cap_ok_def)
  have g: "rights AND CAP_RIGHT_GRANT = 0" "src \<noteq> dst" "cap_transfer_locked src dst token rights st = (Inr h, st')"
    using assms(4,5) by (auto simp: cap_transfer_def split: if_splits)
  obtain slot fd s1 i where t: "cap_validate_token_locked src token st = Some slot" "sv_type slot = CAP_TYPE_FD"
    "sv_rights slot AND CAP_RIGHT_GRANT \<noteq> 0" "rights AND sv_rights slot = rights"
    and m: "cap_mint_fd_locked dst (sv_object_index slot) (rights AND NOT CAP_RIGHT_GRANT) (sv_type_meta slot) (-1) False True st = (Inr fd, s1)"
    and s: "\<forall>q j. slot_at st' q j = (if q = src \<and> j = i then slot_at st' src i else slot_at s1 q j)"
    and e: "\<forall>q j. cap_slot_delegate_epoch st' q j = (if q = src \<and> j = i then 0 else if q = dst \<and> j = fd then next_grant_epoch st
        else cap_slot_delegate_epoch s1 q j)"
    and "sv_valid (slot_at st' src i)" "sv_type (slot_at st' src i) = CAP_TYPE_DELEGATE" "h = cap_make_handle (Some (slot_at st' src i))"
    by (rule transfer_success [OF d assms(2,3) g(2,3)])
  obtain j where j: "slot = slot_at st src j" using validate_token [OF t(1)] by metis
  have v: "slot_at st' dst fd = slot_at s1 dst fd" using s [rule_format, of dst fd] g(2) by simp
  have "cap_slot_delegate_epoch s1 q k \<noteq> next_grant_epoch st" for q k
    using calm_mint [OF m] d unfolding calm_def undelegated_def deleg_ok_def by (metis less_irrefl)
  moreover have "next_grant_epoch st \<noteq> 0" using d by (auto simp: deleg_ok_def)
  ultimately have "cap_slot_delegate_epoch st' q k = next_grant_epoch st \<longleftrightarrow> q = dst \<and> k = fd" for q k
    using e [rule_format, of q k] g(2) by auto
  moreover have "sv_object_index (slot_at s1 dst fd) = sv_object_index slot" "sv_rights (slot_at s1 dst fd) = rights"
    unfolding mint_fd_slot_view(3,4) [OF m] j by (rule slot_object_mask) (rule child_rights [OF t(4) [unfolded j] g(1)])
  ultimately show ?thesis
    using t g(1) mint_fresh [OF m] mint_fd_slot_view(1,2) [OF m] v by metis
qed

theorem cap_transfer_attenuates_witness:
  "\<exists>fd. sv_valid (slot_at cap_two 3 fd) \<and> sv_rights (slot_at cap_two 3 fd) = 1 \<and>
     (\<forall>q j. cap_slot_delegate_epoch cap_two q j = 1 \<longleftrightarrow> q = 3 \<and> j = fd)"
proof -
  have "p_state (proc_table cap_one p) = p_state (two_procs p)" "p_pid (proc_table cap_one p) = p_pid (two_procs p)" for p
    by (simp_all add: cap_one_eq cap_slot_publish_def upd_proc_def Let_def) (simp_all add: cap_boot_def)
  then have f: "proc_find (proc_table cap_one) 2 = Some 3"
    by (simp add: proc_find_def proc_find_locked_def first_index.simps two_procs_def free_proc_def)
  have "cap_transfer (Some 0) 2 token_one 1 cap_one = (Inr (cap_make_handle (Some (slot_at cap_two 0 1))), cap_two)"
    using cap_two_eq(2) by (simp add: cap_transfer_def f)
  from cap_transfer_attenuates [OF cap_steps_ok [OF cap_one_steps cap_boot_ok] _ _ f this] show ?thesis
    by (auto simp: cap_one_pools)
qed

section \<open>Revocation and teardown\<close>

text \<open>A descriptor under a grant: a valid slot for the grant's object and type that carries the grant's epoch.\<close>

definition under_grant :: "'z cap_state_scheme \<Rightarrow> delegate_record \<Rightarrow> nat \<Rightarrow> nat \<Rightarrow> bool" where
  "under_grant st rec q j \<longleftrightarrow> slot_ref (slot_at st q j) (dr_dst_type rec) (dr_dst_object_index rec) \<and>
     cap_slot_delegate_epoch st q j = dr_grant_epoch rec"

lemma revoke_matches_grant: "revoke_matches st rec q j = under_grant st rec q j"
  by (auto simp: revoke_matches_def under_grant_def slot_ref_def Let_def)

text \<open>
  C2: Revoking a delegation ends after at most two passes when it runs alone, and is exact: every descriptor of the target process
  and of its live descendants that carries the grant's epoch and object becomes invalid, so does the delegate handle, and
  no other slot of any process changes.
\<close>

theorem cap_revoke_complete:
  assumes "cap_ok (P, D, st)" "few D" "src < PROC_MAX" "2 \<le> fuel"
    and "cap_validate_token_locked src token st = Some slot" "sv_type slot = CAP_TYPE_DELEGATE"
    and "rec = delegate_pool st (unat (sv_object_index slot))" "dr_dst_proc rec = Some dst"
      "p_generation (proc_table st dst) = dr_dst_generation rec" "p_state (proc_table st dst) \<noteq> PROC_STATE_FREE"
  shows "\<exists>st'. cap_revoke_delegate fuel (Some src) token st = Some (Inr (), st') \<and> cap_ok (P, D, st') \<and>
    \<not> sv_valid (slot_at st' src (unat (token_slot token))) \<and>
    (\<forall>q j. descends (proc_table st) dst q \<and> j < CAP_SPACE_SLOTS \<and> under_grant st rec q j \<longrightarrow> \<not> sv_valid (slot_at st' q j)) \<and>
    (\<forall>q j. \<not> (q = src \<and> j = unat (token_slot token)) \<and>
        \<not> (descends (proc_table st) dst q \<and> j < CAP_SPACE_SLOTS \<and> under_grant st rec q j) \<longrightarrow>
        slot_at st' q j = slot_at st q j)"
proof -
  have ok: "rc_ok P D st" "deleg_ok st" using assms(1) by (simp_all add: cap_ok_def)
  obtain st' where e: "cap_revoke_delegate fuel (Some src) token st = Some (Inr (), st')" "rc_ok P D st'"
    "\<And>q j. \<lbrakk>descends (proc_table st) dst q; j < CAP_SPACE_SLOTS; under_grant st rec q j\<rbrakk> \<Longrightarrow> \<not> sv_valid (slot_at st' q j)"
    "\<not> sv_valid (slot_at st' src (unat (token_slot token)))"
    "\<And>q j. \<lbrakk>\<not> (q = src \<and> j = unat (token_slot token));
        \<not> (descends (proc_table st) dst q \<and> j < CAP_SPACE_SLOTS \<and> under_grant st rec q j)\<rbrakk> \<Longrightarrow> slot_at st' q j = slot_at st q j"
    using revoke_effect [OF ok(1) assms(2) deleg_records [OF ok(2)] assms(3-10)] unfolding revoke_matches_grant by blast
  have "deleg_ok st'" by (rule revoke_total [OF ok(1) assms(2) ok(2) assms(3,4), of token]) (use e(1) in simp)
  with e show ?thesis by (auto simp: cap_ok_def)
qed

theorem cap_revoke_complete_witness:
  "\<exists>st'. cap_revoke_delegate 2 (Some 0) (cap_make_handle (Some (slot_at cap_two 0 1))) cap_two = Some (Inr (), st') \<and>
     \<not> sv_valid (slot_at st' 3 0)"
proof -
  have v: "cap_validate_token_locked 0 (cap_make_handle (Some (slot_at cap_two 0 1))) cap_two = Some (slot_at cap_two 0 1)"
    by (rule handle_valid) (simp_all add: cap_two_slots del: One_nat_def)
  have "skel cap_two 3 = skel cap_one 3" by (rule cap_two_slots)
  then have p: "p_generation (proc_table cap_two 3) = 7" "p_state (proc_table cap_two 3) = PROC_STATE_RUNNING"
    by (auto simp: skel_def cap_one_pools two_procs_def dest: arg_cong [of _ _ p_generation] arg_cong [of _ _ p_state])
  have m: "under_grant cap_two (delegate_pool cap_two 0) 3 0"
    by (simp add: under_grant_def slot_ref_def cap_two_slots record_two_def)
  have o: "unat (sv_object_index (slot_at cap_two 0 1)) = 0" by (simp add: cap_two_slots del: One_nat_def)
  have "dr_dst_proc (delegate_pool cap_two 0) = Some 3" "dr_dst_generation (delegate_pool cap_two 0) = 7"
    by (simp_all add: cap_two_slots record_two_def two_procs_def)
  from cap_revoke_complete [OF cap_steps_ok [OF cap_two_steps cap_boot_ok] _ _ _ v, of 2 "delegate_pool cap_two 0" 3] this p m o
  show ?thesis by (auto simp: few_def cap_two_slots(2) simp del: One_nat_def)
qed

text \<open>
  C14: Tearing down a process's capability space always finishes: every revocation it starts ends, and afterwards the space
  has no valid slot and all reference counts are exact.
\<close>

theorem cap_space_teardown_total:
  assumes "cap_ok (P, D, st)" "few D" "p < PROC_MAX"
  shows "\<exists>st'. cap_space_teardown p st = Some st' \<and> cap_ok (P, D, st') \<and> (\<forall>j < CAP_SPACE_SLOTS. \<not> sv_valid (slot_at st' p j))"
proof -
  have ok: "rc_ok P D st" "deleg_ok st" using assms(1) by (simp_all add: cap_ok_def)
  show ?thesis by (rule teardown_ok [OF ok(1) assms(2) ok(2) assms(3)]) (auto simp: cap_ok_def)
qed

theorem cap_space_teardown_total_witness:
  "\<exists>st'. cap_space_teardown 0 cap_two = Some st' \<and> \<not> sv_valid (slot_at st' 0 0)"
  using cap_space_teardown_total [OF cap_steps_ok [OF cap_two_steps cap_boot_ok], of 0] by (auto simp: few_def)

text \<open>
  C27: The locked section of a transfer does not look at the target's state: when the target exits and its table entry is freed
  after the lookup and before the locks are taken, the transfer still succeeds and leaves a valid descriptor in the free entry's
  capability space.
\<close>

theorem cap_transfer_freed_target:
  assumes "cap_ok (P, D, st)" "src < PROC_MAX" "src \<noteq> dst" "p_state (proc_table st dst) = PROC_STATE_FREE"
    and "cap_validate_token_locked src token st = Some slot" "sv_type slot = CAP_TYPE_FD"
    and "sv_rights slot AND CAP_RIGHT_GRANT \<noteq> 0" "rights AND sv_rights slot = rights"
    and "cap_find_free_slot_locked dst False st = Some fd" "cap_find_free_slot_locked src False st = Some i"
    and "first_index (\<lambda>k. \<not> dr_in_use (delegate_pool st k)) 0 CAP_DELEGATE_RECORD_MAX = Some r"
  shows "\<exists>h st'. cap_transfer_locked src dst token rights st = (Inr h, st') \<and> p_state (proc_table st' dst) = PROC_STATE_FREE \<and>
    sv_valid (slot_at st' dst fd) \<and> sv_object_index (slot_at st' dst fd) = sv_object_index slot"
proof -
  obtain j where j: "j < CAP_SPACE_SLOTS" "slot = slot_at st src j" "sv_valid slot" using assms(5) unfolding validate_iff by blast
  then have "(src, j) \<in> refs CAP_TYPE_FD st (sv_object_index slot)" using assms(2,6) by (simp add: refs_def slot_ref_def)
  then have "fd_live st (sv_object_index slot)"
    using cap_refs_live [OF assms(1)] by blast
  from transfer_forward [OF assms(5-8) this assms(9,10,3,11)] show ?thesis
    using assms(4) skel_fields by (metis (no_types, lifting))
qed

theorem cap_transfer_freed_target_witness:
  "\<exists>h st'. cap_transfer_locked 0 5 token_one 1 cap_one = (Inr h, st') \<and> p_state (proc_table st' 5) = PROC_STATE_FREE"
proof -
  have f: "p_state (proc_table cap_one 5) = PROC_STATE_FREE"
    by (simp add: cap_one_eq cap_slot_publish_def upd_proc_def Let_def) (simp add: cap_boot_def two_procs_def free_proc_def)
  have g: "cap_find_free_slot_locked 5 False cap_one = Some 0"
    by (simp add: cap_find_free_slot_locked_def first_index.simps cap_one_slots cap_slot_is_thread_reserved_def zero_view_def)
  have r: "first_index (\<lambda>k. \<not> dr_in_use (delegate_pool cap_one k)) 0 CAP_DELEGATE_RECORD_MAX = Some 0"
    by (rule first_index_0) (simp_all add: cap_one_pools zero_delegate_def)
  from cap_transfer_freed_target [OF cap_steps_ok [OF cap_one_steps cap_boot_ok] _ _ f cap_one_valid _ _ _ g cap_one_free(1) r, of 1]
  show ?thesis by (auto simp: cap_one_slots(1))
qed

end
