(* ===== verification/Buddy_Tiling.thy ===== *)
theory Buddy_Tiling
  imports Mazu_Prelude
begin

text \<open>
  The blocks of a buddy system as pure combinatorics: a block is a page number and an order, blocks are aligned to their size, and
  a set of blocks tiles the region when every page lies in exactly one of them. Splitting and merging keep a tiling, and in a
  coalesced set a free region is one free block.
\<close>

type_synonym blk = "nat \<times> nat"

definition inb :: "nat \<Rightarrow> blk \<Rightarrow> bool" where
  "inb x b \<longleftrightarrow> x div 2 ^ snd b = fst b div 2 ^ snd b"

definition blk_ok :: "nat \<Rightarrow> blk \<Rightarrow> bool" where
  "blk_ok m b \<longleftrightarrow> snd b \<le> m \<and> 2 ^ snd b dvd fst b \<and> fst b < 2 ^ m"

definition tiles :: "nat \<Rightarrow> blk set \<Rightarrow> bool" where
  "tiles m B \<longleftrightarrow> (\<forall>b\<in>B. blk_ok m b) \<and> (\<forall>x<2 ^ m. \<exists>!b. b \<in> B \<and> inb x b)"

section \<open>Pages of a block\<close>

lemma inb_iff: "2 ^ k dvd a \<Longrightarrow> inb x (a, k) \<longleftrightarrow> a \<le> x \<and> x < a + 2 ^ k"
proof -
  assume "2 ^ k dvd a"
  then obtain q where q: "a = 2 ^ k * q" by (elim dvdE)
  have "x div 2 ^ k = q \<longleftrightarrow> 2 ^ k * q \<le> x \<and> x < 2 ^ k * q + 2 ^ k"
    using div_nat_eqI [of "2 ^ k" q x] dividend_less_times_div [of "2 ^ k" x] by (auto simp: algebra_simps)
  then show ?thesis by (simp add: inb_def q)
qed

lemma inb_self [simp]: "inb a (a, k)"
  by (simp add: inb_def)

lemma div_pow_mono: "j \<le> k \<Longrightarrow> x div 2 ^ j = y div 2 ^ j \<Longrightarrow> x div 2 ^ k = y div (2 ^ k :: nat)"
proof -
  assume j: "j \<le> k" and e: "x div 2 ^ j = y div 2 ^ j"
  have "(2::nat) ^ k = 2 ^ j * 2 ^ (k - j)" using j by (simp flip: power_add)
  then show ?thesis using e by (simp add: div_mult2_eq)
qed

text \<open>Two blocks that share a page are nested.\<close>

lemma inb_nested: "\<lbrakk>inb x (a, j); inb x (b, k); j \<le> k; inb y (a, j)\<rbrakk> \<Longrightarrow> inb y (b, k)"
  unfolding inb_def fst_conv snd_conv using div_pow_mono [of j k x y] by simp

lemma inb_less: "\<lbrakk>blk_ok m b; inb x b\<rbrakk> \<Longrightarrow> x < 2 ^ m"
proof -
  assume b: "blk_ok m b" and x: "inb x b"
  have "inb x (0, m)" using inb_nested [of "fst b" "fst b" "snd b" 0 m x] b x
    by (simp add: blk_ok_def inb_def)
  then show ?thesis by (simp add: inb_iff)
qed

lemma blk_end: "blk_ok m (a, k) \<Longrightarrow> a + 2 ^ k \<le> 2 ^ m"
proof -
  assume b: "blk_ok m (a, k)"
  have "(0::nat) < 2 ^ k" by simp
  with b have "inb (a + (2 ^ k - 1)) (a, k)" by (simp only: blk_ok_def inb_iff fst_conv snd_conv) linarith
  from inb_less [OF b this] show ?thesis by simp
qed

lemma tiles_unique: "\<lbrakk>tiles m B; b \<in> B; c \<in> B; inb x b; inb x c\<rbrakk> \<Longrightarrow> b = c"
proof -
  assume t: "tiles m B" and b: "b \<in> B" "inb x b" and c: "c \<in> B" "inb x c"
  have "x < 2 ^ m" using inb_less [of m b x] t b by (simp add: tiles_def)
  then show "b = c" using t b c unfolding tiles_def by blast
qed

lemma tiles_cover: "\<lbrakk>tiles m B; x < 2 ^ m\<rbrakk> \<Longrightarrow> \<exists>b\<in>B. inb x b"
  unfolding tiles_def by blast

lemma tiles_ok: "\<lbrakk>tiles m B; b \<in> B\<rbrakk> \<Longrightarrow> blk_ok m b"
  unfolding tiles_def by blast

section \<open>Halves\<close>

lemma half_ok:
  assumes "blk_ok m (a, Suc k)"
  shows "blk_ok m (a, k)" "blk_ok m (a + 2 ^ k, k)"
proof -
  have "2 ^ Suc k dvd a" using assms by (simp add: blk_ok_def)
  then have d: "2 ^ k dvd a" by (metis dvd_trans le_imp_power_dvd lessI less_imp_le)
  have "(0::nat) < 2 ^ k" by simp
  with blk_end [OF assms] have "a + 2 ^ k < 2 ^ m" unfolding power_Suc by linarith
  with d assms show "blk_ok m (a, k)" "blk_ok m (a + 2 ^ k, k)" by (auto simp: blk_ok_def)
qed

lemma inb_halves:
  assumes "2 ^ Suc k dvd a"
  shows "inb x (a, Suc k) \<longleftrightarrow> inb x (a, k) \<or> inb x (a + 2 ^ k, k)" "\<not> (inb x (a, k) \<and> inb x (a + 2 ^ k, k))"
proof -
  have d: "2 ^ k dvd a" using assms by (metis dvd_trans le_imp_power_dvd lessI less_imp_le)
  then have e: "2 ^ k dvd a + 2 ^ k" by simp
  show "inb x (a, Suc k) \<longleftrightarrow> inb x (a, k) \<or> inb x (a + 2 ^ k, k)" "\<not> (inb x (a, k) \<and> inb x (a + 2 ^ k, k))"
    by (auto simp: inb_iff [OF assms] inb_iff [OF d] inb_iff [OF e])
qed

text \<open>Splitting a block into its halves, and merging them.\<close>

lemma tiles_split:
  assumes "tiles m (insert (a, Suc k) B)" "(a, Suc k) \<notin> B"
  shows "tiles m (insert (a, k) (insert (a + 2 ^ k, k) B))"
proof -
  have ok: "blk_ok m (a, Suc k)" using assms(1) by (simp add: tiles_def)
  have h: "inb x (a, Suc k) \<longleftrightarrow> inb x (a, k) \<or> inb x (a + 2 ^ k, k)" "\<not> (inb x (a, k) \<and> inb x (a + 2 ^ k, k))" for x
    using inb_halves [of k a x] ok by (simp_all add: blk_ok_def)
  have "\<exists>!b. b \<in> insert (a, k) (insert (a + 2 ^ k, k) B) \<and> inb x b" if x: "x < 2 ^ m" for x
  proof -
    obtain b where b: "b \<in> insert (a, Suc k) B" "inb x b" using tiles_cover [OF assms(1) x] by blast
    have u: "c = b" if "c \<in> insert (a, Suc k) B" "inb x c" for c using tiles_unique [OF assms(1) that(1) b(1) that(2) b(2)] .
    show ?thesis
    proof (cases "inb x (a, Suc k)")
      case True
      then have n: "c \<notin> B" if "inb x c" for c using u [of "(a, Suc k)"] u [of c] that assms(2) by auto
      with True h show ?thesis by (metis insertCI insertE)
    next
      case False
      then show ?thesis using b h u by (metis insertE insertI2)
    qed
  qed
  then show ?thesis using assms(1) half_ok [OF ok] by (simp add: tiles_def)
qed

lemma tiles_merge:
  assumes "tiles m (insert (a, k) (insert (a + 2 ^ k, k) B))" "2 ^ Suc k dvd a" "k < m"
    "(a, k) \<notin> B" "(a + 2 ^ k, k) \<notin> B"
  shows "tiles m (insert (a, Suc k) B)"
proof -
  let ?B = "insert (a, k) (insert (a + 2 ^ k, k) B)"
  have ok: "blk_ok m (a, Suc k)" using assms(1-3) by (simp add: tiles_def blk_ok_def)
  note h = inb_halves [OF assms(2)]
  have "\<exists>!b. b \<in> insert (a, Suc k) B \<and> inb x b" if x: "x < 2 ^ m" for x
  proof -
    obtain b where b: "b \<in> ?B" "inb x b" using tiles_cover [OF assms(1) x] by blast
    have u: "c = b" if "c \<in> ?B" "inb x c" for c using tiles_unique [OF assms(1) that(1) b(1) that(2) b(2)] .
    show ?thesis
    proof (cases "inb x (a, Suc k)")
      case True
      then have "inb x (a, k) \<or> inb x (a + 2 ^ k, k)" using h by blast
      then have "c \<notin> B" if "inb x c" for c using u [of "(a, k)"] u [of "(a + 2 ^ k, k)"] u [of c] that assms(4,5) by auto
      with True show ?thesis by blast
    next
      case False
      then show ?thesis using b h u by (metis insertE insertI2)
    qed
  qed
  then show ?thesis using assms(1) ok by (simp add: tiles_def)
qed

section \<open>Buddies\<close>

definition bud :: "nat \<Rightarrow> nat \<Rightarrow> nat" where
  "bud a k = (if 2 ^ Suc k dvd a then a + 2 ^ k else a - 2 ^ k)"

lemma buddy_cases:
  assumes "2 ^ k dvd a"
  obtains "2 ^ Suc k dvd a" "bud a k = a + 2 ^ k" "bud (a + 2 ^ k) k = a"
    | c where "a = c + 2 ^ k" "2 ^ Suc k dvd c" "bud a k = c" "bud c k = a"
proof (cases "2 ^ Suc k dvd a")
  case True
  have "\<not> (2::nat) ^ Suc k dvd 2 ^ k" by (metis dvd_imp_le lessI linorder_not_le power_strict_increasing_iff one_less_numeral_iff semiring_norm(76) zero_less_numeral zero_less_power)
  then have "\<not> 2 ^ Suc k dvd a + 2 ^ k" using True dvd_add_right_iff by blast
  then show thesis using that(1) True by (simp add: bud_def)
next
  case False
  from assms obtain q where q: "a = 2 ^ k * q" by (elim dvdE)
  with False have "odd q" by (auto simp: mult.commute mult.assoc elim!: evenE)
  then obtain r where r: "q = 2 * r + 1" by (elim oddE)
  have a: "a = 2 ^ Suc k * r + 2 ^ k" by (simp add: q r algebra_simps)
  then show thesis using that(2) [of "2 ^ Suc k * r"] False by (simp add: bud_def)
qed

definition coalesced :: "nat \<Rightarrow> blk set \<Rightarrow> bool" where
  "coalesced m F \<longleftrightarrow> (\<forall>a k. (a, k) \<in> F \<and> k < m \<longrightarrow> (bud a k, k) \<notin> F)"

text \<open>A block and its buddy lie in the same block of the next order.\<close>

lemma inb_buddy: "2 ^ k dvd a \<Longrightarrow> k < n \<Longrightarrow> inb a (r, n) \<Longrightarrow> inb (bud a k) (r, n)"
proof -
  assume d: "2 ^ k dvd a" and n: "k < n" and r: "inb a (r, n)"
  have "bud a k div 2 ^ Suc k = a div 2 ^ Suc k"
  proof (rule buddy_cases [OF d])
    assume "2 ^ Suc k dvd a" "bud a k = a + 2 ^ k"
    then show ?thesis using inb_iff [of "Suc k" a "a + 2 ^ k"] by (simp add: inb_def)
  next
    fix c assume "a = c + 2 ^ k" "2 ^ Suc k dvd c" "bud a k = c"
    then show ?thesis using inb_iff [of "Suc k" c a] by (simp add: inb_def)
  qed
  from div_pow_mono [OF _ this, of n] n r show ?thesis by (simp add: inb_def)
qed

lemma inb_of_buddy: "2 ^ k dvd a \<Longrightarrow> k < n \<Longrightarrow> inb (bud a k) (r, n) \<Longrightarrow> inb a (r, n)"
proof -
  assume d: "2 ^ k dvd a" and n: "k < n" and r: "inb (bud a k) (r, n)"
  from d have "2 ^ k dvd bud a k" "bud (bud a k) k = a" by (rule buddy_cases; use d in \<open>auto intro: dvd_trans [OF le_imp_power_dvd]\<close>)+
  with inb_buddy [of k "bud a k" n r] n r show ?thesis by simp
qed

text \<open>
  In a coalesced set of free blocks, a region of one order all of whose pages are free, and that no larger free block contains, is
  itself a free block.
\<close>

lemma free_region:
  assumes t: "tiles m B" and F: "F \<subseteq> B" "coalesced m F" and r: "blk_ok m (r, n)"
    and all: "\<And>x. inb x (r, n) \<Longrightarrow> \<exists>b\<in>F. inb x b"
    and small: "\<And>a k. \<lbrakk>(a, k) \<in> F; inb r (a, k)\<rbrakk> \<Longrightarrow> k \<le> n"
  shows "(r, n) \<in> F"
proof (rule ccontr)
  assume no: "(r, n) \<notin> F"
  let ?P = "\<lambda>k. \<exists>a x. (a, k) \<in> F \<and> inb x (a, k) \<and> inb x (r, n)"
  have "\<exists>k. ?P k" using all [of r] by (metis inb_self prod.collapse)
  then obtain k where k: "?P k" and least: "\<And>j. ?P j \<Longrightarrow> k \<le> j" using exists_least_iff [of ?P] by (meson not_le)
  then obtain a x where a: "(a, k) \<in> F" "inb x (a, k)" "inb x (r, n)" by blast
  have ok: "blk_ok m (a, k)" using tiles_ok [OF t] F(1) a(1) by blast
  have "k \<le> n" using small [OF a(1)] inb_nested [OF a(3,2), of r] by (cases "k \<le> n") auto
  moreover have "k \<noteq> n"
  proof
    assume "k = n"
    with a have "inb a (r, n)" using inb_nested [OF a(2,3)] by simp
    with \<open>k = n\<close> ok r have "a = r" by (auto simp: inb_def blk_ok_def elim!: dvdE)
    with a no \<open>k = n\<close> show False by simp
  qed
  ultimately have kn: "k < n" by simp
  have d: "2 ^ k dvd a" using ok by (simp add: blk_ok_def)
  have "inb a (r, n)" using inb_nested [OF a(2,3)] kn by simp
  then have br: "inb (bud a k) (r, n)" by (rule inb_buddy [OF d kn])
  then obtain c j where c: "(c, j) \<in> F" "inb (bud a k) (c, j)" using all by fastforce
  have "k \<le> j" using least [of j] c br by blast
  moreover have "\<not> k < j"
  proof
    assume "k < j"
    then have "inb a (c, j)" by (rule inb_of_buddy [OF d _ c(2)])
    then have "(c, j) = (a, k)" using tiles_unique [OF t, of "(c, j)" "(a, k)" a] F(1) c(1) a(1) by auto
    with \<open>k < j\<close> show False by simp
  qed
  ultimately have j: "j = k" by simp
  have "2 ^ k dvd c" "2 ^ k dvd bud a k"
    using tiles_ok [OF t] F(1) c(1) j d by (auto simp: blk_ok_def intro: buddy_cases [OF d] dvd_trans [OF le_imp_power_dvd])
  then have "c = bud a k" using c(2) j by (auto simp: inb_def elim!: dvdE)
  then show False using F(2) a(1) c(1) j kn r by (auto simp: coalesced_def blk_ok_def)
qed

end
