(* ===== verification/Buddy.thy ===== *)
theory Buddy
  imports Buddy_Tiling
begin

text \<open>
  The buddy allocator (\<^verbatim>\<open>kernel/mm/buddy.c\<close>) and the arena its tables come from
  (\<^verbatim>\<open>include/mazu/arena.h\<close>). Addresses are natural numbers, sizes 64-bit words. A free list is the list of the
  addresses of its blocks, in list order; the bitmap is an array of bytes. \<^verbatim>\<open>crash\<close> is a value of the sum's left side.
\<close>

abbreviation (input) "PAGE_SIZE \<equiv> 4096 :: nat"
abbreviation (input) "BYTE_WIDTH \<equiv> 8 :: nat"
abbreviation (input) "N_FREE_LISTS \<equiv> 52 :: nat"

section \<open>Powers of two\<close>

definition min_power_of_two_geq :: "u64 \<Rightarrow> u64" where
  "min_power_of_two_geq n =
     (if n = 0 then 1
      else if n AND (n - 1) = 0 then n
      else fold (\<lambda>shift n. n OR drop_bit shift n) [1, 2, 4, 8, 16, 32] n + 1)"

definition max_power_of_two_leq :: "u64 \<Rightarrow> u64" where
  "max_power_of_two_leq n = (if n AND (n - 1) = 0 then n else min_power_of_two_geq n div 2)"

function order_of :: "u64 \<Rightarrow> nat" where
  "order_of len = (let len = drop_bit 1 len in if len = 0 then 0 else Suc (order_of len))"
  by pat_completeness auto
termination
  by (relation "measure unat") (auto simp: unat_shr word_unat_eq_iff)

declare order_of.simps [simp del]

definition length_of_order :: "nat \<Rightarrow> nat" where
  "length_of_order ord = 2 ^ ord"

definition align_up :: "u64 \<Rightarrow> u64 \<Rightarrow> u64" where
  "align_up v a = (v + a - 1) AND NOT (a - 1)"

section \<open>Arenas\<close>

datatype crash = OutOfMemory | DoubleFree | InvalidBlock

record arena =
  ar_beg :: nat
  ar_end :: nat

definition arena_alloc_aligned :: "arena \<Rightarrow> nat \<Rightarrow> nat \<Rightarrow> crash + nat \<times> arena" where
  "arena_alloc_aligned arn n_bytes align =
     (let padding = (align - ar_beg arn mod align) mod align;
          available = int (ar_end arn) - int (ar_beg arn) - int padding
      in if available < 0 \<or> int n_bytes > available then Inl OutOfMemory
         else Inr (ar_beg arn + padding, arn\<lparr>ar_beg := ar_beg arn + (padding + n_bytes)\<rparr>))"

definition arena_alloc :: "arena \<Rightarrow> nat \<Rightarrow> crash + nat \<times> arena" where
  "arena_alloc arn n_bytes = arena_alloc_aligned arn n_bytes 8"

section \<open>The allocator's state\<close>

record buddy =
  bd_avail :: "nat \<Rightarrow> nat list"
  bd_bitmap :: "nat \<Rightarrow> u8"
  bd_bitmap_len :: nat
  bd_max_ord :: nat
  bd_base :: nat
  bd_ord :: "nat \<Rightarrow> nat"

text \<open>
  Initialisation. The usable part of the memory given: its base, its number of pages and the length of its bitmap. The result is
  \<open>None\<close> where the code returns a null pointer.
\<close>

definition buddy_region :: "nat \<Rightarrow> u64 \<Rightarrow> (nat \<times> u64 \<times> nat) option" where
  "buddy_region dat len =
     (let padding = (PAGE_SIZE - dat mod PAGE_SIZE) mod PAGE_SIZE in
      if int padding > sint len then None
      else let avail = len - of_nat padding in
      if sint avail \<le> 0 then None
      else let n_pages = max_power_of_two_leq avail div of_nat PAGE_SIZE in
      if sint n_pages \<le> 0 then None
      else let base = dat + padding;
               bitmap_len = (unat n_pages + BYTE_WIDTH - 1) div BYTE_WIDTH in
      if bitmap_len \<le> 0 \<or> bitmap_len > unat avail then None
      else Some (base, n_pages, bitmap_len))"

text \<open>The size of the structure is an argument; the memory an arena gives is cleared.\<close>

definition buddy_init :: "nat \<Rightarrow> nat \<Rightarrow> u64 \<Rightarrow> arena \<Rightarrow> crash + buddy option \<times> arena" where
  "buddy_init sizeof_buddy dat len arn =
     (case buddy_region dat len of
        None \<Rightarrow> Inr (None, arn)
      | Some (base, n_pages, bitmap_len) \<Rightarrow>
          (case arena_alloc arn sizeof_buddy of
             Inl c \<Rightarrow> Inl c
           | Inr (_, arn) \<Rightarrow>
               (case arena_alloc arn bitmap_len of
                  Inl c \<Rightarrow> Inl c
                | Inr (_, arn) \<Rightarrow>
                    let max_ord = order_of n_pages in
                    if max_ord \<ge> N_FREE_LISTS then Inr (None, arn)
                    else Inr (Some \<lparr>bd_avail = (\<lambda>_. [])(max_ord := [base]), bd_bitmap = (\<lambda>_. 0),
                                bd_bitmap_len = bitmap_len, bd_max_ord = max_ord, bd_base = base,
                                bd_ord = (\<lambda>_. 0)(base := max_ord)\<rparr>, arn))))"

section \<open>The bitmap\<close>

definition bit_idx_of :: "buddy \<Rightarrow> nat \<Rightarrow> nat" where
  "bit_idx_of bd addr = (addr - bd_base bd) div PAGE_SIZE"

definition set_bit_at :: "u8 \<Rightarrow> nat \<Rightarrow> (nat \<Rightarrow> u8) \<Rightarrow> nat \<Rightarrow> u8" where
  "set_bit_at value bit_idx dat =
     (let i = bit_idx div BYTE_WIDTH;
          dat = dat(i := dat i AND NOT (push_bit (bit_idx mod BYTE_WIDTH) 1))
      in dat(i := dat i OR push_bit (bit_idx mod BYTE_WIDTH) value))"

definition set_bitmap :: "buddy \<Rightarrow> nat \<Rightarrow> nat \<Rightarrow> u8 \<Rightarrow> buddy" where
  "set_bitmap bd addr ord value =
     (let bit_idx = bit_idx_of bd addr; bit_end = bit_idx + length_of_order ord
      in bd\<lparr>bd_bitmap := fold (set_bit_at value) [bit_idx..<bit_end] (bd_bitmap bd)\<rparr>)"

definition set_avail :: "buddy \<Rightarrow> nat \<Rightarrow> nat \<Rightarrow> buddy" where
  "set_avail bd addr ord = set_bitmap bd addr ord 1"

definition set_not_avail :: "buddy \<Rightarrow> nat \<Rightarrow> nat \<Rightarrow> buddy" where
  "set_not_avail bd addr ord = set_bitmap bd addr ord 0"

definition is_avail :: "buddy \<Rightarrow> nat \<Rightarrow> nat \<Rightarrow> bool" where
  "is_avail bd addr ord =
     (let bit_idx = bit_idx_of bd addr; bit_end = bit_idx + length_of_order ord
      in list_all (\<lambda>i. bd_bitmap bd (i div BYTE_WIDTH) AND push_bit (i mod BYTE_WIDTH) 1 \<noteq> 0) [bit_idx..<bit_end])"

section \<open>Free lists\<close>

text \<open>\<^verbatim>\<open>list_add\<close> puts a block at the front; \<^verbatim>\<open>list_del\<close> unlinks it from the list it is in.\<close>

definition list_add :: "buddy \<Rightarrow> nat \<Rightarrow> nat \<Rightarrow> buddy" where
  "list_add bd ord addr = bd\<lparr>bd_avail := (bd_avail bd)(ord := addr # bd_avail bd ord)\<rparr>"

definition list_del :: "buddy \<Rightarrow> nat \<Rightarrow> buddy" where
  "list_del bd addr = bd\<lparr>bd_avail := (\<lambda>ord. remove1 addr (bd_avail bd ord))\<rparr>"

definition set_ord :: "buddy \<Rightarrow> nat \<Rightarrow> nat \<Rightarrow> buddy" where
  "set_ord bd addr ord = bd\<lparr>bd_ord := (bd_ord bd)(addr := ord)\<rparr>"

section \<open>Allocation\<close>

definition split_block :: "nat \<Rightarrow> nat \<Rightarrow> nat" where
  "split_block block ord = block + length_of_order ord * PAGE_SIZE"

text \<open>The loop that splits the block found down to the requested order.\<close>

fun alloc_split :: "nat \<Rightarrow> nat \<Rightarrow> nat \<Rightarrow> buddy \<Rightarrow> buddy" where
  "alloc_split ret 0 req_ord bd = bd"
| "alloc_split ret (Suc ord) req_ord bd =
     (if Suc ord > req_ord
      then let rem = split_block ret ord;
               bd = set_avail bd rem ord;
               bd = set_ord bd rem ord;
               bd = list_add bd ord rem
           in alloc_split ret ord req_ord bd
      else bd)"

definition buddy_alloc_raw :: "buddy \<Rightarrow> nat \<Rightarrow> nat option \<times> buddy" where
  "buddy_alloc_raw bd req_ord =
     (if req_ord > bd_max_ord bd then (None, bd)
      else (case first_index (\<lambda>ord. bd_avail bd ord \<noteq> []) req_ord (Suc (bd_max_ord bd)) of
              None \<Rightarrow> (None, bd)
            | Some ord \<Rightarrow>
                let ret = hd (bd_avail bd ord);
                    bd = set_not_avail bd ret ord;
                    bd = list_del bd ret
                in if ord = req_ord then (Some ret, bd) else (Some ret, alloc_split ret ord req_ord bd)))"

definition get_buddy :: "buddy \<Rightarrow> nat \<Rightarrow> nat \<Rightarrow> crash + nat" where
  "get_buddy bd block ord =
     (let base_offset = block - bd_base bd;
          modulus = length_of_order (ord + 1) * PAGE_SIZE;
          halfway_offset = length_of_order ord * PAGE_SIZE
      in if base_offset mod modulus = 0 then Inr (block + halfway_offset)
         else if base_offset mod modulus = halfway_offset then Inr (block - halfway_offset)
         else Inl InvalidBlock)"

section \<open>Release\<close>

text \<open>The coalescing loop: the block it ends with, its order and the lists.\<close>

function free_coalesce :: "nat \<Rightarrow> nat \<Rightarrow> nat \<Rightarrow> buddy \<Rightarrow> crash + nat \<times> nat \<times> buddy" where
  "free_coalesce block buddy_block ord bd =
     (if ord < bd_max_ord bd \<and> is_avail bd buddy_block ord
      then let bd = list_del bd buddy_block;
               ord = ord + 1;
               block = (if buddy_block < block then buddy_block else block)
           in (case get_buddy bd block ord of
                 Inl c \<Rightarrow> Inl c
               | Inr buddy_block \<Rightarrow> free_coalesce block buddy_block ord bd)
      else Inr (block, ord, bd))"
  by pat_completeness auto
termination
  by (relation "measure (\<lambda>(_, _, ord, bd). bd_max_ord bd - ord)") (auto simp: list_del_def)

declare free_coalesce.simps [simp del]

definition buddy_free_raw :: "buddy \<Rightarrow> nat \<Rightarrow> nat \<Rightarrow> crash + buddy" where
  "buddy_free_raw bd addr ord =
     (if addr = 0 then Inr bd
      else if ord > bd_max_ord bd then Inr bd
      else if is_avail bd addr ord then Inl DoubleFree
      else (case get_buddy bd addr ord of
              Inl c \<Rightarrow> Inl c
            | Inr buddy_block \<Rightarrow>
                (case free_coalesce addr buddy_block ord bd of
                   Inl c \<Rightarrow> Inl c
                 | Inr (block, ord, bd) \<Rightarrow>
                     let bd = set_ord bd block ord;
                         bd = set_avail bd block ord
                     in Inr (list_add bd ord block))))"

section \<open>The interface in bytes\<close>

definition size_order :: "u64 \<Rightarrow> nat" where
  "size_order n_bytes = order_of (min_power_of_two_geq (align_up n_bytes (of_nat PAGE_SIZE)) div of_nat PAGE_SIZE)"

definition buddy_alloc :: "buddy \<Rightarrow> u64 \<Rightarrow> (nat \<times> u64) option \<times> buddy" where
  "buddy_alloc bd n_bytes =
     (case buddy_alloc_raw bd (size_order n_bytes) of
        (None, bd) \<Rightarrow> (None, bd)
      | (Some mem, bd) \<Rightarrow> (Some (mem, n_bytes), bd))"

definition buddy_free :: "buddy \<Rightarrow> nat \<times> u64 \<Rightarrow> crash + buddy" where
  "buddy_free bd ba = buddy_free_raw bd (fst ba) (size_order (snd ba))"

definition buddy_stats_get :: "buddy \<Rightarrow> nat \<times> nat" where
  "buddy_stats_get bd =
     (length_of_order (bd_max_ord bd),
      \<Sum>i\<leftarrow>[0..<Suc (bd_max_ord bd)]. length (bd_avail bd i) * length_of_order i)"

section \<open>The kernel's allocator\<close>

definition kvalloc_alloc :: "buddy \<Rightarrow> u64 \<Rightarrow> (nat \<times> u64) option \<times> buddy" where
  "kvalloc_alloc bd n_bytes = buddy_alloc bd (align_up n_bytes (of_nat PAGE_SIZE))"

definition kvalloc_free :: "buddy \<Rightarrow> nat \<times> u64 \<Rightarrow> crash + buddy" where
  "kvalloc_free bd ba =
     (if fst ba = 0 then Inr bd else buddy_free bd (fst ba, align_up (snd ba) (of_nat PAGE_SIZE)))"

section \<open>Reading the bitmap\<close>

definition bm :: "(nat \<Rightarrow> u8) \<Rightarrow> nat \<Rightarrow> bool" where
  "bm dat i \<longleftrightarrow> bit (dat (i div BYTE_WIDTH)) (i mod BYTE_WIDTH)"

lemma bit_test: "k < 8 \<Longrightarrow> (w AND push_bit k 1 \<noteq> (0::u8)) = bit w k"
proof -
  assume k: "k < 8"
  have b: "bit (w AND push_bit k 1) n = (n = k \<and> bit w k)" if "n < 8" for n
    using that by (auto simp: bit_and_iff bit_exp_iff)
  show ?thesis
  proof
    assume "w AND push_bit k 1 \<noteq> 0"
    then show "bit w k" using b word_bits_eqI [of "w AND push_bit k 1" 0] by fastforce
  next
    assume "bit w k"
    then have "bit (w AND push_bit k 1) k" using b k by simp
    then show "w AND push_bit k 1 \<noteq> 0" by (metis bit_0_eq bot_apply bot_bool_def)
  qed
qed

lemma bm_set_bit_at: "v \<in> {0, 1} \<Longrightarrow> bm (set_bit_at v i dat) j = (if j = i then v = 1 else bm dat j)"
proof -
  assume v: "v \<in> {0, 1}"
  have r: "j mod 8 < 8" "i mod 8 < 8" by simp_all
  have eq: "j = i \<longleftrightarrow> j div 8 = i div 8 \<and> j mod 8 = i mod 8" by (metis div_mult_mod_eq)
  show ?thesis
  proof (cases "j div 8 = i div 8")
    case True
    then show ?thesis using v r
      by (auto simp: bm_def set_bit_at_def Let_def eq bit_or_iff bit_and_iff bit_not_iff bit_push_bit_iff bit_1_iff bit_exp_iff)
  qed (auto simp: bm_def set_bit_at_def Let_def)
qed

lemma bm_fold: "v \<in> {0, 1} \<Longrightarrow> bm (fold (set_bit_at v) is dat) j = (if j \<in> set is then v = 1 else bm dat j)"
  by (induction "is" arbitrary: dat) (auto simp: bm_set_bit_at)

lemma is_avail_iff:
  "is_avail bd addr ord \<longleftrightarrow> (\<forall>i. bit_idx_of bd addr \<le> i \<and> i < bit_idx_of bd addr + 2 ^ ord \<longrightarrow> bm (bd_bitmap bd) i)"
  unfolding is_avail_def Let_def list_all_iff bm_def length_of_order_def using bit_test by (auto simp: set_upt)

lemma bm_set_avail: "bm (bd_bitmap (set_avail bd addr ord)) i \<longleftrightarrow>
    bit_idx_of bd addr \<le> i \<and> i < bit_idx_of bd addr + 2 ^ ord \<or> bm (bd_bitmap bd) i"
  by (auto simp: set_avail_def set_bitmap_def Let_def bm_fold length_of_order_def)

lemma bm_set_not_avail: "bm (bd_bitmap (set_not_avail bd addr ord)) i \<longleftrightarrow>
    \<not> (bit_idx_of bd addr \<le> i \<and> i < bit_idx_of bd addr + 2 ^ ord) \<and> bm (bd_bitmap bd) i"
  by (auto simp: set_not_avail_def set_bitmap_def Let_def bm_fold length_of_order_def)

lemma buddy_fields [simp]:
  "bd_avail (set_avail bd addr ord) = bd_avail bd" "bd_max_ord (set_avail bd addr ord) = bd_max_ord bd"
  "bd_base (set_avail bd addr ord) = bd_base bd" "bd_bitmap_len (set_avail bd addr ord) = bd_bitmap_len bd"
  "bd_avail (set_not_avail bd addr ord) = bd_avail bd" "bd_max_ord (set_not_avail bd addr ord) = bd_max_ord bd"
  "bd_base (set_not_avail bd addr ord) = bd_base bd" "bd_bitmap_len (set_not_avail bd addr ord) = bd_bitmap_len bd"
  "bd_avail (set_ord bd addr ord) = bd_avail bd" "bd_max_ord (set_ord bd addr ord) = bd_max_ord bd"
  "bd_base (set_ord bd addr ord) = bd_base bd" "bd_bitmap_len (set_ord bd addr ord) = bd_bitmap_len bd"
  "bd_bitmap (set_ord bd addr ord) = bd_bitmap bd"
  "bd_bitmap (list_add bd ord addr) = bd_bitmap bd" "bd_max_ord (list_add bd ord addr) = bd_max_ord bd"
  "bd_base (list_add bd ord addr) = bd_base bd" "bd_bitmap_len (list_add bd ord addr) = bd_bitmap_len bd"
  "bd_bitmap (list_del bd addr) = bd_bitmap bd" "bd_max_ord (list_del bd addr) = bd_max_ord bd"
  "bd_base (list_del bd addr) = bd_base bd" "bd_bitmap_len (list_del bd addr) = bd_bitmap_len bd"
  "bd_avail (list_add bd ord addr) = (bd_avail bd)(ord := addr # bd_avail bd ord)"
  "bd_avail (list_del bd addr) = (\<lambda>ord. remove1 addr (bd_avail bd ord))"
  by (simp_all add: set_avail_def set_not_avail_def set_bitmap_def set_ord_def list_add_def list_del_def Let_def)

section \<open>The invariant\<close>

text \<open>
  \<open>A\<close> is the set of blocks handed out. The free lists hold the addresses of the free blocks; free and allocated blocks tile the
  region; no free block's buddy is free.
\<close>

definition page_addr :: "buddy \<Rightarrow> nat \<Rightarrow> nat" where
  "page_addr bd a = bd_base bd + a * PAGE_SIZE"

definition free_blks :: "buddy \<Rightarrow> blk set" where
  "free_blks bd = {(a, k). page_addr bd a \<in> set (bd_avail bd k)}"

definition lists_ok :: "buddy \<Rightarrow> bool" where
  "lists_ok bd \<longleftrightarrow> 0 < bd_base bd \<and> 2 ^ bd_max_ord bd \<le> bd_bitmap_len bd * BYTE_WIDTH \<and>
     (\<forall>k. distinct (bd_avail bd k) \<and> (\<forall>p \<in> set (bd_avail bd k). \<exists>a. p = page_addr bd a))"

definition blocks_ok :: "blk set \<Rightarrow> buddy \<Rightarrow> bool" where
  "blocks_ok A bd \<longleftrightarrow> lists_ok bd \<and> free_blks bd \<inter> A = {} \<and> tiles (bd_max_ord bd) (free_blks bd \<union> A) \<and>
     coalesced (bd_max_ord bd) (free_blks bd)"

definition bits_ok :: "nat set \<Rightarrow> buddy \<Rightarrow> bool" where
  "bits_ok S bd \<longleftrightarrow> (\<forall>x < 2 ^ bd_max_ord bd. x \<notin> S \<longrightarrow> bm (bd_bitmap bd) x = (\<exists>b \<in> free_blks bd. inb x b))"

definition buddy_ok :: "blk set \<Rightarrow> buddy \<Rightarrow> bool" where
  "buddy_ok A bd \<longleftrightarrow> blocks_ok A bd \<and> (A \<noteq> {} \<longrightarrow> bits_ok {} bd)"

lemma page_addr_inj [simp]: "page_addr bd a = page_addr bd b \<longleftrightarrow> a = b"
  by (simp add: page_addr_def)

lemma bit_idx_page [simp]: "bit_idx_of bd (page_addr bd a) = a"
  by (simp add: bit_idx_of_def page_addr_def)

end
