(* ===== verification/Buddy_Inv.thy ===== *)
theory Buddy_Inv
  imports Buddy
begin

text \<open>
  Every operation of the buddy allocator keeps its invariant. A block the code holds while it splits or coalesces counts as
  allocated.
\<close>

lemma page_addr_fields [simp]:
  "page_addr (set_avail bd p k) = page_addr bd" "page_addr (set_not_avail bd p k) = page_addr bd"
  "page_addr (set_ord bd p k) = page_addr bd" "page_addr (list_add bd k p) = page_addr bd"
  "page_addr (list_del bd p) = page_addr bd"
  by (auto simp: page_addr_def fun_eq_iff)

lemma free_blks_fields [simp]:
  "free_blks (set_avail bd p k) = free_blks bd" "free_blks (set_not_avail bd p k) = free_blks bd"
  "free_blks (set_ord bd p k) = free_blks bd"
  "free_blks (list_add bd k (page_addr bd a)) = insert (a, k) (free_blks bd)"
  by (auto simp: free_blks_def split: if_splits)

lemma blocks_ok_fields [simp]:
  "blocks_ok A (set_avail bd p k) = blocks_ok A bd" "blocks_ok A (set_not_avail bd p k) = blocks_ok A bd"
  "blocks_ok A (set_ord bd p k) = blocks_ok A bd"
  by (simp_all add: blocks_ok_def lists_ok_def)

section \<open>Splitting and merging\<close>

lemma blocks_tiles:
  assumes "blocks_ok A bd"
  shows "tiles (bd_max_ord bd) (free_blks bd \<union> A)" "free_blks bd \<inter> A = {}" "coalesced (bd_max_ord bd) (free_blks bd)" "lists_ok bd"
  using assms by (simp_all add: blocks_ok_def)

text \<open>Two blocks of the tiling that start at the same page are the same.\<close>

lemma same_start: "\<lbrakk>blocks_ok A bd; (a, j) \<in> free_blks bd \<union> A; (a, k) \<in> free_blks bd \<union> A\<rbrakk> \<Longrightarrow> j = k"
  using tiles_unique [OF blocks_tiles(1), of A bd "(a, j)" "(a, k)" a] by simp

lemma free_blks_del:
  assumes "blocks_ok A bd" "(a, k) \<in> free_blks bd"
  shows "free_blks (list_del bd (page_addr bd a)) = free_blks bd - {(a, k)}"
proof -
  have d: "distinct (bd_avail bd j)" for j using blocks_tiles(4) [OF assms(1)] by (simp add: lists_ok_def)
  have "(a, j) \<notin> free_blks bd" if "j \<noteq> k" for j using same_start [OF assms(1)] assms(2) that by blast
  then show ?thesis using assms(2) by (auto simp: free_blks_def set_remove1_eq [OF d])
qed

lemma lists_ok_del: "lists_ok bd \<Longrightarrow> lists_ok (list_del bd p)"
  by (auto simp: lists_ok_def dest: notin_set_remove1)

lemma lists_ok_add: "\<lbrakk>lists_ok bd; (a, k) \<notin> free_blks bd\<rbrakk> \<Longrightarrow> lists_ok (list_add bd k (page_addr bd a))"
  by (auto simp: lists_ok_def free_blks_def)

lemma coalesced_mono: "\<lbrakk>coalesced m F; G \<subseteq> F\<rbrakk> \<Longrightarrow> coalesced m G"
  by (auto simp: coalesced_def)

lemma blocks_ok_take:
  assumes "blocks_ok A bd" "(a, k) \<in> free_blks bd"
  shows "blocks_ok (insert (a, k) A) (list_del bd (page_addr bd a))"
proof -
  note t = blocks_tiles [OF assms(1)]
  have "free_blks bd - {(a, k)} \<union> insert (a, k) A = free_blks bd \<union> A" using assms(2) by blast
  then show ?thesis
    using t assms(2) lists_ok_del [OF t(4)] coalesced_mono [OF t(3)]
    by (simp add: blocks_ok_def free_blks_del [OF assms]) blast
qed

lemma overlap_not_free:
  assumes "blocks_ok A bd" "(a, k) \<in> A" "inb x (a, k)" "inb x b"
  shows "b \<notin> free_blks bd"
  using tiles_unique [OF blocks_tiles(1) [OF assms(1)], of b "(a, k)" x] assms blocks_tiles(2) [OF assms(1)] by blast

lemma bud_sym: "2 ^ k dvd a \<Longrightarrow> bud (bud a k) k = a \<and> 2 ^ k dvd bud a k"
  by (rule buddy_cases; auto intro: dvd_trans [OF le_imp_power_dvd])

lemma blocks_ok_split:
  assumes "blocks_ok (insert (a, Suc k) A) bd" "(a, Suc k) \<notin> A"
  shows "blocks_ok (insert (a, k) A) (list_add bd k (page_addr bd (a + 2 ^ k)))" "(a, k) \<notin> A"
proof -
  let ?m = "bd_max_ord bd" and ?F = "free_blks bd" and ?r = "(a + 2 ^ k, k)"
  note t = blocks_tiles [OF assms(1)]
  have ok: "blk_ok ?m (a, Suc k)" using t(1) by (rule tiles_ok) simp
  then have d: "2 ^ Suc k dvd a" by (simp add: blk_ok_def)
  have h: "inb a (a, Suc k)" "inb (a + 2 ^ k) (a, Suc k)" using inb_halves [OF d] by auto
  have f: "(a, k) \<notin> ?F" "?r \<notin> ?F" "(a, k) \<notin> A" "?r \<notin> A"
    using overlap_not_free [OF assms(1)] h same_start [OF assms(1), of a k "Suc k"]
      tiles_unique [OF t(1), of ?r "(a, Suc k)" "a + 2 ^ k"] by auto
  have eq: "?F \<union> insert (a, Suc k) A = insert (a, Suc k) (?F \<union> A)" by blast
  have n: "(a, Suc k) \<notin> ?F \<union> A" using t(2) assms(2) by blast
  have "tiles ?m (insert ?r ?F \<union> insert (a, k) A)"
    using tiles_split [OF t(1) [unfolded eq] n] by (simp add: insert_commute)
  moreover have "coalesced ?m (insert ?r ?F)"
  proof -
    have "bud (a + 2 ^ k) k = a" using d by (auto simp: bud_def dvd_add_right_iff intro: buddy_cases [of k a])
    moreover have "bud x k \<noteq> a + 2 ^ k" if "(x, k) \<in> ?F" for x
    proof
      assume "bud x k = a + 2 ^ k"
      moreover have "2 ^ k dvd x" using tiles_ok [OF t(1), of "(x, k)"] that by (simp add: blk_ok_def)
      ultimately have "x = a" using bud_sym \<open>bud (a + 2 ^ k) k = a\<close> by metis
      with f(1) that show False by simp
    qed
    ultimately show ?thesis using t(3) f(1) by (auto simp: coalesced_def)
  qed
  ultimately show "blocks_ok (insert (a, k) A) (list_add bd k (page_addr bd (a + 2 ^ k)))"
    using t f lists_ok_add [OF t(4) f(2)] by (auto simp: blocks_ok_def)
  show "(a, k) \<notin> A" by (rule f)
qed

lemma bud_pair:
  assumes "2 ^ k dvd a"
  defines "lo \<equiv> min a (bud a k)"
  shows "2 ^ Suc k dvd lo" "{(a, k), (bud a k, k)} = {(lo, k), (lo + 2 ^ k, k)}"
proof -
  have "2 ^ Suc k dvd lo \<and> {(a, k), (bud a k, k)} = {(lo, k), (lo + 2 ^ k, k)}"
  proof (rule buddy_cases [OF assms(1)])
    assume "2 ^ Suc k dvd a" "bud a k = a + 2 ^ k"
    then show ?thesis unfolding lo_def by simp
  next
    fix c assume "a = c + 2 ^ k" "2 ^ Suc k dvd c" "bud a k = c"
    moreover from this have "lo = c" by (simp add: lo_def)
    ultimately show ?thesis by auto
  qed
  then show "2 ^ Suc k dvd lo" "{(a, k), (bud a k, k)} = {(lo, k), (lo + 2 ^ k, k)}" by simp_all
qed

lemma blocks_ok_merge:
  assumes "blocks_ok (insert (a, k) A) bd" "(a, k) \<notin> A" "k < bd_max_ord bd" "(bud a k, k) \<in> free_blks bd"
  shows "blocks_ok (insert (min a (bud a k), Suc k) A) (list_del bd (page_addr bd (bud a k)))" "(min a (bud a k), Suc k) \<notin> A"
proof -
  let ?m = "bd_max_ord bd" and ?F = "free_blks bd" and ?lo = "min a (bud a k)"
  note t = blocks_tiles [OF assms(1)]
  have "blk_ok ?m (a, k)" using t(1) by (rule tiles_ok) simp
  then have d: "2 ^ k dvd a" by (simp add: blk_ok_def)
  note p = bud_pair [OF d]
  let ?B = "(?F - {(bud a k, k)}) \<union> A"
  have eq: "?F \<union> insert (a, k) A = insert (?lo, k) (insert (?lo + 2 ^ k, k) ?B)"
  proof -
    have "?F \<union> insert (a, k) A = {(a, k), (bud a k, k)} \<union> ?B" using assms(4) by blast
    then show ?thesis unfolding p(2) by simp
  qed
  have "(a, k) \<notin> ?F" using t(2) by blast
  moreover have "(bud a k, k) \<notin> A" using t(2) assms(4) by blast
  ultimately have "{(a, k), (bud a k, k)} \<inter> ?B = {}" using assms(2) by blast
  then have n: "(?lo, k) \<notin> ?B" "(?lo + 2 ^ k, k) \<notin> ?B" unfolding p(2) by simp_all
  have tm: "tiles ?m (insert (?lo, Suc k) ?B)" by (rule tiles_merge [OF t(1) [unfolded eq] p(1) assms(3) n])
  have "(?lo, Suc k) \<notin> ?F \<union> insert (a, k) A"
    using tiles_unique [OF t(1) [unfolded eq], of "(?lo, Suc k)" "(?lo, k)" ?lo] eq by auto
  then have f: "(?lo, Suc k) \<notin> ?F" "(?lo, Suc k) \<notin> A" by blast+
  show "(?lo, Suc k) \<notin> A" by (rule f)
  show "blocks_ok (insert (?lo, Suc k) A) (list_del bd (page_addr bd (bud a k)))"
    using t f tm lists_ok_del [OF t(4)] coalesced_mono [OF t(3), of "?F - {(bud a k, k)}"]
    by (auto simp: blocks_ok_def free_blks_del [OF assms(1,4)])
qed

lemma blocks_ok_release:
  assumes "blocks_ok (insert (a, k) A) bd" "(a, k) \<notin> A" "k = bd_max_ord bd \<or> (bud a k, k) \<notin> free_blks bd"
  shows "blocks_ok A (list_add bd k (page_addr bd a))"
proof -
  let ?m = "bd_max_ord bd" and ?F = "free_blks bd"
  note t = blocks_tiles [OF assms(1)]
  have f: "(a, k) \<notin> ?F" using t(2) by blast
  have "blk_ok ?m (a, k)" using t(1) by (rule tiles_ok) simp
  then have d: "2 ^ k dvd a" by (simp add: blk_ok_def)
  have "bud x k \<noteq> a" if "(x, k) \<in> ?F" "k < ?m" for x
  proof
    assume "bud x k = a"
    moreover have "2 ^ k dvd x" using tiles_ok [OF t(1), of "(x, k)"] that by (simp add: blk_ok_def)
    ultimately have "x = bud a k" using bud_sym [of k x] by simp
    with that assms(3) show False by simp
  qed
  moreover have "bud a k \<noteq> a" by (rule buddy_cases [OF d]) auto
  ultimately have "coalesced ?m (insert (a, k) ?F)" using t(3) assms(3) by (auto simp: coalesced_def)
  moreover have "insert (a, k) ?F \<union> A = ?F \<union> insert (a, k) A" by blast
  ultimately show ?thesis using t f assms(2) lists_ok_add [OF t(4) f] by (auto simp: blocks_ok_def)
qed

section \<open>The bitmap follows the free lists\<close>

lemma inb_range: "blk_ok m (a, k) \<Longrightarrow> (a \<le> x \<and> x < a + 2 ^ k) = inb x (a, k)"
  by (simp add: inb_iff blk_ok_def)

lemma bits_ok_take:
  assumes "blocks_ok A bd" "bits_ok {} bd \<or> (\<forall>x < 2 ^ bd_max_ord bd. inb x (a, k))" "(a, k) \<in> free_blks bd"
  shows "bits_ok {} (list_del (set_not_avail bd (page_addr bd a) k) (page_addr bd a))"
proof -
  note t = blocks_tiles [OF assms(1)]
  let ?bd = "set_not_avail bd (page_addr bd a) k"
  have ok: "blk_ok (bd_max_ord bd) (a, k)" using tiles_ok [OF t(1)] assms(3) by blast
  have del: "free_blks (list_del ?bd (page_addr bd a)) = free_blks bd - {(a, k)}"
    using free_blks_del [of A ?bd a k] assms(1,3) by simp
  have "(\<exists>b\<in>free_blks bd - {(a, k)}. inb x b) \<longleftrightarrow> \<not> inb x (a, k) \<and> (\<exists>b\<in>free_blks bd. inb x b)" for x
    using tiles_unique [OF t(1), of _ "(a, k)" x] assms(3) by blast
  then show ?thesis
    using assms(2) by (auto simp: bits_ok_def del bm_set_not_avail inb_range [OF ok])
qed

lemma bits_ok_add:
  assumes "blk_ok (bd_max_ord bd) (a, k)" "bits_ok S bd"
  shows "bits_ok (S - {x. inb x (a, k)}) (list_add (set_ord (set_avail bd (page_addr bd a) k) p j) k (page_addr bd a))"
proof -
  let ?bd = "set_ord (set_avail bd (page_addr bd a) k) p j"
  have "free_blks (list_add ?bd k (page_addr bd a)) = insert (a, k) (free_blks bd)"
    using free_blks_fields(4) [of ?bd k a] by simp
  then show ?thesis using assms(2) by (auto simp: bits_ok_def bm_set_avail inb_range [OF assms(1)])
qed

section \<open>With nothing allocated there is one free block\<close>

lemma free_single:
  assumes "blocks_ok {} bd"
  shows "free_blks bd = {(0, bd_max_ord bd)}"
proof -
  let ?m = "bd_max_ord bd" and ?F = "free_blks bd"
  have t: "tiles ?m ?F" "coalesced ?m ?F" using blocks_tiles(1,3) [OF assms] by simp_all
  have r: "blk_ok ?m (0, ?m)" by (simp add: blk_ok_def)
  have "(0, ?m) \<in> ?F"
    by (rule free_region [OF t(1) _ t(2) r])
      (use t(1) tiles_cover [OF t(1)] inb_less [OF r] tiles_ok [OF t(1)] in \<open>auto simp: blk_ok_def\<close>)
  moreover have "b = (0, ?m)" if "b \<in> ?F" for b
  proof -
    have "fst b < 2 ^ ?m" using tiles_ok [OF t(1) that] by (simp add: blk_ok_def)
    then have "inb (fst b) (0, ?m)" by (simp add: inb_def)
    then show ?thesis using tiles_unique [OF t(1) that \<open>(0, ?m) \<in> ?F\<close>, of "fst b"] by (simp add: inb_def)
  qed
  ultimately show ?thesis by blast
qed

section \<open>Allocation\<close>

lemma split_block_page: "split_block (page_addr bd a) k = page_addr bd (a + 2 ^ k)"
  by (simp add: split_block_def page_addr_def length_of_order_def algebra_simps)

lemma alloc_split_ok:
  assumes "blocks_ok (insert (a, ord) A) bd" "(a, ord) \<notin> A" "bits_ok {} bd" "req \<le> ord"
  shows "blocks_ok (insert (a, req) A) (alloc_split (page_addr bd a) ord req bd) \<and> (a, req) \<notin> A \<and>
    bits_ok {} (alloc_split (page_addr bd a) ord req bd) \<and> bd_max_ord (alloc_split (page_addr bd a) ord req bd) = bd_max_ord bd \<and>
    page_addr (alloc_split (page_addr bd a) ord req bd) = page_addr bd"
  using assms
proof (induction ord arbitrary: bd)
  case 0
  then show ?case by simp
next
  case (Suc k)
  show ?case
  proof (cases "Suc k > req")
    case True
    let ?r = "page_addr bd (a + 2 ^ k)"
    let ?bd = "list_add (set_ord (set_avail bd ?r k) ?r k) k ?r"
    have "blk_ok (bd_max_ord bd) (a, Suc k)" using tiles_ok [OF blocks_tiles(1) [OF Suc.prems(1)]] by blast
    then have ok: "blk_ok (bd_max_ord bd) (a + 2 ^ k, k)" by (rule half_ok)
    have s: "blocks_ok (insert (a, k) A) ?bd" "(a, k) \<notin> A"
      using blocks_ok_split [of a k A "set_ord (set_avail bd ?r k) ?r k"] Suc.prems(1,2) by simp_all
    have b: "bits_ok {} ?bd" using bits_ok_add [OF ok Suc.prems(3), of ?r k] by simp
    show ?thesis using Suc.IH [OF s b] True by (simp add: split_block_page Let_def)
  next
    case False
    then have "req = Suc k" using Suc.prems(4) by simp
    then show ?thesis using Suc.prems by simp
  qed
qed

lemma alloc_split_same [simp]: "alloc_split ret k k bd = bd"
  by (cases k) simp_all

lemma avail_page:
  assumes "lists_ok bd" "bd_avail bd k \<noteq> []"
  obtains a where "hd (bd_avail bd k) = page_addr bd a" "(a, k) \<in> free_blks bd"
proof -
  have h: "hd (bd_avail bd k) \<in> set (bd_avail bd k)" using assms(2) by simp
  then obtain a where "hd (bd_avail bd k) = page_addr bd a" using assms(1) unfolding lists_ok_def by blast
  with h that show thesis by (simp add: free_blks_def)
qed

lemma buddy_alloc_raw_ok:
  assumes "buddy_ok A bd" "buddy_alloc_raw bd req = (Some p, bd')"
  obtains a where "p = page_addr bd a" "(a, req) \<notin> A" "buddy_ok (insert (a, req) A) bd'"
    "bd_max_ord bd' = bd_max_ord bd" "page_addr bd' = page_addr bd"
proof -
  have inv: "blocks_ok A bd" using assms(1) by (simp add: buddy_ok_def)
  obtain ord where o: "first_index (\<lambda>ord. bd_avail bd ord \<noteq> []) req (Suc (bd_max_ord bd)) = Some ord" "req \<le> bd_max_ord bd"
    using assms(2) by (auto simp: buddy_alloc_raw_def split: if_splits option.splits)
  have "req \<le> ord" "bd_avail bd ord \<noteq> []" using first_index_Some [OF o(1)] by auto
  then obtain a where a: "hd (bd_avail bd ord) = page_addr bd a" "(a, ord) \<in> free_blks bd"
    using avail_page [OF blocks_tiles(4) [OF inv]] by blast
  let ?bd = "list_del (set_not_avail bd (page_addr bd a) ord) (page_addr bd a)"
  have bits: "bits_ok {} bd \<or> (\<forall>x < 2 ^ bd_max_ord bd. inb x (a, ord))"
  proof (cases "A = {}")
    case True
    then have "(a, ord) = (0, bd_max_ord bd)" using free_single [of bd] inv a(2) by auto
    then show ?thesis by (simp add: inb_def)
  qed (use assms(1) in \<open>simp add: buddy_ok_def\<close>)
  have take: "blocks_ok (insert (a, ord) A) ?bd"
    using blocks_ok_take [of A "set_not_avail bd (page_addr bd a) ord" a ord] inv a(2) by simp
  have n: "(a, ord) \<notin> A" using blocks_tiles(2) [OF inv] a(2) by blast
  have r: "p = page_addr bd a" "bd' = alloc_split (page_addr bd a) ord req ?bd"
    using assms(2) o a(1) \<open>req \<le> ord\<close> by (auto simp: buddy_alloc_raw_def Let_def split: if_splits)
  have "blocks_ok (insert (a, req) A) bd' \<and> (a, req) \<notin> A \<and> bits_ok {} bd' \<and> bd_max_ord bd' = bd_max_ord bd \<and>
      page_addr bd' = page_addr bd"
    using alloc_split_ok [OF take n bits_ok_take [OF inv bits a(2)] \<open>req \<le> ord\<close>] r by simp
  then show thesis using that [OF r(1)] by (simp add: buddy_ok_def)
qed

text \<open>Allocation fails only when no free block is large enough.\<close>

lemma buddy_alloc_raw_None:
  assumes "buddy_ok A bd" "buddy_alloc_raw bd req = (None, bd')"
  shows "bd' = bd" "\<And>a k. (a, k) \<in> free_blks bd \<Longrightarrow> k < req"
proof -
  show "bd' = bd" using assms(2) by (auto simp: buddy_alloc_raw_def Let_def split: if_splits option.splits)
  fix a k assume f: "(a, k) \<in> free_blks bd"
  have "k \<le> bd_max_ord bd" using tiles_ok [OF blocks_tiles(1), of A bd "(a, k)"] f assms(1)
    by (simp add: buddy_ok_def blk_ok_def)
  moreover have "bd_avail bd k \<noteq> []" using f by (auto simp: free_blks_def)
  ultimately show "k < req"
    using assms(2) linorder_not_le [of req k] by (auto simp: buddy_alloc_raw_def Let_def first_index_None_iff split: if_splits option.splits)
qed

section \<open>Release\<close>

lemma get_buddy_page:
  assumes "2 ^ k dvd a"
  shows "get_buddy bd (page_addr bd a) k = Inr (page_addr bd (bud a k))"
proof -
  have m: "a * 4096 mod (2 ^ (k + 1) * 4096) = (a mod 2 ^ Suc k) * 4096" by (simp add: mult_mod_left)
  show ?thesis
  proof (rule buddy_cases [OF assms])
    assume "2 ^ Suc k dvd a" "bud a k = a + 2 ^ k"
    then show ?thesis using m by (simp add: get_buddy_def Let_def page_addr_def length_of_order_def algebra_simps mod_0_imp_dvd)
  next
    fix c assume c: "a = c + 2 ^ k" "2 ^ Suc k dvd c" "bud a k = c"
    have "a mod 2 ^ Suc k = 2 ^ k" using c(1,2) by (auto simp: mod_add_left_eq elim!: dvdE)
    then show ?thesis using m c(1,3) by (simp add: get_buddy_def Let_def page_addr_def length_of_order_def algebra_simps)
  qed
qed

lemma bud_ok:
  assumes "blk_ok m (a, k)" "k < m"
  shows "blk_ok m (bud a k, k)"
proof -
  have d: "2 ^ k dvd a" using assms(1) by (simp add: blk_ok_def)
  have "inb (bud a k) (0, m)" using inb_buddy [OF d assms(2), of 0] assms(1) by (simp add: inb_def blk_ok_def)
  then have "bud a k < 2 ^ m" by (simp add: inb_iff)
  then show ?thesis using bud_sym [OF d] assms(2) by (simp add: blk_ok_def)
qed

text \<open>The buddy of a held block is free as one block exactly when the bitmap says its pages are available.\<close>

lemma buddy_avail_iff:
  assumes "blocks_ok (insert (a, k) A) bd" "bits_ok {x. inb x (a, k)} bd" "k < bd_max_ord bd"
  shows "is_avail bd (page_addr bd (bud a k)) k \<longleftrightarrow> (bud a k, k) \<in> free_blks bd"
proof -
  let ?m = "bd_max_ord bd" and ?F = "free_blks bd"
  note t = blocks_tiles [OF assms(1)]
  have ok: "blk_ok ?m (a, k)" using t(1) by (rule tiles_ok) simp
  then have d: "2 ^ k dvd a" by (simp add: blk_ok_def)
  have bok: "blk_ok ?m (bud a k, k)" by (rule bud_ok [OF ok assms(3)])
  have dis: "\<not> inb x (a, k)" if "inb x (bud a k, k)" for x
    using buddy_cases [OF d] that inb_halves(2) [of k] by metis
  have av: "is_avail bd (page_addr bd (bud a k)) k \<longleftrightarrow> (\<forall>x. inb x (bud a k, k) \<longrightarrow> (\<exists>b\<in>?F. inb x b))"
    unfolding is_avail_iff bit_idx_page inb_range [OF bok] using assms(2) dis inb_less [OF bok] by (auto simp: bits_ok_def)
  show ?thesis
  proof
    assume "is_avail bd (page_addr bd (bud a k)) k"
    then have all: "\<And>x. inb x (bud a k, k) \<Longrightarrow> \<exists>b\<in>?F. inb x b" using av by blast
    have small: "j \<le> k" if "(b, j) \<in> ?F" "inb (bud a k) (b, j)" for b j
    proof (rule ccontr)
      assume "\<not> j \<le> k"
      then have "inb a (b, j)" using inb_of_buddy [OF d _ that(2)] by simp
      then show False using overlap_not_free [OF assms(1), of a k a "(b, j)"] that(1) by simp
    qed
    show "(bud a k, k) \<in> ?F" by (rule free_region [OF t(1) _ t(3) bok all small]) auto
  qed (use av in blast)
qed

lemma free_coalesce_ok:
  assumes "blocks_ok (insert (a, k) A) bd" "(a, k) \<notin> A" "bits_ok {x. inb x (a, k)} bd"
  shows "\<exists>a' k' bd'. free_coalesce (page_addr bd a) (page_addr bd (bud a k)) k bd = Inr (page_addr bd a', k', bd') \<and>
    blocks_ok (insert (a', k') A) bd' \<and> (a', k') \<notin> A \<and> bits_ok {x. inb x (a', k')} bd' \<and>
    (k' = bd_max_ord bd' \<or> (bud a' k', k') \<notin> free_blks bd') \<and> bd_max_ord bd' = bd_max_ord bd \<and> page_addr bd' = page_addr bd"
  using assms
proof (induction "bd_max_ord bd - k" arbitrary: a k bd)
  case 0
  have "k \<le> bd_max_ord bd" using tiles_ok [OF blocks_tiles(1) [OF 0(2)], of "(a, k)"] by (simp add: blk_ok_def)
  with 0 have "k = bd_max_ord bd" by simp
  with 0 show ?case by (subst free_coalesce.simps) auto
next
  case (Suc n)
  have m: "k < bd_max_ord bd" using Suc(2) by simp
  note av = buddy_avail_iff [OF Suc(3,5) m]
  show ?case
  proof (cases "(bud a k, k) \<in> free_blks bd")
    case False
    with av Suc(3-5) show ?thesis by (subst free_coalesce.simps) auto
  next
    case True
    let ?lo = "min a (bud a k)" and ?bd = "list_del bd (page_addr bd (bud a k))"
    have ok: "blk_ok (bd_max_ord bd) (a, k)" using tiles_ok [OF blocks_tiles(1) [OF Suc(3)]] by blast
    then have d: "2 ^ k dvd a" by (simp add: blk_ok_def)
    note mg = blocks_ok_merge [OF Suc(3,4) m True]
    have p: "2 ^ Suc k dvd ?lo" "{(a, k), (bud a k, k)} = {(?lo, k), (?lo + 2 ^ k, k)}" by (rule bud_pair [OF d])+
    have h: "inb x (?lo, Suc k) \<longleftrightarrow> inb x (a, k) \<or> inb x (bud a k, k)" for x
      using inb_halves(1) [OF p(1), of x] p(2) by (metis insertE insertI1 insertI2 singletonD)
    have bits: "bits_ok {x. inb x (?lo, Suc k)} ?bd"
      using Suc(5) free_blks_del [OF Suc(3) True] h by (auto simp: bits_ok_def)
    have lt: "(if page_addr bd (bud a k) < page_addr bd a then page_addr bd (bud a k) else page_addr bd a) = page_addr bd ?lo"
      by (simp add: page_addr_def min_def)
    have g: "get_buddy ?bd (page_addr bd ?lo) (Suc k) = Inr (page_addr bd (bud ?lo (Suc k)))"
      using get_buddy_page [OF p(1), of ?bd] by simp
    have "free_coalesce (page_addr bd a) (page_addr bd (bud a k)) k bd =
        free_coalesce (page_addr bd ?lo) (page_addr bd (bud ?lo (Suc k))) (Suc k) ?bd"
      by (subst free_coalesce.simps) (use m av True g in \<open>simp add: Let_def lt\<close>)
    then show ?thesis using Suc(1) [of ?bd "Suc k" ?lo, OF _ mg bits] Suc(2) by simp
  qed
qed

end
