(* ===== verification/Buddy_Size.thy ===== *)
theory Buddy_Size
  imports Buddy
begin

text \<open>
  The size computations of the buddy allocator: the bit tricks compute the smallest power of two, and the order chosen
  for a size is the smallest whose blocks hold it.
\<close>

lemma unat_pow: "k < 64 \<Longrightarrow> unat (2 ^ k :: u64) = 2 ^ k"
proof -
  assume "k < 64"
  then have "(2::nat) ^ k < 2 ^ 64" by (intro power_strict_increasing) auto
  then show ?thesis using unat_shl [of "1::u64" k] by (simp add: push_bit_eq_mult)
qed

lemma pow_less: "(2::nat) ^ g < 2 ^ k \<Longrightarrow> g < k"
  using power_strict_increasing_iff [of "2::nat" g k] by simp

lemma unat_pow_less: "unat (n::u64) = 2 ^ g \<Longrightarrow> g < 64"
proof -
  assume n: "unat n = 2 ^ g"
  have "unat n < 2 ^ LENGTH(64)" by (rule unsigned_less)
  then show "g < 64" using pow_less [of g 64] n by simp
qed

lemma bit_unat: "bit (w::u64) k \<longleftrightarrow> k < 64 \<and> odd (unat w div 2 ^ k)"
proof -
  have "bit (unat w) k = bit w k" by (simp add: bit_unsigned_iff)
  then have "bit w k = odd (unat w div 2 ^ k)" unfolding bit_iff_odd [of "unat w"] by simp
  then show ?thesis using bit_imp_le_length [of w k] by auto
qed

text \<open>The highest bit of a word.\<close>

lemma top_bit:
  assumes "n \<noteq> (0::u64)"
  obtains h where "h < 64" "2 ^ h \<le> unat n" "unat n < 2 ^ Suc h" "bit n h" "\<forall>j. bit n j \<longrightarrow> j \<le> h"
proof -
  have n: "0 < unat n" using assms by (simp add: word_unat_eq_iff)
  obtain h where h: "2 ^ h \<le> unat n" "unat n < 2 ^ Suc h" using ex_power_ivl1 [of 2 "unat n"] n by auto
  have "unat n < 2 ^ 64" using unsigned_less [of n, where ?'a = nat] by simp
  then have "(2::nat) ^ h < 2 ^ 64" using h(1) by simp
  then have h64: "h < 64" by (rule pow_less)
  have "unat n div 2 ^ h = 1" using h by (auto intro!: div_nat_eqI)
  then have b: "bit n h" using h64 by (simp add: bit_unat)
  have "j \<le> h" if "bit n j" for j
  proof (rule ccontr)
    assume "\<not> j \<le> h"
    then have "(2::nat) ^ Suc h \<le> 2 ^ j" by (intro power_increasing) auto
    then have "unat n div 2 ^ j = 0" using h(2) by simp
    with that show False by (simp add: bit_unat)
  qed
  with that h h64 b show thesis by blast
qed

section \<open>Rounding up to a power of two\<close>

lemma smear_step: "(\<And>i. bit x i \<longleftrightarrow> (\<exists>j < s. bit n (i + j))) \<Longrightarrow> bit (x OR drop_bit s x) i \<longleftrightarrow> (\<exists>j<2 * s. bit n (i + j))"
  for x n :: u64
proof -
  assume x: "\<And>i. bit x i \<longleftrightarrow> (\<exists>j < s. bit n (i + j))"
  have "bit (x OR drop_bit s x) i \<longleftrightarrow> (\<exists>j < s. bit n (i + j)) \<or> (\<exists>j < s. bit n (i + (s + j)))"
    by (simp add: bit_or_iff bit_drop_bit_eq x add.assoc add.left_commute)
  also have "\<dots> \<longleftrightarrow> (\<exists>j<2 * s. bit n (i + j))"
  proof
    assume "\<exists>j<2 * s. bit n (i + j)"
    then obtain j where j: "j < 2 * s" "bit n (i + j)" by blast
    show "(\<exists>j < s. bit n (i + j)) \<or> (\<exists>j < s. bit n (i + (s + j)))"
    proof (cases "j < s")
      case False
      with j have "j - s < s" "bit n (i + (s + (j - s)))" by simp_all
      then show ?thesis by blast
    qed (use j in blast)
  next
    assume "(\<exists>j < s. bit n (i + j)) \<or> (\<exists>j < s. bit n (i + (s + j)))"
    then show "\<exists>j<2 * s. bit n (i + j)"
    proof (elim disjE exE conjE)
      fix j assume "j < s" "bit n (i + j)"
      then show ?thesis by (intro exI [of _ j]) simp
    next
      fix j assume "j < s" "bit n (i + (s + j))"
      then show ?thesis by (intro exI [of _ "s + j"]) simp
    qed
  qed
  finally show ?thesis .
qed

lemma smear: "bit (fold (\<lambda>shift n. n OR drop_bit shift n) [1, 2, 4, 8, 16, 32] (n::u64)) i \<longleftrightarrow> (\<exists>j<64. bit n (i + j))"
proof -
  let ?f = "\<lambda>shift n :: u64. n OR drop_bit shift n"
  have 0: "bit n i \<longleftrightarrow> (\<exists>j<1. bit n (i + j))" for i by simp
  have 1: "bit (?f 1 n) i \<longleftrightarrow> (\<exists>j<2. bit n (i + j))" for i using smear_step [OF 0] by (simp only: mult_1_right)
  have 2: "bit (?f 2 (?f 1 n)) i \<longleftrightarrow> (\<exists>j<4. bit n (i + j))" for i using smear_step [OF 1] by (simp only: numeral_times_numeral num.simps semiring_norm)
  have 3: "bit (?f 4 (?f 2 (?f 1 n))) i \<longleftrightarrow> (\<exists>j<8. bit n (i + j))" for i using smear_step [OF 2] by (simp only: numeral_times_numeral semiring_norm)
  have 4: "bit (?f 8 (?f 4 (?f 2 (?f 1 n)))) i \<longleftrightarrow> (\<exists>j<16. bit n (i + j))" for i using smear_step [OF 3] by (simp only: numeral_times_numeral semiring_norm)
  have 5: "bit (?f 16 (?f 8 (?f 4 (?f 2 (?f 1 n))))) i \<longleftrightarrow> (\<exists>j<32. bit n (i + j))" for i using smear_step [OF 4] by (simp only: numeral_times_numeral semiring_norm)
  have "bit (?f 32 (?f 16 (?f 8 (?f 4 (?f 2 (?f 1 n)))))) i \<longleftrightarrow> (\<exists>j<64. bit n (i + j))" using smear_step [OF 5] by (simp only: numeral_times_numeral semiring_norm)
  then show ?thesis by (simp only: fold.simps comp_apply id_apply)
qed

lemma pow2_test: "n \<noteq> 0 \<Longrightarrow> n AND (n - 1) = (0::u64) \<longleftrightarrow> (\<exists>h. unat n = 2 ^ h)"
proof -
  assume n: "n \<noteq> 0"
  then obtain h where h: "h < 64" "2 ^ h \<le> unat n" "unat n < 2 ^ Suc h" "bit n h" by (rule top_bit)
  have s: "unat (n - 1) = unat n - 1" using n by (intro unat_dec) (simp add: word_unat_eq_iff)
  show ?thesis
  proof
    assume z: "n AND (n - 1) = 0"
    have "\<not> bit (n AND (n - 1)) h" unfolding z by simp
    then have "\<not> bit (n - 1) h" using h(4) by (simp add: bit_and_iff)
    moreover have "(unat n - 1) div 2 ^ h = 1" if "2 ^ h \<le> unat n - 1" using h(3) that by (intro div_nat_eqI) auto
    ultimately have "\<not> 2 ^ h \<le> unat n - 1" using h(1) s by (auto simp: bit_unat)
    then have "unat n = 2 ^ h" using h(2) by simp
    then show "\<exists>h. unat n = 2 ^ h" by blast
  next
    assume "\<exists>h. unat n = 2 ^ h"
    then obtain g where g: "unat n = 2 ^ g" by blast
    have g64: "g < 64" by (rule unat_pow_less [OF g])
    have eq: "n = 2 ^ g" using g unat_pow [OF g64] by (simp add: word_unat_eq_iff)
    show "n AND (n - 1) = 0"
    proof (rule word_bits_eqI)
      fix k
      have "bit (n - 1) k \<longrightarrow> k < g"
        using mask_eq_exp_minus_1 [of g, where ?'a = u64] bit_mask_iff [where ?'a = u64] unfolding eq by metis
      then show "bit (n AND (n - 1)) k = bit 0 k" unfolding eq by (auto simp: bit_and_iff bit_exp_iff)
    qed
  qed
qed

lemma min_power_of_two_geq_eq:
  assumes "0 < unat n" "unat n \<le> 2 ^ 63"
  obtains t where "unat (min_power_of_two_geq n) = 2 ^ t" "unat n \<le> 2 ^ t" "2 ^ t < 2 * unat n" "t < 64"
proof -
  have nz: "n \<noteq> 0" using assms by auto
  obtain h where h: "h < 64" "2 ^ h \<le> unat n" "unat n < 2 ^ Suc h" "bit n h" "\<forall>j. bit n j \<longrightarrow> j \<le> h" using nz by (rule top_bit)
  show thesis
  proof (cases "n AND (n - 1) = 0")
    case True
    then obtain g where g: "unat n = 2 ^ g" using pow2_test [OF nz] by blast
    have "g < 64" by (rule unat_pow_less [OF g])
    then show thesis using that [of g] True nz g by (simp add: min_power_of_two_geq_def)
  next
    case False
    let ?s = "fold (\<lambda>shift n. n OR drop_bit shift n) [1, 2, 4, 8, 16, 32] n"
    have ne: "unat n \<noteq> 2 ^ h" using False pow2_test [OF nz] by blast
    have "(2::nat) ^ h < 2 ^ 63" using assms(2) h(2) ne by linarith
    then have h63: "h < 63" by (rule pow_less)
    have "bit ?s i \<longleftrightarrow> i < Suc h" if "i < 64" for i
    proof
      assume "bit ?s i"
      then obtain j where "bit n (i + j)" unfolding smear by blast
      from h(5) [rule_format, OF this] show "i < Suc h" by simp
    next
      assume "i < Suc h"
      then have "h - i < 64" "bit n (i + (h - i))" using h(1,4) by simp_all
      then show "bit ?s i" unfolding smear by blast
    qed
    then have "?s = mask (Suc h)" by (intro word_bits_eqI) (simp add: bit_mask_iff)
    then have "?s + 1 = 2 ^ Suc h" by (simp add: mask_eq_exp_minus_1)
    then have "unat (min_power_of_two_geq n) = 2 ^ Suc h"
      using False nz unat_pow [of "Suc h"] h63 by (simp only: min_power_of_two_geq_def if_False)
    moreover have "2 ^ Suc h < 2 * unat n" using h(2) ne by simp
    ultimately show thesis using that [of "Suc h"] h(3) h63 by simp
  qed
qed

section \<open>The order of a size\<close>

lemma order_of_pow: "unat w = 2 ^ k \<Longrightarrow> order_of w = k"
proof (induction k arbitrary: w)
  case 0
  then have "drop_bit 1 w = 0" by (simp add: word_unat_eq_iff unat_shr)
  then show ?case by (subst order_of.simps) simp
next
  case (Suc k)
  then have h: "unat (drop_bit 1 w) = 2 ^ k" by (simp add: unat_shr)
  then have "drop_bit 1 w \<noteq> 0" by auto
  then show ?case using Suc.IH [OF h] by (subst order_of.simps) simp
qed

lemma unat_align_down: "unat (w AND NOT (mask k)) = unat w div 2 ^ k * 2 ^ k" for w :: u64
proof -
  have "w AND NOT (mask k) = push_bit k (drop_bit k w)"
    by (rule word_bits_eqI) (auto simp: bit_and_iff bit_not_iff bit_mask_iff bit_push_bit_iff bit_drop_bit_eq)
  moreover have "unat w div 2 ^ k * 2 ^ k < 2 ^ LENGTH(64)"
    by (rule le_less_trans [OF div_times_less_eq_dividend unsigned_less])
  ultimately show ?thesis using unat_shl [of "drop_bit k w" k] by (simp only: unat_shr)
qed

lemma unat_align_up:
  assumes "unat v \<le> 2 ^ 62"
  shows "unat (align_up v 4096) = (unat v + 4095) div 4096 * 4096"
proof -
  have "unat (v + 4095) = unat v + 4095" using assms by (subst unat_add_lem [THEN iffD1]) simp_all
  moreover have "v + 4096 - 1 = v + 4095" by (simp add: algebra_simps)
  moreover have "(4096 - 1 :: u64) = mask 12" by (simp add: mask_eq_exp_minus_1)
  ultimately show ?thesis using unat_align_down [of "v + 4095" 12] by (simp only: align_up_def) simp
qed

text \<open>The order of a size is the smallest whose blocks hold it.\<close>

lemma size_order_le:
  assumes "0 < unat n" "unat n \<le> 2 ^ 62"
  shows "unat n \<le> 2 ^ size_order n * 4096" "0 < size_order n \<Longrightarrow> 2 ^ (size_order n - 1) * 4096 < unat n" "size_order n < 52"
proof -
  let ?p = "(unat n + 4095) div 4096" and ?r = "align_up n 4096"
  have r: "unat ?r = ?p * 4096" by (rule unat_align_up [OF assms(2)])
  have p: "0 < ?p" "unat n \<le> ?p * 4096" "?p * 4096 < unat n + 4096" using assms(1) by linarith+
  have "?p \<le> 2 ^ 50" using assms(2) by simp
  then have "unat ?r \<le> 2 ^ 63" "0 < unat ?r" using r p(1) by simp_all
  then obtain t where t: "unat (min_power_of_two_geq ?r) = 2 ^ t" "unat ?r \<le> 2 ^ t" "2 ^ t < 2 * unat ?r" "t < 64"
    using min_power_of_two_geq_eq [of ?r] by blast
  have "(2::nat) ^ 12 \<le> 2 ^ t" using t(2) r p(1) by simp
  then have t12: "12 \<le> t" by (rule power_le_imp_le_exp [rotated]) simp
  then have pow: "(2::nat) ^ t = 2 ^ (t - 12) * 4096" using power_add [of "2::nat" "t - 12" 12] by simp
  have "unat (min_power_of_two_geq ?r div 4096) = 2 ^ (t - 12)" using t(1) pow by (simp add: unat_div)
  then have o: "size_order n = t - 12" unfolding size_order_def by (simp add: order_of_pow)
  show "unat n \<le> 2 ^ size_order n * 4096" using t(2) pow o r p(2) by simp
  show "size_order n < 52" using o t(4) by simp
  assume "0 < size_order n"
  then obtain s where s: "t - 12 = Suc s" using o by (cases "t - 12") auto
  then have "2 ^ s < ?p" using t(3) pow r by simp
  then have "2 ^ s * 4096 < unat n" using p(3) by linarith
  then show "2 ^ (size_order n - 1) * 4096 < unat n" using o s by simp
qed

end
