(* ===== verification/Buddy_Correct.thy ===== *)
theory Buddy_Correct
  imports Buddy_Inv Buddy_Size
begin

text \<open>The runs of the buddy allocator and its correctness properties.\<close>

section \<open>Release\<close>

lemma page_not_avail:
  assumes "blocks_ok A bd" "bits_ok {} bd" "(a, k) \<in> A"
  shows "\<not> is_avail bd (page_addr bd a) j"
proof -
  have "blk_ok (bd_max_ord bd) (a, k)" using tiles_ok [OF blocks_tiles(1) [OF assms(1)]] assms(3) by blast
  then have "a < 2 ^ bd_max_ord bd" by (simp add: blk_ok_def)
  moreover have "\<not> (\<exists>b\<in>free_blks bd. inb a b)" using overlap_not_free [OF assms(1,3), of a] by auto
  ultimately have "\<not> bm (bd_bitmap bd) a" using assms(2) by (simp add: bits_ok_def)
  then show ?thesis by (auto simp: is_avail_iff intro!: exI [of _ a])
qed

lemma bits_ok_release:
  assumes "blk_ok (bd_max_ord bd) (a, k)" "bits_ok {x. inb x (a, k)} bd"
  shows "bits_ok {} (list_add (set_avail (set_ord bd p j) (page_addr bd a) k) k (page_addr bd a))"
  using assms(2) free_blks_fields(4) [of "set_avail (set_ord bd p j) (page_addr bd a) k" k a]
  by (auto simp: bits_ok_def bm_set_avail inb_range [OF assms(1)] bit_idx_of_def page_addr_def)

lemma buddy_free_raw_ok:
  assumes "buddy_ok A bd" "(a, k) \<in> A"
  obtains bd' where "buddy_free_raw bd (page_addr bd a) k = Inr bd'" "buddy_ok (A - {(a, k)}) bd'" "bits_ok {} bd'"
    "bd_max_ord bd' = bd_max_ord bd" "page_addr bd' = page_addr bd"
proof -
  let ?A = "A - {(a, k)}"
  have inv: "blocks_ok A bd" "bits_ok {} bd" using assms by (auto simp: buddy_ok_def)
  have A: "insert (a, k) ?A = A" using assms(2) by blast
  have ok: "blk_ok (bd_max_ord bd) (a, k)" using tiles_ok [OF blocks_tiles(1) [OF inv(1)]] assms(2) by blast
  have held: "bits_ok {x. inb x (a, k)} bd" using inv(2) by (simp add: bits_ok_def)
  from free_coalesce_ok [of a k ?A bd] inv(1) held obtain a' k' bd1 where
    c: "free_coalesce (page_addr bd a) (page_addr bd (bud a k)) k bd = Inr (page_addr bd a', k', bd1)"
    and b1: "blocks_ok (insert (a', k') ?A) bd1" "(a', k') \<notin> ?A" "bits_ok {x. inb x (a', k')} bd1"
      "k' = bd_max_ord bd1 \<or> (bud a' k', k') \<notin> free_blks bd1" "bd_max_ord bd1 = bd_max_ord bd" "page_addr bd1 = page_addr bd"
    unfolding A by blast
  let ?bd = "list_add (set_avail (set_ord bd1 (page_addr bd a') k') (page_addr bd a') k') k' (page_addr bd a')"
  have g: "get_buddy bd (page_addr bd a) k = Inr (page_addr bd (bud a k))" using ok by (intro get_buddy_page) (simp add: blk_ok_def)
  have "0 < page_addr bd a" using blocks_tiles(4) [OF inv(1)] by (simp add: lists_ok_def page_addr_def)
  then have f: "buddy_free_raw bd (page_addr bd a) k = Inr ?bd"
    using ok page_not_avail [OF inv assms(2)] g c by (simp add: buddy_free_raw_def blk_ok_def Let_def)
  have rel: "blocks_ok ?A ?bd"
    using blocks_ok_release [of a' k' ?A "set_avail (set_ord bd1 (page_addr bd a') k') (page_addr bd a') k'"] b1 by simp
  have "blk_ok (bd_max_ord bd1) (a', k')" using tiles_ok [OF blocks_tiles(1) [OF b1(1)]] by blast
  then have bits: "bits_ok {} ?bd" using bits_ok_release [OF _ b1(3)] b1(6) by simp
  show thesis by (rule that [OF f]) (use rel bits b1 in \<open>simp_all add: buddy_ok_def\<close>)
qed

section \<open>Initialisation\<close>

lemma max_power_of_two_leq_eq:
  assumes "0 < unat n" "unat n < 2 ^ 63"
  obtains t where "unat (max_power_of_two_leq n) = 2 ^ t" "2 ^ t \<le> unat n" "unat n < 2 ^ Suc t"
proof (cases "n AND (n - 1) = 0")
  case True
  have "n \<noteq> 0" using assms by auto
  then obtain g where "unat n = 2 ^ g" using True pow2_test by blast
  with that [of g] True show thesis by (simp add: max_power_of_two_leq_def)
next
  case False
  obtain t where t: "unat (min_power_of_two_geq n) = 2 ^ t" "unat n \<le> 2 ^ t" "2 ^ t < 2 * unat n"
    using min_power_of_two_geq_eq [of n] assms by auto
  have "n \<noteq> 0" using assms(1) by auto
  then have "unat n \<noteq> 2 ^ t" using False pow2_test by blast
  moreover have "t \<noteq> 0" using calculation t assms(1) by (cases t) auto
  then obtain s where s: "t = Suc s" by (cases t) auto
  ultimately show thesis using that [of s] t False by (simp add: max_power_of_two_leq_def unat_div)
qed

lemma sint_pos: "0 < sint (w::u64) \<Longrightarrow> unat w < 2 ^ 63 \<and> 0 < unat w \<and> sint w = int (unat w)"
proof -
  assume p: "0 < sint w"
  have "sint w < 2 ^ (LENGTH(64) - 1)" by (rule sint_lt)
  then have l: "sint w < 2 ^ 63" by simp
  have "uint w = take_bit LENGTH(64) (sint w)" by (rule uint_sint)
  then have e: "sint w = uint w" using p l by (simp add: take_bit_int_eq_self)
  then have "uint w < 2 ^ 63" "0 < uint w" using l p by simp_all
  moreover have "int (unat w) = uint w" by simp
  ultimately have "int (unat w) < int (2 ^ 63)" "0 < int (unat w)" "sint w = int (unat w)" using e by simp_all
  then show ?thesis by (simp only: of_nat_less_iff of_nat_0_less_iff)
qed

lemma pad_base: "(dat + (4096 - dat mod 4096) mod 4096) mod 4096 = (0::nat)"
proof (cases "dat mod 4096 = 0")
  case False
  have "q * 4096 + r + (4096 - r) = 4096 * Suc q" if "r < 4096" for q r :: nat using that by simp
  from this [of "dat mod 4096" "dat div 4096"] have "dat + (4096 - dat mod 4096) = 4096 * Suc (dat div 4096)"
    unfolding div_mult_mod_eq by simp
  moreover have "(4096 - dat mod 4096) mod 4096 = 4096 - dat mod 4096" using False by simp
  ultimately show ?thesis by (simp only: mod_mult_self1_is_0)
qed simp

lemma buddy_region_ok:
  assumes "buddy_region dat len = Some (base, n_pages, bitmap_len)" "0 < sint len"
  obtains k where "unat n_pages = 2 ^ k" "order_of n_pages = k" "base mod PAGE_SIZE = 0" "dat \<le> base"
    "base + 2 ^ k * PAGE_SIZE \<le> dat + unat len" "2 ^ k \<le> bitmap_len * BYTE_WIDTH"
proof -
  define pad where "pad = (4096 - dat mod 4096) mod 4096"
  define avail where "avail = len - of_nat pad"
  have i: "\<not> int pad > sint len" "0 < sint avail" "0 < sint n_pages" "n_pages = max_power_of_two_leq avail div 4096"
    "base = dat + pad" "bitmap_len = (unat n_pages + 7) div 8"
    using assms(1) by (auto simp: buddy_region_def Let_def add.commute simp flip: pad_def avail_def split: if_splits)
  have "pad < 4096" by (simp add: pad_def)
  then have "unat (of_nat pad :: u64) = pad" by (simp add: unat_of_nat take_bit_nat_eq_self)
  moreover have "pad \<le> unat len" using i(1) sint_pos [OF assms(2)] by (metis linorder_not_less of_nat_less_iff)
  ultimately have av: "unat avail = unat len - pad" "pad \<le> unat len" by (simp_all add: avail_def unat_sub word_le_nat_alt)
  obtain t where t: "unat (max_power_of_two_leq avail) = 2 ^ t" "2 ^ t \<le> unat avail"
    using max_power_of_two_leq_eq [of avail] sint_pos [OF i(2)] by blast
  have n: "unat n_pages = 2 ^ t div 4096" using t(1) i(4) by (simp add: unat_div)
  have "12 \<le> t"
  proof (rule ccontr)
    assume "\<not> 12 \<le> t"
    then have "(2::nat) ^ t < 2 ^ 12" by (intro power_strict_increasing) auto
    then show False using n sint_pos [OF i(3)] by simp
  qed
  then have p: "(2::nat) ^ t = 2 ^ (t - 12) * 4096" using power_add [of "2::nat" "t - 12" 12] by simp
  then have k: "unat n_pages = 2 ^ (t - 12)" using n by simp
  show thesis
  proof (rule that [OF k order_of_pow [OF k]])
    show "base mod PAGE_SIZE = 0" unfolding i(5) pad_def by (rule pad_base)
    show "base + 2 ^ (t - 12) * PAGE_SIZE \<le> dat + unat len" using av t(2) p i(5) by simp
    show "2 ^ (t - 12) \<le> bitmap_len * BYTE_WIDTH" using k i(6) by simp
  qed (simp add: i(5))
qed

lemma buddy_init_ok:
  assumes "buddy_init sizeof_buddy dat len arn = Inr (Some bd, arn')" "0 < dat" "0 < sint len"
  shows "buddy_ok {} bd" "bd_base bd mod PAGE_SIZE = 0" "dat \<le> bd_base bd"
    "bd_base bd + 2 ^ bd_max_ord bd * PAGE_SIZE \<le> dat + unat len"
proof -
  obtain base n_pages bitmap_len where r: "buddy_region dat len = Some (base, n_pages, bitmap_len)"
    and bd: "bd = \<lparr>bd_avail = (\<lambda>_. [])(order_of n_pages := [base]), bd_bitmap = (\<lambda>_. 0), bd_bitmap_len = bitmap_len,
      bd_max_ord = order_of n_pages, bd_base = base, bd_ord = (\<lambda>_. 0)(base := order_of n_pages)\<rparr>"
    using assms(1) by (auto simp: buddy_init_def Let_def split: option.splits prod.splits sum.splits if_splits)
  obtain k where k: "order_of n_pages = k" "base mod PAGE_SIZE = 0" "dat \<le> base" "base + 2 ^ k * PAGE_SIZE \<le> dat + unat len"
    "2 ^ k \<le> bitmap_len * BYTE_WIDTH"
    using buddy_region_ok [OF r assms(3)] by metis
  have fld: "bd_avail bd = (\<lambda>_. [])(k := [base])" "bd_max_ord bd = k" "bd_base bd = base" "bd_bitmap_len bd = bitmap_len"
    using k(1) by (simp_all add: bd)
  have p: "page_addr bd a = base + a * 4096" for a by (simp add: page_addr_def fld)
  have f: "free_blks bd = {(0, k)}" by (auto simp: free_blks_def p fld(1) split: if_splits)
  have "lists_ok bd" using assms(2) k(3,5) p [of 0] by (auto simp: lists_ok_def fld intro: exI [of _ 0])
  moreover have "tiles k {(0, k)}" by (auto simp: tiles_def blk_ok_def inb_def)
  ultimately show "buddy_ok {} bd" by (simp add: buddy_ok_def blocks_ok_def f coalesced_def fld)
  show "bd_base bd mod PAGE_SIZE = 0" "dat \<le> bd_base bd" "bd_base bd + 2 ^ bd_max_ord bd * PAGE_SIZE \<le> dat + unat len"
    using k by (simp_all add: bd)
qed

section \<open>Runs\<close>

text \<open>
  A run allocates and frees; \<open>H\<close> is the set of allocations held, each an address and a size in bytes. Sizes are positive, which the
  code asserts, and at most \<open>2^62\<close>.
\<close>

inductive buddy_step :: "(nat \<times> u64) set \<times> buddy \<Rightarrow> (nat \<times> u64) set \<times> buddy \<Rightarrow> bool" where
  bs_alloc: "\<lbrakk>0 < unat n; unat n \<le> 2 ^ 62; buddy_alloc bd n = (Some h, bd')\<rbrakk> \<Longrightarrow> buddy_step (H, bd) (insert h H, bd')"
| bs_fail: "buddy_alloc bd n = (None, bd') \<Longrightarrow> buddy_step (H, bd) (H, bd')"
| bs_free: "\<lbrakk>h \<in> H; buddy_free bd h = Inr bd'\<rbrakk> \<Longrightarrow> buddy_step (H, bd) (H - {h}, bd')"

definition blk_of :: "buddy \<Rightarrow> nat \<times> u64 \<Rightarrow> blk" where
  "blk_of bd h = (bit_idx_of bd (fst h), size_order (snd h))"

definition held_ok :: "(nat \<times> u64) set \<Rightarrow> buddy \<Rightarrow> bool" where
  "held_ok H bd \<longleftrightarrow> buddy_ok (blk_of bd ` H) bd \<and> inj_on (blk_of bd) H \<and>
     (\<forall>(p, n) \<in> H. 0 < unat n \<and> unat n \<le> 2 ^ 62 \<and> (\<exists>a. p = page_addr bd a))"

lemma blk_of_page [simp]: "blk_of bd (page_addr bd a, n) = (a, size_order n)"
  by (simp add: blk_of_def)

lemma held_page:
  assumes "held_ok H bd" "(q, l) \<in> H"
  obtains a where "q = page_addr bd a" "0 < unat l" "unat l \<le> 2 ^ 62"
proof -
  have "0 < unat l \<and> unat l \<le> 2 ^ 62 \<and> (\<exists>a. q = page_addr bd a)"
    using assms(2) conjunct2 [OF conjunct2 [OF assms(1) [unfolded held_ok_def]]] by blast
  then show thesis using that by blast
qed

lemma blk_of_cong: "page_addr bd' = page_addr bd \<Longrightarrow> blk_of bd' = blk_of bd"
proof -
  assume "page_addr bd' = page_addr bd"
  then have "page_addr bd' 0 = page_addr bd 0" by simp
  then show ?thesis by (simp add: page_addr_def blk_of_def bit_idx_of_def fun_eq_iff)
qed

lemma held_ok_alloc:
  assumes "held_ok H bd" "0 < unat n" "unat n \<le> 2 ^ 62" "buddy_alloc bd n = (Some h, bd')"
  obtains a where "h = (page_addr bd a, n)" "(a, size_order n) \<notin> blk_of bd ` H" "held_ok (insert h H) bd'"
    "bd_max_ord bd' = bd_max_ord bd" "page_addr bd' = page_addr bd"
proof -
  obtain p where p: "buddy_alloc_raw bd (size_order n) = (Some p, bd')" "h = (p, n)"
    using assms(4) by (auto simp: buddy_alloc_def split: prod.splits option.splits)
  have ok: "buddy_ok (blk_of bd ` H) bd" using assms(1) by (simp add: held_ok_def)
  obtain a where a: "p = page_addr bd a" "(a, size_order n) \<notin> blk_of bd ` H" "buddy_ok (insert (a, size_order n) (blk_of bd ` H)) bd'"
    "bd_max_ord bd' = bd_max_ord bd" "page_addr bd' = page_addr bd"
    by (rule buddy_alloc_raw_ok [OF ok p(1)])
  have b: "blk_of bd' = blk_of bd" by (rule blk_of_cong [OF a(5)])
  have "held_ok (insert h H) bd'"
    using assms(1-3) a p(2) by (auto simp: held_ok_def b inj_on_insert)
  then show thesis using that a p(2) by simp
qed

lemma held_ok_free:
  assumes "held_ok H bd" "h \<in> H"
  obtains bd' where "buddy_free bd h = Inr bd'" "held_ok (H - {h}) bd'" "bits_ok {} bd'"
    "bd_max_ord bd' = bd_max_ord bd" "page_addr bd' = page_addr bd"
proof -
  obtain a n where h: "h = (page_addr bd a, n)" using assms by (metis held_page prod.collapse)
  have ok: "buddy_ok (blk_of bd ` H) bd" "(a, size_order n) \<in> blk_of bd ` H"
    using assms h by (auto simp: held_ok_def intro: rev_image_eqI)
  obtain bd' where b: "buddy_free_raw bd (page_addr bd a) (size_order n) = Inr bd'"
    "buddy_ok (blk_of bd ` H - {(a, size_order n)}) bd'" "bits_ok {} bd'" "bd_max_ord bd' = bd_max_ord bd" "page_addr bd' = page_addr bd"
    by (rule buddy_free_raw_ok [OF ok])
  have e: "blk_of bd' = blk_of bd" by (rule blk_of_cong [OF b(5)])
  have "blk_of bd ` (H - {h}) = blk_of bd ` H - {(a, size_order n)}"
    using inj_on_image_set_diff [of "blk_of bd" H H "{h}"] assms h by (auto simp: held_ok_def)
  then have "held_ok (H - {h}) bd'"
    using assms(1) b(2,5) by (auto simp: held_ok_def e intro: inj_on_subset)
  then show thesis using that b h by (simp add: buddy_free_def)
qed

lemma buddy_steps_ok: "buddy_step\<^sup>*\<^sup>* (H, bd) (H', bd') \<Longrightarrow> held_ok H bd \<Longrightarrow>
    held_ok H' bd' \<and> bd_max_ord bd' = bd_max_ord bd \<and> page_addr bd' = page_addr bd"
proof (induction rule: rtranclp_induct2)
  case (step H1 b1 H2 b2)
  note ih = step.IH [OF step.prems]
  from step.hyps(2) show ?case
  proof cases
    case (bs_alloc n h)
    then show ?thesis using held_ok_alloc [of H1 b1 n h b2] ih by metis
  next
    case (bs_fail n)
    then have "b2 = b1" using buddy_alloc_raw_None(1) [of "blk_of b1 ` H1" b1] ih
      by (auto simp: buddy_alloc_def held_ok_def split: prod.splits option.splits)
    with bs_fail ih show ?thesis by simp
  next
    case (bs_free h)
    then show ?thesis using held_ok_free [of H1 b1 h] ih by (metis Inr_inject)
  qed
qed simp

lemma init_held: "buddy_ok {} bd \<Longrightarrow> held_ok {} bd"
  by (simp add: held_ok_def)

lemma run_held:
  assumes "buddy_init sizeof_buddy dat len arn = Inr (Some bd0, arn')" "0 < dat" "0 < sint len" "buddy_step\<^sup>*\<^sup>* ({}, bd0) (H, bd)"
  shows "held_ok H bd" "bd_max_ord bd = bd_max_ord bd0" "page_addr bd = page_addr bd0"
  using buddy_steps_ok [OF assms(4) init_held [OF buddy_init_ok(1) [OF assms(1-3)]]] by simp_all

section \<open>Correctness\<close>

lemma page_ranges:
  assumes "blk_ok m (a, j)" "blk_ok m (b, k)" "\<And>x. \<not> (inb x (a, j) \<and> inb x (b, k))"
  shows "{page_addr bd a..<page_addr bd a + 2 ^ j * 4096} \<inter> {page_addr bd b..<page_addr bd b + 2 ^ k * 4096} = {}"
proof -
  have "a + 2 ^ j \<le> b \<or> b + 2 ^ k \<le> a"
    using assms(3) [of a] assms(3) [of b] assms(1,2) by (auto simp: blk_ok_def inb_iff)
  then have "(a + 2 ^ j) * 4096 \<le> b * 4096 \<or> (b + 2 ^ k) * 4096 \<le> a * 4096" using mult_le_mono1 by blast
  then show ?thesis by (auto simp: page_addr_def algebra_simps)
qed

text \<open>
  C11: In every run from initialisation, the allocations held never overlap, start on a page boundary and lie inside the memory the
  allocator was given.
\<close>

theorem buddy_allocations_disjoint:
  assumes "buddy_init sizeof_buddy dat len arn = Inr (Some bd0, arn')" "0 < dat" "0 < sint len"
    and "buddy_step\<^sup>*\<^sup>* ({}, bd0) (H, bd)" "(p, n) \<in> H"
  shows "p mod PAGE_SIZE = 0 \<and> dat \<le> p \<and> p + unat n \<le> dat + unat len \<and>
    (\<forall>(q, l) \<in> H. (q, l) \<noteq> (p, n) \<longrightarrow> {p..<p + unat n} \<inter> {q..<q + unat l} = {})"
proof -
  note h = run_held [OF assms(1-4)]
  note i = buddy_init_ok [OF assms(1-3)]
  have t: "tiles (bd_max_ord bd) (free_blks bd \<union> blk_of bd ` H)" "inj_on (blk_of bd) H"
    using h(1) by (auto simp: held_ok_def buddy_ok_def blocks_ok_def)
  have blk: "\<exists>a. q = page_addr bd a \<and> blk_ok (bd_max_ord bd) (a, size_order l) \<and> blk_of bd (q, l) = (a, size_order l) \<and>
      unat l \<le> 2 ^ size_order l * 4096" if ql: "(q, l) \<in> H" for q l
  proof -
    obtain a where a: "q = page_addr bd a" "0 < unat l" "unat l \<le> 2 ^ 62" by (rule held_page [OF h(1) ql])
    then have "(a, size_order l) \<in> blk_of bd ` H" using ql by (auto intro: rev_image_eqI)
    then show ?thesis using a tiles_ok [OF t(1)] size_order_le(1) by auto
  qed
  obtain a where a: "p = page_addr bd a" "blk_ok (bd_max_ord bd) (a, size_order n)" "unat n \<le> 2 ^ size_order n * 4096"
    using blk [OF assms(5)] by blast
  have "(a + 2 ^ size_order n) * 4096 \<le> 2 ^ bd_max_ord bd0 * 4096" using blk_end [OF a(2)] h(2) by (intro mult_le_mono1) simp
  moreover have "p = bd_base bd0 + a * 4096" using a(1) h(3) by (simp add: page_addr_def)
  ultimately have "p mod PAGE_SIZE = 0 \<and> dat \<le> p \<and> p + unat n \<le> dat + unat len"
    using i(2-4) a(3) by (auto simp: algebra_simps)
  moreover have "{p..<p + unat n} \<inter> {q..<q + unat l} = {}" if q: "(q, l) \<in> H" "(q, l) \<noteq> (p, n)" for q l
  proof -
    obtain b where b: "q = page_addr bd b" "blk_ok (bd_max_ord bd) (b, size_order l)" "blk_of bd (q, l) = (b, size_order l)"
      "unat l \<le> 2 ^ size_order l * 4096" using blk [OF q(1)] by blast
    have "\<not> (inb x (a, size_order n) \<and> inb x (b, size_order l))" for x
    proof
      assume "inb x (a, size_order n) \<and> inb x (b, size_order l)"
      then have "inb x (blk_of bd (p, n)) \<and> inb x (blk_of bd (q, l))" using a(1) b(3) by simp
      moreover have "blk_of bd (p, n) \<in> blk_of bd ` H" "blk_of bd (q, l) \<in> blk_of bd ` H" using assms(5) q(1) by blast+
      ultimately have "blk_of bd (p, n) = blk_of bd (q, l)" using tiles_unique [OF t(1)] by blast
      then show False using t(2) assms(5) q by (auto dest: inj_onD)
    qed
    from page_ranges [OF a(2) b(2) this, of bd] a(1,3) b(1,4) show ?thesis by fastforce
  qed
  ultimately show ?thesis by blast
qed

text \<open>
  C12: Freeing an allocation that is held never crashes, and blocks coalesce completely: when the last allocation is
  freed, the allocator again has exactly one free block, the whole region.
\<close>

theorem buddy_free_restores:
  assumes "buddy_init sizeof_buddy dat len arn = Inr (Some bd0, arn')" "0 < dat" "0 < sint len"
    and "buddy_step\<^sup>*\<^sup>* ({}, bd0) (H, bd)" "h \<in> H"
  shows "\<exists>bd'. buddy_free bd h = Inr bd' \<and> (H = {h} \<longrightarrow> bd_avail bd' = (\<lambda>_. [])(bd_max_ord bd0 := [bd_base bd0]))"
proof -
  note r = run_held [OF assms(1-4)]
  obtain bd' where b: "buddy_free bd h = Inr bd'" "held_ok (H - {h}) bd'" "bd_max_ord bd' = bd_max_ord bd" "page_addr bd' = page_addr bd"
    using held_ok_free [OF r(1) assms(5)] by metis
  have "bd_avail bd' = (\<lambda>_. [])(bd_max_ord bd0 := [bd_base bd0])" if "H = {h}"
  proof -
    have ok: "blocks_ok {} bd'" using b(2) that by (simp add: held_ok_def buddy_ok_def)
    note f = free_single [OF ok]
    have l: "distinct (bd_avail bd' k)" "\<And>p. p \<in> set (bd_avail bd' k) \<Longrightarrow> \<exists>a. p = page_addr bd' a" for k
      using blocks_tiles(4) [OF ok] by (auto simp: lists_ok_def)
    have z: "page_addr bd' 0 = bd_base bd0" using b(4) r(3) by (simp add: page_addr_def)
    have s: "set (bd_avail bd' k) = (if k = bd_max_ord bd' then {bd_base bd0} else {})" for k
    proof -
      have "p \<in> set (bd_avail bd' k) \<longleftrightarrow> k = bd_max_ord bd' \<and> p = page_addr bd' 0" for p
      proof
        assume p: "p \<in> set (bd_avail bd' k)"
        then obtain a where a: "p = page_addr bd' a" using l(2) by blast
        with p have "(a, k) \<in> free_blks bd'" by (simp add: free_blks_def)
        with f a show "k = bd_max_ord bd' \<and> p = page_addr bd' 0" by simp
      next
        assume "k = bd_max_ord bd' \<and> p = page_addr bd' 0"
        moreover have "(0, bd_max_ord bd') \<in> free_blks bd'" using f by simp
        ultimately show "p \<in> set (bd_avail bd' k)" by (simp add: free_blks_def)
      qed
      then show ?thesis using z by (intro set_eqI) simp
    qed
    have "bd_avail bd' k = (if k = bd_max_ord bd' then [bd_base bd0] else [])" for k
      using s [of k] l(1) [of k] by (cases "bd_avail bd' k"; cases "tl (bd_avail bd' k)") (auto split: if_splits)
    then show ?thesis using b(3) r(2) by (auto simp: fun_eq_iff)
  qed
  with b(1) show ?thesis by blast
qed

text \<open>
  C28: Freeing an allocation twice is detected: the second free of the same allocation crashes with the double-free message
  instead of corrupting the free lists.
\<close>

theorem buddy_double_free:
  assumes "buddy_init sizeof_buddy dat len arn = Inr (Some bd0, arn')" "0 < dat" "0 < sint len"
    and "buddy_step\<^sup>*\<^sup>* ({}, bd0) (H, bd)" "h \<in> H" "buddy_free bd h = Inr bd'"
  shows "buddy_free bd' h = Inl DoubleFree"
proof -
  note r = run_held [OF assms(1-4)]
  have b: "held_ok (H - {h}) bd'" "bits_ok {} bd'" "bd_max_ord bd' = bd_max_ord bd" "page_addr bd' = page_addr bd"
    using held_ok_free [OF r(1) assms(5)] assms(6) by (metis Inr_inject)+
  obtain a n where h: "h = (page_addr bd a, n)" using r(1) assms(5) by (metis held_page prod.collapse)
  have t: "tiles (bd_max_ord bd) (free_blks bd \<union> blk_of bd ` H)" "inj_on (blk_of bd) H"
    using r(1) by (auto simp: held_ok_def buddy_ok_def blocks_ok_def)
  have A: "(a, size_order n) \<in> blk_of bd ` H" using assms(5) h by (auto intro: rev_image_eqI)
  have ok: "blk_ok (bd_max_ord bd) (a, size_order n)" using tiles_ok [OF t(1)] A by blast
  have t': "tiles (bd_max_ord bd) (free_blks bd' \<union> blk_of bd ` (H - {h}))" and l: "lists_ok bd'"
    using b(1,3) blk_of_cong [OF b(4)] by (auto simp: held_ok_def buddy_ok_def blocks_ok_def)
  have "\<exists>c\<in>free_blks bd'. inb x c" if x: "inb x (a, size_order n)" for x
  proof -
    obtain c where c: "c \<in> free_blks bd' \<union> blk_of bd ` (H - {h})" "inb x c" using tiles_cover [OF t' inb_less [OF ok x]] by blast
    have "c \<notin> blk_of bd ` (H - {h})"
    proof
      assume "c \<in> blk_of bd ` (H - {h})"
      then obtain g where g: "g \<in> H" "g \<noteq> h" "c = blk_of bd g" by blast
      then have "c = (a, size_order n)" using tiles_unique [OF t(1), of c "(a, size_order n)" x] A c(2) x by blast
      then have "blk_of bd g = blk_of bd h" using g(3) h by simp
      then show False using t(2) g(1,2) assms(5) by (auto dest: inj_onD)
    qed
    with c show ?thesis by blast
  qed
  then have "is_avail bd' (page_addr bd' a) (size_order n)"
    unfolding is_avail_iff bit_idx_page inb_range [OF ok] using b(2,3) inb_less [OF ok] by (auto simp: bits_ok_def)
  moreover have "0 < page_addr bd' a" using l by (simp add: lists_ok_def page_addr_def)
  ultimately show ?thesis using ok b(3,4) h by (simp add: buddy_free_def buddy_free_raw_def blk_ok_def)
qed

section \<open>Accounting\<close>

lemma tiles_sum:
  assumes "tiles m B"
  shows "finite B" "(\<Sum>b\<in>B. 2 ^ snd b) = (2::nat) ^ m"
proof -
  have "B \<subseteq> {..<2 ^ m} \<times> {..m}" using tiles_ok [OF assms] by (fastforce simp: blk_ok_def)
  then show fin: "finite B" by (rule finite_subset) simp
  have "{x. inb x b} = {fst b..<fst b + 2 ^ snd b}" if "b \<in> B" for b
  proof -
    obtain a k where b: "b = (a, k)" by (rule prod.exhaust)
    then have "2 ^ k dvd a" using tiles_ok [OF assms that] by (simp add: blk_ok_def)
    then show ?thesis unfolding b by (auto simp: inb_iff)
  qed
  then have c: "finite {x. inb x b}" "card {x. inb x b} = 2 ^ snd b" if "b \<in> B" for b using that by simp_all
  have "(\<Union>b\<in>B. {x. inb x b}) = {..<2 ^ m}"
    using tiles_cover [OF assms] inb_less [OF tiles_ok [OF assms]] by auto
  moreover have "card (\<Union>b\<in>B. {x. inb x b}) = (\<Sum>b\<in>B. card {x. inb x b})"
    by (rule card_UN_disjoint [OF fin]) (use c tiles_unique [OF assms] in auto)
  ultimately show "(\<Sum>b\<in>B. 2 ^ snd b) = (2::nat) ^ m" using c(2) by simp
qed

lemma free_pages_sum:
  assumes "lists_ok bd" "\<And>b. b \<in> free_blks bd \<Longrightarrow> snd b \<le> bd_max_ord bd" "finite (free_blks bd)"
  shows "snd (buddy_stats_get bd) = (\<Sum>b\<in>free_blks bd. 2 ^ snd b)"
proof -
  let ?F = "free_blks bd" and ?m = "bd_max_ord bd"
  have l: "length (bd_avail bd k) = card {b \<in> ?F. snd b = k}" for k
  proof -
    have "{b \<in> ?F. snd b = k} = (\<lambda>p. (bit_idx_of bd p, k)) ` set (bd_avail bd k)"
      using assms(1) by (force simp: free_blks_def lists_ok_def image_iff)
    moreover have "inj_on (\<lambda>p. (bit_idx_of bd p, k)) (set (bd_avail bd k))"
    proof (rule inj_onI)
      fix p q assume "p \<in> set (bd_avail bd k)" "q \<in> set (bd_avail bd k)" and e: "(bit_idx_of bd p, k) = (bit_idx_of bd q, k)"
      then obtain a b where "p = page_addr bd a" "q = page_addr bd b" using assms(1) unfolding lists_ok_def by blast
      with e show "p = q" by simp
    qed
    ultimately show ?thesis using assms(1) by (simp add: card_image distinct_card lists_ok_def)
  qed
  have "snd (buddy_stats_get bd) = (\<Sum>k\<in>{..?m}. card {b \<in> ?F. snd b = k} * 2 ^ k)"
    unfolding buddy_stats_get_def snd_conv l length_of_order_def interv_sum_list_conv_sum_set_nat
    by (rule sum.cong) auto
  also have "\<dots> = (\<Sum>k\<in>{..?m}. \<Sum>b\<in>{b \<in> ?F. snd b = k}. 2 ^ snd b)" by (rule sum.cong) auto
  also have "\<dots> = (\<Sum>b\<in>?F. 2 ^ snd b)" by (rule sum.group) (use assms in auto)
  finally show ?thesis .
qed

text \<open>
  C29: No page is lost: in every run the free pages the statistics report and the pages of the allocations held add up to the size
  of the region.
\<close>

theorem buddy_conservation:
  assumes "buddy_init sizeof_buddy dat len arn = Inr (Some bd0, arn')" "0 < dat" "0 < sint len"
    and "buddy_step\<^sup>*\<^sup>* ({}, bd0) (H, bd)"
  shows "finite H \<and> snd (buddy_stats_get bd) + (\<Sum>h\<in>H. 2 ^ size_order (snd h)) = fst (buddy_stats_get bd)"
proof -
  note r = run_held [OF assms]
  have t: "tiles (bd_max_ord bd) (free_blks bd \<union> blk_of bd ` H)" "inj_on (blk_of bd) H" "free_blks bd \<inter> blk_of bd ` H = {}"
    "lists_ok bd" using r(1) by (auto simp: held_ok_def buddy_ok_def blocks_ok_def)
  note s = tiles_sum [OF t(1)]
  have f: "finite (free_blks bd)" "finite (blk_of bd ` H)" using s(1) by simp_all
  have "\<And>b. b \<in> free_blks bd \<Longrightarrow> snd b \<le> bd_max_ord bd" using tiles_ok [OF t(1)] by (auto simp: blk_ok_def)
  note free = free_pages_sum [OF t(4) this f(1)]
  have "(\<Sum>b\<in>blk_of bd ` H. (2::nat) ^ snd b) = (\<Sum>h\<in>H. 2 ^ size_order (snd h))"
    unfolding sum.reindex [OF t(2)] by (simp add: blk_of_def)
  then have "(\<Sum>b\<in>free_blks bd. 2 ^ snd b) + (\<Sum>h\<in>H. 2 ^ size_order (snd h)) = (2::nat) ^ bd_max_ord bd"
    using s(2) sum.union_disjoint [OF f t(3), of "\<lambda>b. (2::nat) ^ snd b"] by simp
  moreover have "finite H" using f(2) t(2) by (rule finite_imageD)
  ultimately show ?thesis using free by (simp add: buddy_stats_get_def length_of_order_def)
qed

text \<open>
  C30: An allocation fails exactly when no free block is as large as the request, and then it changes nothing: the order computed from
  the size by the bit tricks is the smallest that fits.
\<close>

theorem buddy_alloc_fails_iff:
  assumes "buddy_init sizeof_buddy dat len arn = Inr (Some bd0, arn')" "0 < dat" "0 < sint len"
    and "buddy_step\<^sup>*\<^sup>* ({}, bd0) (H, bd)" "0 < unat n" "unat n \<le> 2 ^ 62"
  shows "(buddy_alloc bd n = (None, bd)) = (\<forall>k. bd_avail bd k \<noteq> [] \<longrightarrow> 2 ^ k * PAGE_SIZE < unat n)"
proof -
  note r = run_held [OF assms(1-4)]
  have ok: "buddy_ok (blk_of bd ` H) bd" using r(1) by (simp add: held_ok_def)
  then have bl: "blocks_ok (blk_of bd ` H) bd" by (simp add: buddy_ok_def)
  have l: "2 ^ k * PAGE_SIZE < unat n \<longleftrightarrow> k < size_order n" for k
  proof
    assume "2 ^ k * PAGE_SIZE < unat n"
    from less_le_trans [OF this size_order_le(1) [OF assms(5,6)]] have "(2::nat) ^ k < 2 ^ size_order n"
      unfolding mult_less_cancel2 by blast
    then show "k < size_order n" by (rule pow_less)
  next
    assume k: "k < size_order n"
    then have "(2::nat) ^ k \<le> 2 ^ (size_order n - 1)" by (intro power_increasing) auto
    then have "2 ^ k * PAGE_SIZE \<le> 2 ^ (size_order n - 1) * PAGE_SIZE" by (rule mult_le_mono1)
    also have "\<dots> < unat n" using size_order_le(2) [OF assms(5,6)] k by simp
    finally show "2 ^ k * PAGE_SIZE < unat n" .
  qed
  have free: "\<exists>a. (a, k) \<in> free_blks bd" if "bd_avail bd k \<noteq> []" for k
    using avail_page [OF blocks_tiles(4) [OF bl] that] by blast
  show ?thesis unfolding l
  proof
    assume "buddy_alloc bd n = (None, bd)"
    then have "buddy_alloc_raw bd (size_order n) = (None, bd)" by (auto simp: buddy_alloc_def split: prod.splits option.splits)
    then show "\<forall>k. bd_avail bd k \<noteq> [] \<longrightarrow> k < size_order n" using buddy_alloc_raw_None(2) [OF ok] free by blast
  next
    assume a: "\<forall>k. bd_avail bd k \<noteq> [] \<longrightarrow> k < size_order n"
    have "first_index (\<lambda>ord. bd_avail bd ord \<noteq> []) (size_order n) (Suc (bd_max_ord bd)) = None"
      unfolding first_index_None_iff using a by (meson not_less)
    then show "buddy_alloc bd n = (None, bd)" by (simp add: buddy_alloc_def buddy_alloc_raw_def)
  qed
qed

section \<open>An example run\<close>

text \<open>Four pages at address 4096, and one allocation of a hundred bytes.\<close>

definition arena_ex :: arena where
  "arena_ex = \<lparr>ar_beg = 0, ar_end = 2000\<rparr>"

definition buddy_ex :: buddy where
  "buddy_ex = \<lparr>bd_avail = (\<lambda>_. [])(2 := [4096]), bd_bitmap = (\<lambda>_. 0), bd_bitmap_len = 1, bd_max_ord = 2, bd_base = 4096,
     bd_ord = (\<lambda>_. 0)(4096 := 2)\<rparr>"

definition buddy_one :: buddy where
  "buddy_one = snd (buddy_alloc buddy_ex 100)"

lemma buddy_init_ex: "buddy_init 1280 4096 16384 arena_ex = Inr (Some buddy_ex, \<lparr>ar_beg = 1281, ar_end = 2000\<rparr>)"
proof -
  have "max_power_of_two_leq 16384 = 16384" by (simp add: max_power_of_two_leq_def)
  moreover have "order_of 4 = 2" by (rule order_of_pow) simp
  ultimately show ?thesis
    by (simp add: buddy_init_def buddy_region_def arena_alloc_def arena_alloc_aligned_def arena_ex_def buddy_ex_def Let_def)
qed

lemma buddy_one_alloc: "buddy_alloc buddy_ex 100 = (Some (4096, 100), buddy_one)"
proof -
  have "size_order 100 = 0"
    by (simp add: size_order_def align_up_def min_power_of_two_geq_def order_of_pow)
  then show ?thesis
    by (simp add: buddy_one_def buddy_alloc_def buddy_alloc_raw_def first_index.simps Let_def buddy_ex_def)
qed

lemma buddy_one_run: "buddy_step\<^sup>*\<^sup>* ({}, buddy_ex) ({(4096, 100)}, buddy_one)"
  using bs_alloc [OF _ _ buddy_one_alloc, of "{}"] by (simp add: r_into_rtranclp)

lemma init_size_ex: "0 < sint (16384 :: u64)"
  by simp

theorem buddy_allocations_disjoint_witness: "(4096::nat) mod PAGE_SIZE = 0 \<and> (4096::nat) + unat (100::u64) \<le> 4096 + unat (16384::u64)"
  using buddy_allocations_disjoint [OF buddy_init_ex _ init_size_ex buddy_one_run, of 4096 100] by simp

theorem buddy_free_restores_witness:
  "\<exists>bd'. buddy_free buddy_one (4096, 100) = Inr bd' \<and> bd_avail bd' = (\<lambda>_. [])(2 := [4096])"
  using buddy_free_restores [OF buddy_init_ex _ init_size_ex buddy_one_run, of "(4096, 100)"] by (auto simp: buddy_ex_def)

theorem buddy_double_free_witness:
  "\<exists>bd'. buddy_free buddy_one (4096, 100) = Inr bd' \<and> buddy_free bd' (4096, 100) = Inl DoubleFree"
proof -
  have "held_ok {(4096, 100)} buddy_one" by (rule run_held [OF buddy_init_ex _ init_size_ex buddy_one_run]) simp
  then obtain bd' where b: "buddy_free buddy_one (4096, 100) = Inr bd'" by (rule held_ok_free [of _ _ "(4096, 100)"]) auto
  have "buddy_free bd' (4096, 100) = Inl DoubleFree"
    by (rule buddy_double_free [OF buddy_init_ex _ init_size_ex buddy_one_run _ b]) simp_all
  with b show ?thesis by blast
qed

theorem buddy_conservation_witness: "snd (buddy_stats_get buddy_one) + 2 ^ size_order 100 = fst (buddy_stats_get buddy_one)"
  using buddy_conservation [OF buddy_init_ex _ init_size_ex buddy_one_run] by simp

theorem buddy_alloc_fails_iff_witness:
  "(buddy_alloc buddy_one 20000 = (None, buddy_one)) = (\<forall>k. bd_avail buddy_one k \<noteq> [] \<longrightarrow> 2 ^ k * PAGE_SIZE < 20000)"
  using buddy_alloc_fails_iff [OF buddy_init_ex _ init_size_ex buddy_one_run, of 20000] by simp

end
