(* ===== verification/Text_Fmt.thy ===== *)
theory Text_Fmt
  imports Mazu_Prelude
begin

text \<open>
  Text: string buffers (\<^verbatim>\<open>include/mazu/string.h\<close>) and the formatter (\<^verbatim>\<open>include/mazu/fmt.h\<close>). A string is the list of its
  characters; a string buffer is its contents and its capacity. The buffers here have memory behind them.
\<close>

section \<open>String buffers\<close>

record str_buf =
  sb_dat :: string
  sb_cap :: nat

definition str_buf_append :: "str_buf \<Rightarrow> string \<Rightarrow> unit result \<times> str_buf" where
  "str_buf_append buf s =
     (if sb_cap buf < length (sb_dat buf) + length s then (Inl ENOMEM, buf)
      else (Inr (), buf\<lparr>sb_dat := sb_dat buf @ s\<rparr>))"

definition str_buf_append_char :: "str_buf \<Rightarrow> char \<Rightarrow> unit result \<times> str_buf" where
  "str_buf_append_char buf ch =
     (if sb_cap buf = length (sb_dat buf) then (Inl ENOMEM, buf)
      else (Inr (), buf\<lparr>sb_dat := sb_dat buf @ [ch]\<rparr>))"

definition str_buf_append_n :: "str_buf \<Rightarrow> nat \<Rightarrow> char \<Rightarrow> unit result \<times> str_buf" where
  "str_buf_append_n buf n ch =
     (if sb_cap buf < length (sb_dat buf) + n then (Inl ENOMEM, buf)
      else (Inr (), buf\<lparr>sb_dat := sb_dat buf @ replicate n ch\<rparr>))"

text \<open>The code tests each result and returns on an error.\<close>

definition and_then :: "unit result \<times> str_buf \<Rightarrow> (str_buf \<Rightarrow> unit result \<times> str_buf) \<Rightarrow> unit result \<times> str_buf" where
  "and_then r f = (case r of (Inl e, buf) \<Rightarrow> (Inl e, buf) | (Inr _, buf) \<Rightarrow> f buf)"

section \<open>Numbers\<close>

definition dec_char :: "nat \<Rightarrow> char" where
  "dec_char n = char_of (48 + n)"

text \<open>The loop that writes decimal digits from the end of a buffer.\<close>

function dec_loop :: "u64 \<Rightarrow> string \<Rightarrow> string" where
  "dec_loop d acc =
     (let acc = dec_char (unat (d mod 10)) # acc; d = d div 10
      in if d = 0 then acc else dec_loop d acc)"
  by pat_completeness auto
termination
  by (relation "measure (unat \<circ> fst)") (auto simp: unat_div word_unat_eq_iff)

declare dec_loop.simps [simp del]

definition fmt_i64_str :: "u64 \<Rightarrow> string" where
  "fmt_i64_str x =
     (let s = dec_loop (if sint x < 0 then - (x + 1) + 1 else x) []
      in if sint x < 0 then CHR ''-'' # s else s)"

definition fmt_append_i64 :: "u64 \<Rightarrow> str_buf \<Rightarrow> unit result \<times> str_buf" where
  "fmt_append_i64 x buf = str_buf_append buf (fmt_i64_str x)"

definition fmt_append_u64 :: "u64 \<Rightarrow> str_buf \<Rightarrow> unit result \<times> str_buf" where
  "fmt_append_u64 x buf = str_buf_append buf (dec_loop x [])"

definition hex_lower :: string where
  "hex_lower = ''0123456789abcdef''"

definition hex_upper :: string where
  "hex_upper = ''0123456789ABCDEF''"

function hex_loop :: "string \<Rightarrow> u64 \<Rightarrow> string \<Rightarrow> string" where
  "hex_loop a x acc =
     (let acc = a ! unat (x AND 0xF) # acc; x = drop_bit 4 x
      in if x = 0 then acc else hex_loop a x acc)"
  by pat_completeness auto
termination
  by (relation "measure (\<lambda>(_, x, _). unat x)") (auto simp: unat_shr word_unat_eq_iff)

declare hex_loop.simps [simp del]

definition fmt_append_hex :: "u64 \<Rightarrow> string \<Rightarrow> str_buf \<Rightarrow> unit result \<times> str_buf" where
  "fmt_append_hex x alpha buf = str_buf_append buf (hex_loop alpha x [])"

section \<open>Format strings\<close>

datatype fmt_modifier = MOD_NONE | MOD_L | MOD_HH | MOD_H
datatype fmt_expect = NOTHING | MODIFIER | CONVERSION
datatype fmt_arg = ArgInt u64 | ArgStr "string option"

text \<open>
  The arguments of a call are integers, in 64-bit registers, and strings, \<open>ArgStr None\<close> being one without data. The outcome is the result and the buffer; it is \<open>None\<close> where
  a conversion asks for an argument that was not passed or is of the other kind, which C leaves undefined.
\<close>

definition fmt_conv_i :: "fmt_modifier \<Rightarrow> u64 \<Rightarrow> u64" where
  "fmt_conv_i modifier x =
     (case modifier of
        MOD_L \<Rightarrow> x
      | MOD_H \<Rightarrow> scast (ucast x :: u16)
      | MOD_HH \<Rightarrow> scast (ucast x :: u8)
      | MOD_NONE \<Rightarrow> scast (ucast x :: u32))"

definition fmt_conv_u :: "fmt_modifier \<Rightarrow> u64 \<Rightarrow> u64" where
  "fmt_conv_u modifier x =
     (case modifier of
        MOD_L \<Rightarrow> x
      | MOD_H \<Rightarrow> ucast (ucast x :: u32) AND 0xFFFF
      | MOD_HH \<Rightarrow> ucast (ucast x :: u32) AND 0xFF
      | MOD_NONE \<Rightarrow> ucast (ucast x :: u32))"

text \<open>One conversion into \<open>out\<close>; a percent sign goes to the buffer itself, even when a width is given.\<close>

definition fmt_convert ::
    "char \<Rightarrow> fmt_modifier \<Rightarrow> fmt_arg list \<Rightarrow> str_buf \<Rightarrow> (fmt_arg list \<times> unit result \<times> str_buf) option" where
  "fmt_convert c modifier args out =
     (if c \<in> {CHR ''i'', CHR ''d'', CHR ''u'', CHR ''x'', CHR ''X'', CHR ''c''}
      then (case args of
              ArgInt x # args \<Rightarrow> Some (args,
                if c \<in> {CHR ''i'', CHR ''d''} then fmt_append_i64 (fmt_conv_i modifier x) out
                else if c = CHR ''u'' then fmt_append_u64 (fmt_conv_u modifier x) out
                else if c = CHR ''x'' then fmt_append_hex (fmt_conv_u modifier x) hex_lower out
                else if c = CHR ''X'' then fmt_append_hex (fmt_conv_u modifier x) hex_upper out
                else str_buf_append_char out (char_of (unat x)))
            | _ \<Rightarrow> None)
      else if c = CHR ''s''
      then (case args of ArgStr s # args \<Rightarrow> Some (args, str_buf_append out (case s of Some s \<Rightarrow> s | None \<Rightarrow> ''(NULL)'')) | _ \<Rightarrow> None)
      else Some (args, Inl EINVAL, out))"

fun append_chars :: "nat \<Rightarrow> char \<Rightarrow> str_buf \<Rightarrow> unit result \<times> str_buf" where
  "append_chars 0 ch buf = (Inr (), buf)"
| "append_chars (Suc n) ch buf = and_then (str_buf_append_char buf ch) (append_chars n ch)"

definition fmt_pad :: "nat \<Rightarrow> bool \<Rightarrow> bool \<Rightarrow> string \<Rightarrow> str_buf \<Rightarrow> unit result \<times> str_buf" where
  "fmt_pad width zero_fill left_align formatted buf =
     (let pad = (if width > length formatted then width - length formatted else 0) in
      if left_align
      then and_then (str_buf_append buf formatted) (append_chars pad CHR '' '')
      else let fill = (if zero_fill then CHR ''0'' else CHR '' '');
               minus = zero_fill \<and> formatted \<noteq> [] \<and> hd formatted = CHR ''-''
        in and_then (and_then (if minus then str_buf_append_char buf CHR ''-'' else (Inr (), buf)) (append_chars pad fill))
             (\<lambda>buf. str_buf_append buf (if minus then tl formatted else formatted)))"

record fmt_state =
  fs_modifier :: fmt_modifier
  fs_expect :: fmt_expect
  fs_width :: nat
  fs_zero_fill :: bool
  fs_left_align :: bool

text \<open>The character at \<open>i\<close> in the state that expects a conversion.\<close>

definition fmt_conversion ::
    "char \<Rightarrow> fmt_state \<Rightarrow> fmt_arg list \<Rightarrow> str_buf \<Rightarrow> (fmt_arg list \<times> unit result \<times> str_buf) option" where
  "fmt_conversion c fs args buf =
     (if fs_width fs > 0
      then if c = CHR ''%''
           then Some (args, and_then (str_buf_append_char buf CHR ''%'')
                              (fmt_pad (fs_width fs) (fs_zero_fill fs) (fs_left_align fs) []))
           else (case fmt_convert c (fs_modifier fs) args \<lparr>sb_dat = [], sb_cap = 64\<rparr> of
                   None \<Rightarrow> None
                 | Some (args, Inl e, _) \<Rightarrow> Some (args, Inl e, buf)
                 | Some (args, Inr _, out) \<Rightarrow>
                     Some (args, fmt_pad (fs_width fs) (fs_zero_fill fs) (fs_left_align fs) (sb_dat out) buf))
      else if c = CHR ''%'' then Some (args, str_buf_append_char buf CHR ''%'')
      else fmt_convert c (fs_modifier fs) args buf)"

text \<open>The character at \<open>i\<close> in the state that expects a modifier: the next position and state.\<close>

definition fmt_modifier_char :: "string \<Rightarrow> nat \<Rightarrow> fmt_state \<Rightarrow> nat \<times> fmt_state" where
  "fmt_modifier_char f i fs =
     (if f ! i = CHR ''-'' then (i + 1, fs\<lparr>fs_left_align := True\<rparr>)
      else if f ! i = CHR ''0'' \<and> fs_width fs = 0 \<and> \<not> fs_zero_fill fs then (i + 1, fs\<lparr>fs_zero_fill := True\<rparr>)
      else if of_char (f ! i) \<ge> (48 :: nat) \<and> of_char (f ! i) \<le> (57 :: nat)
      then (i + 1, fs\<lparr>fs_width := fs_width fs * 10 + (of_char (f ! i) - 48)\<rparr>)
      else if f ! i = CHR ''l''
      then (if i + 1 < length f \<and> f ! (i + 1) = CHR ''l'' then i + 2 else i + 1, fs\<lparr>fs_modifier := MOD_L, fs_expect := CONVERSION\<rparr>)
      else if f ! i = CHR ''h''
      then if i + 1 < length f \<and> f ! (i + 1) = CHR ''h''
           then (i + 2, fs\<lparr>fs_modifier := MOD_HH, fs_expect := CONVERSION\<rparr>)
           else (i + 1, fs\<lparr>fs_modifier := MOD_H, fs_expect := CONVERSION\<rparr>)
      else (i, fs\<lparr>fs_expect := CONVERSION\<rparr>))"

lemma fmt_modifier_char_step:
  "fmt_modifier_char f i fs = (i', fs') \<Longrightarrow> i < i' \<or> i' = i \<and> fs_expect fs' = CONVERSION"
  by (auto simp: fmt_modifier_char_def split: if_splits)

function fmt_loop :: "string \<Rightarrow> nat \<Rightarrow> fmt_state \<Rightarrow> fmt_arg list \<Rightarrow> str_buf \<Rightarrow> (unit result \<times> str_buf) option" where
  "fmt_loop f i fs args buf =
     (if i \<ge> length f then Some (Inr (), buf)
      else if fs_expect fs = NOTHING \<and> f ! i = CHR ''%''
      then fmt_loop f (i + 1) \<lparr>fs_modifier = MOD_NONE, fs_expect = MODIFIER, fs_width = 0, fs_zero_fill = False,
             fs_left_align = False\<rparr> args buf
      else if fs_expect fs = NOTHING
      then (case str_buf_append_char buf (f ! i) of
              (Inl e, buf) \<Rightarrow> Some (Inl e, buf)
            | (Inr _, buf) \<Rightarrow> fmt_loop f (i + 1) fs args buf)
      else if fs_expect fs = MODIFIER
      then (case fmt_modifier_char f i fs of (i, fs) \<Rightarrow> fmt_loop f i fs args buf)
      else (case fmt_conversion (f ! i) fs args buf of
              None \<Rightarrow> None
            | Some (args, Inl e, buf) \<Rightarrow> Some (Inl e, buf)
            | Some (args, Inr _, buf) \<Rightarrow> fmt_loop f (i + 1) (fs\<lparr>fs_expect := NOTHING\<rparr>) args buf))"
  by pat_completeness auto
termination
  by (relation "measure (\<lambda>(f, i, fs, _). 2 * (length f - i) + (if fs_expect fs = MODIFIER then 1 else 0))")
    (auto dest!: fmt_modifier_char_step [OF sym])

declare fmt_loop.simps [simp del]

definition fmt_vfmt :: "str_buf \<Rightarrow> string \<Rightarrow> fmt_arg list \<Rightarrow> (unit result \<times> str_buf) option" where
  "fmt_vfmt buf f args =
     fmt_loop f 0 \<lparr>fs_modifier = MOD_NONE, fs_expect = NOTHING, fs_width = 0, fs_zero_fill = False, fs_left_align = False\<rparr> args buf"

definition fmt_append_kv_u64 :: "str_buf \<Rightarrow> string \<Rightarrow> u64 \<Rightarrow> str_buf" where
  "fmt_append_kv_u64 sb key v =
     (let sb = snd (str_buf_append sb key);
          sb = snd (str_buf_append_char sb CHR '' '');
          sb = snd (fmt_append_u64 v sb)
      in snd (str_buf_append_char sb CHR 0x0A))"

section \<open>What the loops write\<close>

fun dec_str :: "nat \<Rightarrow> string" where
  "dec_str n = (if n < 10 then [dec_char n] else dec_str (n div 10) @ [dec_char (n mod 10)])"

declare dec_str.simps [simp del]

lemma dec_loop_eq: "dec_loop d acc = dec_str (unat d) @ acc"
proof (induction d acc rule: dec_loop.induct)
  case (1 d acc)
  have m: "unat (d mod 10) = unat d mod 10" "unat (d div 10) = unat d div 10" by (simp_all add: unat_mod unat_div)
  have z: "d div 10 = 0 \<longleftrightarrow> unat d < 10" using m(2) by (simp add: word_unat_eq_iff div_eq_0_iff)
  show ?case
  proof (cases "unat d < 10")
    case True
    then show ?thesis using z m(1) by (subst dec_loop.simps, subst dec_str.simps) simp
  next
    case False
    then have "dec_loop (d div 10) (dec_char (unat d mod 10) # acc) = dec_str (unat d div 10) @ dec_char (unat d mod 10) # acc"
      using 1 z m by (simp add: Let_def)
    then show ?thesis using False z m by (subst dec_loop.simps, subst dec_str.simps) (simp add: Let_def)
  qed
qed

lemma dec_str_nonempty [simp]: "dec_str n \<noteq> []"
  by (subst dec_str.simps) simp

lemma of_dec_char: "n < 10 \<Longrightarrow> of_char (dec_char n) = 48 + n"
  by (simp add: dec_char_def of_char_of take_bit_eq_mod)

lemma dec_str_digits: "c \<in> set (dec_str n) \<Longrightarrow> \<exists>d < 10. c = dec_char d"
proof (induction n rule: dec_str.induct)
  case (1 n)
  have "\<exists>d < 10. dec_char (n mod 10) = dec_char d" by (rule exI [of _ "n mod 10"]) simp
  with 1 show ?case unfolding dec_str.simps [of n] by (auto split: if_splits)
qed

definition is_digit :: "char \<Rightarrow> bool" where
  "is_digit c \<longleftrightarrow> (48 :: nat) \<le> of_char c \<and> of_char c \<le> (57 :: nat)"

lemma is_digit_dec: "d < 10 \<Longrightarrow> is_digit (dec_char d)"
  by (simp add: is_digit_def of_dec_char)

lemma dec_char_0: "dec_char 0 = CHR ''0''"
  using of_dec_char [of 0] by (intro of_char_eq_iff [where 'a = nat, THEN iffD1]) simp

lemma digit_dec_char:
  assumes "is_digit c"
  shows "c = dec_char (of_char c - 48)" "of_char c - 48 < (10 :: nat)"
proof -
  have d: "(48 :: nat) \<le> of_char c" "of_char c \<le> (57 :: nat)" using assms by (simp_all add: is_digit_def)
  then show "of_char c - 48 < (10 :: nat)" by simp
  have "48 + (of_char c - 48) = (of_char c :: nat)" using d by simp
  then show "c = dec_char (of_char c - 48)" by (simp add: dec_char_def)
qed

text \<open>The value of the digits, and no leading zero.\<close>

definition dec_val :: "nat \<Rightarrow> string \<Rightarrow> nat" where
  "dec_val v s = foldl (\<lambda>v c. v * 10 + (of_char c - 48)) v s"

lemma dec_val_str: "dec_val 0 (dec_str n) = n"
proof (induction n rule: dec_str.induct)
  case (1 n)
  then show ?case by (subst dec_str.simps) (auto simp: dec_val_def of_dec_char)
qed

lemma dec_str_hd: "0 < n \<Longrightarrow> hd (dec_str n) \<noteq> CHR ''0''"
proof (induction n rule: dec_str.induct)
  case (1 n)
  show ?case
  proof (cases "n < 10")
    case True
    then have "of_char (dec_char n) = 48 + n" by (rule of_dec_char)
    then have "dec_char n \<noteq> CHR ''0''" using 1 by auto
    then show ?thesis using True by (subst dec_str.simps) simp
  next
    case False
    then show ?thesis using 1 by (subst dec_str.simps) (simp add: hd_append)
  qed
qed

lemma dec_str_length: "n < 10 ^ k \<Longrightarrow> 0 < k \<Longrightarrow> length (dec_str n) \<le> k"
proof (induction n arbitrary: k rule: dec_str.induct)
  case (1 n)
  show ?case
  proof (cases "n < 10")
    case True
    then show ?thesis using 1 by (subst dec_str.simps) simp
  next
    case False
    then obtain j where j: "k = Suc j" using 1 by (cases k) auto
    then have "n div 10 < 10 ^ j" using 1(2) by (simp add: less_mult_imp_div_less mult.commute)
    moreover have "0 < j" using False j 1(2) by (cases j) auto
    ultimately show ?thesis using 1(1) [of j] False j by (subst dec_str.simps) simp
  qed
qed

lemma drop_ConsD:
  assumes "drop p str = d # ds"
  shows "p < length str" "str ! p = d" "drop (p + 1) str = ds"
proof -
  show p: "p < length str" using assms by (cases "p < length str") simp_all
  then show "str ! p = d" "drop (p + 1) str = ds" using assms Cons_nth_drop_Suc [OF p] by simp_all
qed

section \<open>Formatting stays inside the buffer\<close>

definition extends :: "str_buf \<Rightarrow> str_buf \<Rightarrow> bool" where
  "extends buf buf' \<longleftrightarrow> sb_cap buf' = sb_cap buf \<and> (\<exists>s. sb_dat buf' = sb_dat buf @ s) \<and>
     (length (sb_dat buf) \<le> sb_cap buf \<longrightarrow> length (sb_dat buf') \<le> sb_cap buf)"

lemma extends_refl [simp]: "extends buf buf"
  by (simp add: extends_def)

lemma extends_trans [trans]: "extends a b \<Longrightarrow> extends b c \<Longrightarrow> extends a c"
  by (auto simp: extends_def)

lemma extends_append: "extends buf (snd (str_buf_append buf s))" "extends buf (snd (str_buf_append_char buf c))"
  by (auto simp: str_buf_append_def str_buf_append_char_def extends_def)

lemma extends_then: "extends buf (snd r) \<Longrightarrow> (\<And>b. extends b (snd (f b))) \<Longrightarrow> extends buf (snd (and_then r f))"
  by (auto simp: and_then_def split: prod.splits sum.splits intro: extends_trans)

lemma extends_chars: "extends buf (snd (append_chars n c buf))"
  by (induction n c buf rule: append_chars.induct) (auto intro!: extends_then extends_append)

lemma extends_pad: "extends buf (snd (fmt_pad w z l f buf))"
  by (auto simp: fmt_pad_def Let_def intro!: extends_then extends_append extends_chars)

lemma extends_convert: "fmt_convert c m args out = Some (args', r) \<Longrightarrow> extends out (snd r)"
  by (auto simp: fmt_convert_def fmt_append_i64_def fmt_append_u64_def fmt_append_hex_def extends_append
      split: if_splits list.splits fmt_arg.splits)

lemma extends_conversion: "fmt_conversion c fs args buf = Some (args', r) \<Longrightarrow> extends buf (snd r)"
  by (auto simp: fmt_conversion_def extends_append extends_pad split: if_splits prod.splits sum.splits option.splits
      intro!: extends_then dest: extends_convert)

lemma extends_loop: "fmt_loop f i fs args buf = Some r \<Longrightarrow> extends buf (snd r)"
proof (induction f i fs args buf rule: fmt_loop.induct)
  case (1 f i fs args buf)
  have app: "extends buf b" if "str_buf_append_char buf c = (x, b)" for c x b using extends_append(2) [of buf c] that by simp
  have conv: "extends buf b" if "fmt_conversion c fs args buf = Some (a, x, b)" for c a x b
    using extends_conversion [OF that] by simp
  show ?case
  proof (cases "i \<ge> length f")
    case True
    then show ?thesis using "1.prems" unfolding fmt_loop.simps [of f i fs args buf] by auto
  next
    case i: False
    show ?thesis
    proof (cases "fs_expect fs")
      case NOTHING
      then show ?thesis using i "1.prems" "1.IH"(1,2) unfolding fmt_loop.simps [of f i fs args buf]
        by (auto simp: extends_append split: if_splits prod.splits sum.splits dest: app intro: extends_trans)
    next
      case MODIFIER
      then show ?thesis using i "1.prems" "1.IH"(3) unfolding fmt_loop.simps [of f i fs args buf] by (simp split: prod.splits)
    next
      case CONVERSION
      then show ?thesis using i "1.prems" "1.IH"(4) unfolding fmt_loop.simps [of f i fs args buf]
        by (auto split: prod.splits sum.splits option.splits dest: conv intro: extends_trans)
    qed
  qed
qed

section \<open>Properties\<close>

text \<open>
  C36: Whatever the format and its arguments, formatting only appends: the bytes that were in the buffer stay, the capacity stays and
  is never exceeded, on success and on every error.\<close>

theorem fmt_vfmt_bounds:
  assumes "fmt_vfmt buf f args = Some (res, buf')" "length (sb_dat buf) \<le> sb_cap buf"
  shows "sb_cap buf' = sb_cap buf \<and> length (sb_dat buf') \<le> sb_cap buf' \<and> take (length (sb_dat buf)) (sb_dat buf') = sb_dat buf"
  using extends_loop [OF assms(1) [unfolded fmt_vfmt_def]] assms(2) by (auto simp: extends_def)

theorem fmt_vfmt_bounds_witness:
  "fmt_vfmt \<lparr>sb_dat = ''a'', sb_cap = 2\<rparr> ''%ux'' [ArgInt 7] = Some (Inl ENOMEM, \<lparr>sb_dat = ''a7'', sb_cap = 2\<rparr>) \<and>
   take 1 ''a7'' = ''a''"
proof -
  have e: "fmt_vfmt \<lparr>sb_dat = ''a'', sb_cap = 2\<rparr> ''%ux'' [ArgInt 7] = Some (Inl ENOMEM, \<lparr>sb_dat = ''a7'', sb_cap = 2\<rparr>)" by code_simp
  show ?thesis using fmt_vfmt_bounds [OF e] e by simp
qed

end
