(* ===== verification/Ip_Addr.thy ===== *)
theory Ip_Addr
  imports Text_Fmt
begin

text \<open>
  IPv4 addresses: parsing, printing and masks (\<^verbatim>\<open>lib/ip_addr.c\<close>, \<^verbatim>\<open>include/mazu/net/ip_addr.h\<close>).
\<close>

record ipv4_addr =
  ip0 :: u8
  ip1 :: u8
  ip2 :: u8
  ip3 :: u8

definition ipv4_addr_new :: "u8 \<Rightarrow> u8 \<Rightarrow> u8 \<Rightarrow> u8 \<Rightarrow> ipv4_addr" where
  "ipv4_addr_new a0 a1 a2 a3 = \<lparr>ip0 = a0, ip1 = a1, ip2 = a2, ip3 = a3\<rparr>"

definition ipv4_addr_is_equal :: "ipv4_addr \<Rightarrow> ipv4_addr \<Rightarrow> bool" where
  "ipv4_addr_is_equal a b \<longleftrightarrow> ip0 a = ip0 b \<and> ip1 a = ip1 b \<and> ip2 a = ip2 b \<and> ip3 a = ip3 b"

section \<open>Printing\<close>

text \<open>The string, or \<open>None\<close> where the assertion that formatting succeeded fails.\<close>

definition ipv4_addr_format :: "ipv4_addr \<Rightarrow> string option" where
  "ipv4_addr_format addr =
     (case fmt_vfmt \<lparr>sb_dat = [], sb_cap = 32\<rparr> ''%hhu.%hhu.%hhu.%hhu''
         [ArgInt (ucast (ip0 addr)), ArgInt (ucast (ip1 addr)), ArgInt (ucast (ip2 addr)), ArgInt (ucast (ip3 addr))] of
        Some (Inr _, sbuf) \<Rightarrow> Some (sb_dat sbuf)
      | _ \<Rightarrow> None)"

section \<open>Masks\<close>

definition ipv4_addr_mask :: "ipv4_addr \<Rightarrow> ipv4_addr \<Rightarrow> ipv4_addr" where
  "ipv4_addr_mask addr m = \<lparr>ip0 = ip0 addr AND ip0 m, ip1 = ip1 addr AND ip1 m, ip2 = ip2 addr AND ip2 m, ip3 = ip3 addr AND ip3 m\<rparr>"

definition prefix_length_to_mask :: "nat \<Rightarrow> ipv4_addr" where
  "prefix_length_to_mask prefix_length =
     (let raw = push_bit (32 - prefix_length) (0xFFFFFFFF :: u32)
      in ipv4_addr_new (ucast (drop_bit 24 raw AND 0xFF)) (ucast (drop_bit 16 raw AND 0xFF))
           (ucast (drop_bit 8 raw AND 0xFF)) (ucast (raw AND 0xFF)))"

definition mask_raw :: "ipv4_addr \<Rightarrow> u32" where
  "mask_raw m = push_bit 24 (ucast (ip0 m)) OR push_bit 16 (ucast (ip1 m)) OR push_bit 8 (ucast (ip2 m)) OR ucast (ip3 m)"

function mask_loop :: "u32 \<Rightarrow> int \<Rightarrow> int" where
  "mask_loop iv prefix_length = (if iv = 0 then prefix_length else mask_loop (drop_bit 1 iv) (prefix_length - 1))"
  by pat_completeness auto
termination
  by (relation "measure (unat \<circ> fst)") (auto simp: unat_shr word_unat_eq_iff)

declare mask_loop.simps [simp del]

text \<open>The prefix length, or \<open>None\<close> where one of the three assertions fails.\<close>

definition ipv4_mask_prefix_length :: "ipv4_addr \<Rightarrow> nat option" where
  "ipv4_mask_prefix_length m =
     (let raw = mask_raw m in
      if raw = 0 then None
      else let prefix_length = mask_loop (NOT raw) 32 in
        if ucast (NOT raw + 1) = (push_bit (nat (32 - prefix_length)) 1 :: u64) \<and> prefix_length > 0 then Some (nat prefix_length) else None)"

section \<open>Parsing\<close>

function decimal_loop :: "string \<Rightarrow> nat \<Rightarrow> nat \<Rightarrow> nat \<Rightarrow> nat \<Rightarrow> nat \<times> nat" where
  "decimal_loop str p v digits max_digits =
     (if digits < max_digits \<and> p < length str \<and> is_digit (str ! p)
      then decimal_loop str (p + 1) (v * 10 + (of_char (str ! p) - 48)) (digits + 1) max_digits
      else (v, p))"
  by pat_completeness auto
termination
  by (relation "measure (\<lambda>(str, p, _). length str - p)") auto

declare decimal_loop.simps [simp del]

text \<open>The value and the new position, or \<open>None\<close> where the code returns \<open>-1\<close>.\<close>

definition parse_decimal :: "string \<Rightarrow> nat \<Rightarrow> nat \<Rightarrow> (nat \<times> nat) option" where
  "parse_decimal str p max_digits =
     (if p \<ge> length str \<or> \<not> is_digit (str ! p) then None
      else let v = of_char (str ! p) - 48 in
        if v = 0 then Some (0, p + 1) else Some (decimal_loop str (p + 1) v 1 max_digits))"

text \<open>One octet, and the dot after it unless it is the last.\<close>

definition parse_octet :: "string \<Rightarrow> bool \<Rightarrow> nat \<Rightarrow> (u8 \<times> nat) option" where
  "parse_octet str dot i =
     (case parse_decimal str i 3 of
        None \<Rightarrow> None
      | Some (v, i) \<Rightarrow>
          if v > 255 then None
          else if dot then (if i \<ge> length str \<or> str ! i \<noteq> CHR ''.'' then None else Some (of_nat v, i + 1))
          else Some (of_nat v, i))"

definition parse_prefix :: "string \<Rightarrow> nat \<Rightarrow> (nat \<times> nat) option" where
  "parse_prefix str i =
     (if i < length str
      then if str ! i \<noteq> CHR ''/'' then None
           else (case parse_decimal str (i + 1) 2 of
                   None \<Rightarrow> None
                 | Some (p, i) \<Rightarrow> if p < 1 \<or> p > 32 then None else Some (p, i))
      else Some (32, i))"

definition ipv4_addr_parse :: "string \<Rightarrow> (ipv4_addr \<times> ipv4_addr) result" where
  "ipv4_addr_parse str =
     (case parse_octet str True 0 of None \<Rightarrow> Inl EINVAL | Some (a0, i) \<Rightarrow>
      case parse_octet str True i of None \<Rightarrow> Inl EINVAL | Some (a1, i) \<Rightarrow>
      case parse_octet str True i of None \<Rightarrow> Inl EINVAL | Some (a2, i) \<Rightarrow>
      case parse_octet str False i of None \<Rightarrow> Inl EINVAL | Some (a3, i) \<Rightarrow>
      case parse_prefix str i of None \<Rightarrow> Inl EINVAL | Some (p, i) \<Rightarrow>
        if i \<noteq> length str then Inl EINVAL else Inr (ipv4_addr_new a0 a1 a2 a3, prefix_length_to_mask p))"

section \<open>Reading back a decimal\<close>

lemma decimal_loop_digits:
  assumes "drop p str = ds @ rest" "\<forall>c \<in> set ds. is_digit c" "digits + length ds \<le> max_digits"
    "rest = [] \<or> \<not> is_digit (hd rest)"
  shows "decimal_loop str p v digits max_digits = (dec_val v ds, p + length ds)"
  using assms
proof (induction ds arbitrary: p v digits)
  case Nil
  then have "p < length str \<Longrightarrow> \<not> is_digit (str ! p)" using hd_drop_conv_nth [of p str] by auto
  then show ?case by (subst decimal_loop.simps) (auto simp: dec_val_def)
next
  case (Cons d ds)
  have p: "p < length str" "str ! p = d" "drop (p + 1) str = ds @ rest"
    using drop_ConsD [of p str d "ds @ rest"] Cons.prems(1) by simp_all
  have "decimal_loop str p v digits max_digits = decimal_loop str (p + 1) (v * 10 + (of_char d - 48)) (digits + 1) max_digits"
    by (subst decimal_loop.simps) (use Cons.prems p in simp)
  then show ?case using Cons.IH [OF p(3)] Cons.prems by (simp add: dec_val_def)
qed

lemma parse_decimal_str:
  assumes "drop p str = dec_str n @ rest" "n < 10 ^ max_digits" "0 < max_digits" "rest = [] \<or> \<not> is_digit (hd rest)"
  shows "parse_decimal str p max_digits = Some (n, p + length (dec_str n))"
proof -
  obtain d ds where s: "dec_str n = d # ds" by (cases "dec_str n") auto
  have dig: "\<forall>c \<in> set (d # ds). is_digit c" using dec_str_digits [of _ n] is_digit_dec s by auto
  have p: "p < length str" "str ! p = d" "drop (p + 1) str = ds @ rest"
    using drop_ConsD [of p str d "ds @ rest"] assms(1) s by simp_all
  have v: "dec_val (of_char d - 48) ds = n" using dec_val_str [of n] s by (simp add: dec_val_def)
  show ?thesis
  proof (cases "n = 0")
    case True
    then have "d = dec_char 0" "ds = []" using s by (simp_all add: dec_str.simps)
    then show ?thesis using p dig True s by (simp add: parse_decimal_def of_dec_char)
  next
    case False
    then have "d \<noteq> CHR ''0''" using dec_str_hd [of n] s by simp
    moreover obtain k where k: "k < 10" "d = dec_char k" using dec_str_digits [of d n] s by auto
    ultimately have "of_char d - (48::nat) \<noteq> 0" by (cases k) (simp_all add: of_dec_char dec_char_0)
    moreover have "1 + length ds \<le> max_digits" using dec_str_length [OF assms(2,3)] s by simp
    ultimately show ?thesis
      using p dig decimal_loop_digits [OF p(3) _ _ assms(4), of 1 max_digits "of_char d - 48"] v s
      by (simp add: parse_decimal_def Let_def)
  qed
qed

section \<open>What printing writes\<close>

definition dotted :: "ipv4_addr \<Rightarrow> string" where
  "dotted a = dec_str (unat (ip0 a)) @ ''.'' @ dec_str (unat (ip1 a)) @ ''.'' @ dec_str (unat (ip2 a)) @ ''.'' @ dec_str (unat (ip3 a))"

lemma octet_less: "unat (b :: u8) < 10 ^ 3"
  using unsigned_less [of b, where 'a = nat] by simp

lemma octet_length: "length (dec_str (unat (b :: u8))) \<le> 3"
  by (rule dec_str_length [OF octet_less]) simp

lemma octet_conv: "fmt_conv_u MOD_HH (ucast (b :: u8)) = (ucast b :: u64)"
proof -
  have m: "(0xFF :: u64) = mask 8" by (simp add: mask_eq_exp_minus_1)
  have "unat b < 256" using unsigned_less [of b, where 'a = nat] by simp
  then have "unat (fmt_conv_u MOD_HH (ucast b)) = unat (ucast b :: u64)"
    unfolding fmt_conv_u_def m by (simp add: unsigned_take_bit_eq unsigned_ucast_eq take_bit_nat_eq_self flip: take_bit_eq_mask)
  then show ?thesis by (simp only: word_unat_eq_iff)
qed

lemma unat_octet: "unat (ucast (b :: u8) :: u64) = unat b"
  using unsigned_less [of b, where 'a = nat] by (simp add: unsigned_ucast_eq take_bit_nat_eq_self)

lemma fmt_octet:
  assumes "i + 3 < length f" "f ! i = CHR ''%''" "f ! (i + 1) = CHR ''h''" "f ! (i + 2) = CHR ''h''" "f ! (i + 3) = CHR ''u''"
    "fs_expect fs = NOTHING" "length (sb_dat buf) + 3 \<le> sb_cap buf"
  shows "\<exists>fs'. fs_expect fs' = NOTHING \<and> fmt_loop f i fs (ArgInt (ucast b) # args) buf =
           fmt_loop f (i + 4) fs' args (buf\<lparr>sb_dat := sb_dat buf @ dec_str (unat (b :: u8))\<rparr>)"
proof -
  define fs0 where "fs0 = \<lparr>fs_modifier = MOD_NONE, fs_expect = MODIFIER, fs_width = 0, fs_zero_fill = False, fs_left_align = False\<rparr>"
  define fs1 where "fs1 = fs0\<lparr>fs_modifier := MOD_HH, fs_expect := CONVERSION\<rparr>"
  have "fmt_loop f i fs (ArgInt (ucast b) # args) buf = fmt_loop f (i + 1) fs0 (ArgInt (ucast b) # args) buf"
    by (subst fmt_loop.simps) (use assms in \<open>simp add: fs0_def\<close>)
  also have "\<dots> = fmt_loop f (i + 3) fs1 (ArgInt (ucast b) # args) buf"
    by (subst fmt_loop.simps) (use assms in \<open>simp add: fs0_def fs1_def fmt_modifier_char_def numeral_3_eq_3\<close>)
  also have "\<dots> = fmt_loop f (i + 4) (fs1\<lparr>fs_expect := NOTHING\<rparr>) args (buf\<lparr>sb_dat := sb_dat buf @ dec_str (unat b)\<rparr>)"
    by (subst fmt_loop.simps) (use assms octet_length [of b] in \<open>simp add: fs0_def fs1_def fmt_conversion_def fmt_convert_def
        fmt_append_u64_def str_buf_append_def octet_conv dec_loop_eq unat_octet add.commute [of 4 i]\<close>)
  finally show ?thesis by (intro exI [of _ "fs1\<lparr>fs_expect := NOTHING\<rparr>"]) simp
qed

lemma fmt_dot:
  assumes "i < length f" "f ! i = CHR ''.''" "fs_expect fs = NOTHING" "length (sb_dat buf) < sb_cap buf"
  shows "fmt_loop f i fs args buf = fmt_loop f (i + 1) fs args (buf\<lparr>sb_dat := sb_dat buf @ ''.''\<rparr>)"
  by (subst fmt_loop.simps) (use assms in \<open>simp add: str_buf_append_char_def\<close>)

lemma ipv4_addr_format_eq: "ipv4_addr_format a = Some (dotted a)"
proof -
  let ?f = "''%hhu.%hhu.%hhu.%hhu''"
  let ?fs = "\<lparr>fs_modifier = MOD_NONE, fs_expect = NOTHING, fs_width = 0, fs_zero_fill = False, fs_left_align = False\<rparr>"
  note l = octet_length [of "ip0 a"] octet_length [of "ip1 a"] octet_length [of "ip2 a"] octet_length [of "ip3 a"]
  let ?d0 = "dec_str (unat (ip0 a)) @ ''.''"
  let ?d1 = "?d0 @ dec_str (unat (ip1 a)) @ ''.''"
  let ?d2 = "?d1 @ dec_str (unat (ip2 a)) @ ''.''"
  let ?b = "\<lambda>d. \<lparr>sb_dat = d, sb_cap = 32\<rparr>"
  let ?x = "\<lambda>b. ArgInt (ucast (b :: u8))"
  obtain fs1 where fs1: "fs_expect fs1 = NOTHING"
    "fmt_loop ?f 0 ?fs [?x (ip0 a), ?x (ip1 a), ?x (ip2 a), ?x (ip3 a)] (?b []) = fmt_loop ?f 5 fs1 [?x (ip1 a), ?x (ip2 a), ?x (ip3 a)] (?b ?d0)"
    using fmt_octet [of 0 ?f ?fs "?b []" "ip0 a" "[?x (ip1 a), ?x (ip2 a), ?x (ip3 a)]"]
      fmt_dot [of 4 ?f _ "?b (dec_str (unat (ip0 a)))" "[?x (ip1 a), ?x (ip2 a), ?x (ip3 a)]"] l by auto
  obtain fs2 where fs2: "fs_expect fs2 = NOTHING"
    "fmt_loop ?f 5 fs1 [?x (ip1 a), ?x (ip2 a), ?x (ip3 a)] (?b ?d0) = fmt_loop ?f 10 fs2 [?x (ip2 a), ?x (ip3 a)] (?b ?d1)"
    using fmt_octet [of 5 ?f fs1 "?b ?d0" "ip1 a" "[?x (ip2 a), ?x (ip3 a)]"]
      fmt_dot [of 9 ?f _ "?b (?d0 @ dec_str (unat (ip1 a)))" "[?x (ip2 a), ?x (ip3 a)]"] l fs1(1) by auto
  obtain fs3 where fs3: "fs_expect fs3 = NOTHING"
    "fmt_loop ?f 10 fs2 [?x (ip2 a), ?x (ip3 a)] (?b ?d1) = fmt_loop ?f 15 fs3 [?x (ip3 a)] (?b ?d2)"
    using fmt_octet [of 10 ?f fs2 "?b ?d1" "ip2 a" "[?x (ip3 a)]"]
      fmt_dot [of 14 ?f _ "?b (?d1 @ dec_str (unat (ip2 a)))" "[?x (ip3 a)]"] l fs2(1) by auto
  obtain fs4 where fs4: "fmt_loop ?f 15 fs3 [?x (ip3 a)] (?b ?d2) = fmt_loop ?f 19 fs4 [] (?b (?d2 @ dec_str (unat (ip3 a))))"
    using fmt_octet [of 15 ?f fs3 "?b ?d2" "ip3 a" "[]"] l fs3(1) by auto
  have f5: "fmt_loop ?f 19 fs4 [] (?b (?d2 @ dec_str (unat (ip3 a)))) = Some (Inr (), ?b (?d2 @ dec_str (unat (ip3 a))))"
    by (subst fmt_loop.simps) simp
  show ?thesis unfolding ipv4_addr_format_def fmt_vfmt_def fs1(2) fs2(2) fs3(2) fs4 f5 by (simp add: dotted_def)
qed

section \<open>Reading it back\<close>

definition stops :: "string \<Rightarrow> bool" where
  "stops rest \<longleftrightarrow> rest = [] \<or> \<not> is_digit (hd rest)"

lemma stops_simps [simp]: "stops []" "stops (CHR ''.'' # r)" "stops (CHR ''/'' # r)"
  by (simp_all add: stops_def is_digit_def)

lemma parse_octet_dot:
  assumes "drop i str = dec_str (unat (b :: u8)) @ CHR ''.'' # rest"
  shows "parse_octet str True i = Some (b, i + length (dec_str (unat b)) + 1)" "drop (i + length (dec_str (unat b)) + 1) str = rest"
proof -
  have d: "parse_decimal str i 3 = Some (unat b, i + length (dec_str (unat b)))"
    using parse_decimal_str [OF assms octet_less] stops_simps(2) by (simp add: stops_def)
  have "drop (i + length (dec_str (unat b))) str = CHR ''.'' # rest"
    using assms by (metis add.commute append_eq_conv_conj drop_drop)
  note r = drop_ConsD [OF this]
  show "drop (i + length (dec_str (unat b)) + 1) str = rest" by (rule r(3))
  have "unat b \<le> 255" using unsigned_less [of b, where 'a = nat] by simp
  then show "parse_octet str True i = Some (b, i + length (dec_str (unat b)) + 1)"
    using d r(1,2) by (simp add: parse_octet_def)
qed

lemma parse_octet_last:
  assumes "drop i str = dec_str (unat (b :: u8)) @ rest" "stops rest"
  shows "parse_octet str False i = Some (b, i + length (dec_str (unat b)))" "drop (i + length (dec_str (unat b))) str = rest"
proof -
  have d: "parse_decimal str i 3 = Some (unat b, i + length (dec_str (unat b)))"
    using parse_decimal_str [OF assms(1) octet_less] assms(2) by (simp add: stops_def)
  show "drop (i + length (dec_str (unat b))) str = rest" using assms(1) by (metis add.commute append_eq_conv_conj drop_drop)
  have "unat b \<le> 255" using unsigned_less [of b, where 'a = nat] by simp
  then show "parse_octet str False i = Some (b, i + length (dec_str (unat b)))" using d by (simp add: parse_octet_def)
qed

text \<open>The optional prefix as written after an address.\<close>

definition prefix_str :: "nat option \<Rightarrow> string" where
  "prefix_str p = (case p of None \<Rightarrow> [] | Some p \<Rightarrow> CHR ''/'' # dec_str p)"

lemma parse_prefix_str:
  assumes "drop i str = prefix_str p" "i \<le> length str" "\<forall>n. p = Some n \<longrightarrow> 1 \<le> n \<and> n \<le> 32"
  shows "parse_prefix str i = Some (case p of None \<Rightarrow> 32 | Some n \<Rightarrow> n, length str)"
proof (cases p)
  case None
  then show ?thesis using assms by (simp add: parse_prefix_def prefix_str_def)
next
  case (Some n)
  then have "drop i str = CHR ''/'' # dec_str n" using assms(1) by (simp add: prefix_str_def)
  note r = drop_ConsD [OF this]
  have "parse_decimal str (i + 1) 2 = Some (n, i + 1 + length (dec_str n))"
    using parse_decimal_str [of "i + 1" str n "[]" 2] r(3) assms(3) Some by simp
  moreover have "length str = i + 1 + length (dec_str n)" using arg_cong [OF r(3), of length] r(1) by simp
  ultimately show ?thesis using r assms(3) Some by (simp add: parse_prefix_def)
qed

lemma ipv4_addr_parse_dotted:
  assumes "\<forall>n. p = Some n \<longrightarrow> 1 \<le> n \<and> n \<le> 32"
  shows "ipv4_addr_parse (dotted a @ prefix_str p) = Inr (a, prefix_length_to_mask (case p of None \<Rightarrow> 32 | Some n \<Rightarrow> n))"
proof -
  let ?s = "dotted a @ prefix_str p"
  have d0: "drop 0 ?s = dec_str (unat (ip0 a)) @ CHR ''.'' # dec_str (unat (ip1 a)) @ CHR ''.'' # dec_str (unat (ip2 a)) @ CHR ''.'' #
    dec_str (unat (ip3 a)) @ prefix_str p" by (simp add: dotted_def)
  note o0 = parse_octet_dot [OF d0]
  note o1 = parse_octet_dot [OF o0(2)]
  note o2 = parse_octet_dot [OF o1(2)]
  have "stops (prefix_str p)" by (cases p) (simp_all add: prefix_str_def)
  note o3 = parse_octet_last [OF o2(2) this]
  have "0 + length (dec_str (unat (ip0 a))) + 1 + length (dec_str (unat (ip1 a))) + 1 + length (dec_str (unat (ip2 a))) + 1 +
    length (dec_str (unat (ip3 a))) \<le> length ?s" by (simp add: dotted_def)
  note p = parse_prefix_str [OF o3(2) this assms]
  show ?thesis unfolding ipv4_addr_parse_def o0(1) option.case prod.case o1(1) o2(1) o3(1) p by (simp add: ipv4_addr_new_def)
qed

section \<open>The parser accepts nothing else\<close>

lemma dec_str_snoc: "0 < v \<Longrightarrow> d < 10 \<Longrightarrow> dec_str (v * 10 + d) = dec_str v @ [dec_char d]"
  by (subst dec_str.simps) simp

lemma decimal_loop_sound:
  assumes "decimal_loop str p v digits k = (n, q)" "0 < v"
  shows "p \<le> q \<and> (p \<le> length str \<longrightarrow> q \<le> length str) \<and> dec_str n = dec_str v @ take (q - p) (drop p str)"
  using assms
proof (induction str p v digits k rule: decimal_loop.induct)
  case (1 str p v digits k)
  show ?case
  proof (cases "digits < k \<and> p < length str \<and> is_digit (str ! p)")
    case True
    let ?d = "of_char (str ! p) - 48 :: nat"
    have "decimal_loop str (p + 1) (v * 10 + ?d) (digits + 1) k = (n, q)"
      using "1.prems"(1) True by (subst (asm) decimal_loop.simps) simp
    then have ih: "p + 1 \<le> q" "q \<le> length str" "dec_str n = dec_str (v * 10 + ?d) @ take (q - (p + 1)) (drop (p + 1) str)"
      using "1.IH" True "1.prems"(2) by auto
    have "take (q - p) (drop p str) = str ! p # take (q - (p + 1)) (drop (p + 1) str)"
      using True ih(1) Cons_nth_drop_Suc [of p str] take_Suc_Cons [of "q - (p + 1)" "str ! p" "drop (Suc p) str"]
      by (simp add: Suc_diff_le [symmetric] flip: Suc_eq_plus1)
    then show ?thesis using ih dec_str_snoc [OF "1.prems"(2) digit_dec_char(2)] digit_dec_char(1) True by simp
  next
    case False
    then show ?thesis using "1.prems" by (subst (asm) decimal_loop.simps) auto
  qed
qed

lemma parse_decimal_sound:
  assumes "parse_decimal str p k = Some (n, q)"
  shows "p < q \<and> q \<le> length str \<and> drop p str = dec_str n @ drop q str"
proof -
  let ?v = "of_char (str ! p) - 48 :: nat"
  have p: "p < length str" "is_digit (str ! p)" using assms by (auto simp: parse_decimal_def split: if_splits)
  note c = digit_dec_char [OF p(2)]
  have e: "dec_str ?v = [str ! p]" using c by (subst dec_str.simps) simp
  have d: "drop p str = str ! p # drop (p + 1) str" using Cons_nth_drop_Suc [OF p(1)] by simp
  show ?thesis
  proof (cases "?v = 0")
    case True
    then have "n = 0" "q = p + 1" using assms p by (auto simp: parse_decimal_def)
    then show ?thesis using p d e True by simp
  next
    case False
    then have l: "decimal_loop str (p + 1) ?v 1 k = (n, q)" using assms p by (simp add: parse_decimal_def)
    note s = decimal_loop_sound [OF l]
    have "drop (p + 1) str = take (q - (p + 1)) (drop (p + 1) str) @ drop q str"
      using s False append_take_drop_id [of "q - (p + 1)" "drop (p + 1) str"] by simp
    then show ?thesis using s False p d e by simp
  qed
qed

lemma parse_octet_sound:
  assumes "parse_octet str dot i = Some (b, j)"
  shows "j \<le> length str \<and> drop i str = dec_str (unat b) @ (if dot then ''.'' else []) @ drop j str"
proof -
  obtain v q where d: "parse_decimal str i 3 = Some (v, q)" "v \<le> 255" "b = of_nat v"
    "if dot then q < length str \<and> str ! q = CHR ''.'' \<and> j = q + 1 else j = q"
    using assms by (auto simp: parse_octet_def split: option.splits if_splits)
  have "unat b = v" using d(2,3) by (simp add: unsigned_of_nat take_bit_nat_eq_self)
  then show ?thesis using parse_decimal_sound [OF d(1)] d(4) Cons_nth_drop_Suc [of q str] by (cases dot) auto
qed

lemma parse_prefix_sound:
  assumes "parse_prefix str i = Some (p, length str)" "i \<le> length str"
  shows "\<exists>q. drop i str = prefix_str q \<and> p = (case q of None \<Rightarrow> 32 | Some n \<Rightarrow> n) \<and> (\<forall>n. q = Some n \<longrightarrow> 1 \<le> n \<and> n \<le> 32)"
proof (cases "i < length str")
  case True
  then have c: "str ! i = CHR ''/''" "parse_decimal str (i + 1) 2 = Some (p, length str)" "1 \<le> p" "p \<le> 32"
    using assms by (auto simp: parse_prefix_def split: option.splits if_splits)
  have "drop i str = CHR ''/'' # dec_str p" using parse_decimal_sound [OF c(2)] c(1) Cons_nth_drop_Suc [OF True] by simp
  then show ?thesis using c(3,4) by (intro exI [of _ "Some p"]) (simp add: prefix_str_def)
next
  case False
  then show ?thesis using assms by (intro exI [of _ None]) (auto simp: parse_prefix_def prefix_str_def)
qed

lemma ipv4_addr_parse_sound:
  assumes "ipv4_addr_parse str = Inr (a, m)"
  shows "\<exists>q. str = dotted a @ prefix_str q \<and> m = prefix_length_to_mask (case q of None \<Rightarrow> 32 | Some n \<Rightarrow> n) \<and>
    (\<forall>n. q = Some n \<longrightarrow> 1 \<le> n \<and> n \<le> 32)"
proof -
  obtain a0 i0 a1 i1 a2 i2 a3 i3 p where r: "parse_octet str True 0 = Some (a0, i0)" "parse_octet str True i0 = Some (a1, i1)"
    "parse_octet str True i1 = Some (a2, i2)" "parse_octet str False i2 = Some (a3, i3)" "parse_prefix str i3 = Some (p, length str)"
    "a = ipv4_addr_new a0 a1 a2 a3" "m = prefix_length_to_mask p"
    using assms by (auto simp: ipv4_addr_parse_def split: option.splits prod.splits if_splits)
  note oct = r(1-4) [THEN parse_octet_sound]
  obtain q where q: "drop i3 str = prefix_str q" "p = (case q of None \<Rightarrow> 32 | Some n \<Rightarrow> n)" "\<forall>n. q = Some n \<longrightarrow> 1 \<le> n \<and> n \<le> 32"
    using parse_prefix_sound [OF r(5)] oct(4) by auto
  have "str = dotted a @ prefix_str q" using oct q(1) r(6) by (simp add: dotted_def ipv4_addr_new_def)
  then show ?thesis using q r(7) by auto
qed

section \<open>Masks and prefix lengths\<close>

lemma mask_prefix_length: "1 \<le> n \<Longrightarrow> n \<le> 32 \<Longrightarrow> ipv4_mask_prefix_length (prefix_length_to_mask n) = Some n"
proof -
  assume n: "1 \<le> n" "n \<le> 32"
  have "list_all (\<lambda>n. ipv4_mask_prefix_length (prefix_length_to_mask n) = Some n) [1..<33]" by code_simp
  with n show ?thesis by (simp add: list_all_iff)
qed

section \<open>Properties\<close>

text \<open>
  C33: Printing an address always succeeds, and the parser reads back from the printed text, alone or with any valid prefix length
  after a slash, that address and the mask of the prefix length, from which the prefix length is recovered.\<close>

theorem ipv4_addr_roundtrip:
  "\<exists>s. ipv4_addr_format a = Some s \<and> ipv4_addr_parse s = Inr (a, prefix_length_to_mask 32) \<and>
     (\<forall>n. 1 \<le> n \<and> n \<le> 32 \<longrightarrow>
        ipv4_addr_parse (s @ ''/'' @ dec_loop (of_nat n) []) = Inr (a, prefix_length_to_mask n) \<and>
        ipv4_mask_prefix_length (prefix_length_to_mask n) = Some n)"
proof -
  have "ipv4_addr_parse (dotted a) = Inr (a, prefix_length_to_mask 32)"
    using ipv4_addr_parse_dotted [of None a] by (simp add: prefix_str_def)
  moreover have "ipv4_addr_parse (dotted a @ ''/'' @ dec_loop (of_nat n) []) = Inr (a, prefix_length_to_mask n)"
    if "1 \<le> n \<and> n \<le> 32" for n
    using ipv4_addr_parse_dotted [of "Some n" a] that by (simp add: prefix_str_def dec_loop_eq unsigned_of_nat take_bit_nat_eq_self)
  ultimately show ?thesis using ipv4_addr_format_eq mask_prefix_length by blast
qed

theorem ipv4_addr_roundtrip_witness:
  "\<exists>s. ipv4_addr_format (ipv4_addr_new 10 0 2 15) = Some s \<and>
     ipv4_addr_parse (s @ ''/'' @ dec_loop 24 []) = Inr (ipv4_addr_new 10 0 2 15, prefix_length_to_mask 24)"
proof -
  obtain s where s: "ipv4_addr_format (ipv4_addr_new 10 0 2 15) = Some s" "\<forall>n. 1 \<le> n \<and> n \<le> 32 \<longrightarrow>
      ipv4_addr_parse (s @ ''/'' @ dec_loop (of_nat n) []) = Inr (ipv4_addr_new 10 0 2 15, prefix_length_to_mask n)"
    using ipv4_addr_roundtrip [of "ipv4_addr_new 10 0 2 15"] by blast
  then show ?thesis using spec [OF s(2), of 24] by (intro exI [of _ s]) simp
qed

text \<open>
  C34: The parser accepts exactly the canonical texts: four decimal octets without leading zeros, with dots between them, alone or
  followed by a slash and a prefix length from 1 to 32 without leading zeros; everything else is refused.\<close>

theorem ipv4_addr_parse_exact:
  "ipv4_addr_parse s = Inr (a, m) \<longleftrightarrow>
     (s = dotted a \<and> m = prefix_length_to_mask 32) \<or>
     (\<exists>n. 1 \<le> n \<and> n \<le> 32 \<and> s = dotted a @ ''/'' @ dec_str n \<and> m = prefix_length_to_mask n)" (is "?l \<longleftrightarrow> ?r")
proof
  assume ?l
  from ipv4_addr_parse_sound [OF this] obtain q where "s = dotted a @ prefix_str q"
    "m = prefix_length_to_mask (case q of None \<Rightarrow> 32 | Some n \<Rightarrow> n)" "\<forall>n. q = Some n \<longrightarrow> 1 \<le> n \<and> n \<le> 32" by blast
  then show ?r by (cases q) (auto simp: prefix_str_def)
next
  assume ?r
  then show ?l
  proof (elim disjE exE conjE)
    assume "s = dotted a" "m = prefix_length_to_mask 32"
    then show ?l using ipv4_addr_parse_dotted [of None a] by (simp add: prefix_str_def)
  next
    fix n
    assume "1 \<le> n" "n \<le> 32" "s = dotted a @ ''/'' @ dec_str n" "m = prefix_length_to_mask n"
    then show ?l using ipv4_addr_parse_dotted [of "Some n" a] by (simp add: prefix_str_def)
  qed
qed

end
