(* ===== verification/Json.thy ===== *)
theory Json
  imports Text_Fmt
begin

text \<open>
  JSON (\<^verbatim>\<open>lib/json.c\<close>): a recursive-descent parser over positions in the input, and the emitters that append to a byte buffer.
  The depth counter is the recursion argument: the functions get the levels that remain. The arena the parser takes memory from
  crashes the system when it is exhausted; here it is large enough.
\<close>

section \<open>Values\<close>

datatype json_value =
    JSON_NULL
  | JSON_BOOL bool
  | JSON_INT int
  | JSON_FLOAT int
  | JSON_STRING string
  | JSON_ARRAY "json_value list"
  | JSON_OBJECT "(string \<times> json_value) list"

datatype json_error = ERR_UNEXPECTED_TOKEN | ERR_UNTERMINATED_STRING | ERR_DEPTH_EXCEEDED | ERR_TRAILING_INPUT | ERR_OVERFLOW

text \<open>A parse step gives an error with its offset, or what it read and the next position.\<close>

type_synonym 'a parsed = "json_error \<times> nat + 'a \<times> nat"

abbreviation (input) JSON_MAX_DEPTH :: nat where "JSON_MAX_DEPTH \<equiv> 16"
abbreviation (input) JSON_CONTAINER_MAX :: nat where "JSON_CONTAINER_MAX \<equiv> 64"

section \<open>Parser\<close>

definition jp_at :: "string \<Rightarrow> nat \<Rightarrow> char \<Rightarrow> bool" where
  "jp_at inp pos c \<longleftrightarrow> pos < length inp \<and> inp ! pos = c"

function jp_skip_ws :: "string \<Rightarrow> nat \<Rightarrow> nat" where
  "jp_skip_ws inp pos =
     (if pos < length inp \<and> inp ! pos \<in> {CHR '' '', CHR 0x09, CHR 0x0A, CHR 0x0D} then jp_skip_ws inp (pos + 1) else pos)"
  by pat_completeness auto
termination
  by (relation "measure (\<lambda>(inp, pos). length inp - pos)") auto

declare jp_skip_ws.simps [simp del]

text \<open>The closing quote: the position after it and whether an escape came before it.\<close>

function jp_scan :: "string \<Rightarrow> nat \<Rightarrow> bool \<Rightarrow> bool parsed" where
  "jp_scan inp pos has_escape =
     (if pos \<ge> length inp then Inl (ERR_UNTERMINATED_STRING, pos)
      else if inp ! pos = CHR 0x22 then Inr (has_escape, pos + 1)
      else if inp ! pos = CHR 0x5C
      then if pos + 1 \<ge> length inp then Inl (ERR_UNTERMINATED_STRING, pos + 1) else jp_scan inp (pos + 2) True
      else jp_scan inp (pos + 1) has_escape)"
  by pat_completeness auto
termination
  by (relation "measure (\<lambda>(inp, pos, _). length inp - pos)") auto

declare jp_scan.simps [simp del]

definition jp_escape :: "char \<Rightarrow> string" where
  "jp_escape esc =
     (if esc \<in> {CHR 0x22, CHR 0x5C, CHR ''/''} then [esc]
      else if esc = CHR ''n'' then [CHR 0x0A]
      else if esc = CHR ''r'' then [CHR 0x0D]
      else if esc = CHR ''t'' then [CHR 0x09]
      else if esc = CHR ''b'' then [CHR 0x08]
      else if esc = CHR ''f'' then [CHR 0x0C]
      else [CHR 0x5C, esc])"

fun jp_unescape :: "string \<Rightarrow> string" where
  "jp_unescape [] = []"
| "jp_unescape [ch] = [ch]"
| "jp_unescape (ch # esc # raw) = (if ch = CHR 0x5C then jp_escape esc @ jp_unescape raw else ch # jp_unescape (esc # raw))"

definition jp_parse_string :: "string \<Rightarrow> nat \<Rightarrow> string parsed" where
  "jp_parse_string inp pos =
     (if \<not> jp_at inp pos CHR 0x22 then Inl (ERR_UNEXPECTED_TOKEN, pos)
      else let start = pos + 1 in
        case jp_scan inp start False of
          Inl e \<Rightarrow> Inl e
        | Inr (has_escape, pos) \<Rightarrow>
            let raw = take (pos - 1 - start) (drop start inp)
            in Inr (if has_escape then jp_unescape raw else raw, pos))"

definition jp_digit_at :: "string \<Rightarrow> nat \<Rightarrow> bool" where
  "jp_digit_at inp pos \<longleftrightarrow> pos < length inp \<and> is_digit (inp ! pos)"

function jp_int_part :: "string \<Rightarrow> bool \<Rightarrow> nat \<Rightarrow> u64 \<Rightarrow> u64 parsed" where
  "jp_int_part inp negative pos int_part =
     (if \<not> jp_digit_at inp pos then Inr (int_part, pos)
      else let d = of_nat (of_char (inp ! pos) - 48); limit = (if negative then 0x8000000000000000 else 0x7FFFFFFFFFFFFFFF)
        in if int_part > (limit - d) div 10 then Inl (ERR_OVERFLOW, pos)
           else jp_int_part inp negative (pos + 1) (int_part * 10 + d))"
  by pat_completeness auto
termination
  by (relation "measure (\<lambda>(inp, _, pos, _). length inp - pos)") (auto simp: jp_digit_at_def)

declare jp_int_part.simps [simp del]

function jp_frac :: "string \<Rightarrow> nat \<Rightarrow> int \<Rightarrow> int \<Rightarrow> int \<times> nat" where
  "jp_frac inp pos scale frac_scaled =
     (if \<not> jp_digit_at inp pos then (frac_scaled, pos)
      else if scale > 0
      then jp_frac inp (pos + 1) (scale div 10) (frac_scaled + int (of_char (inp ! pos) - 48) * scale)
      else jp_frac inp (pos + 1) scale frac_scaled)"
  by pat_completeness auto
termination
  by (relation "measure (\<lambda>(inp, pos, _). length inp - pos)") (auto simp: jp_digit_at_def)

declare jp_frac.simps [simp del]

function jp_skip_digits :: "string \<Rightarrow> nat \<Rightarrow> nat" where
  "jp_skip_digits inp pos = (if jp_digit_at inp pos then jp_skip_digits inp (pos + 1) else pos)"
  by pat_completeness auto
termination
  by (relation "measure (\<lambda>(inp, pos). length inp - pos)") (auto simp: jp_digit_at_def)

declare jp_skip_digits.simps [simp del]

text \<open>The exponent is read and dropped.\<close>

definition jp_exponent :: "string \<Rightarrow> nat \<Rightarrow> bool \<times> nat" where
  "jp_exponent inp pos =
     (if jp_at inp pos CHR ''e'' \<or> jp_at inp pos CHR ''E''
      then let pos = pos + 1;
               pos = (if jp_at inp pos CHR ''+'' \<or> jp_at inp pos CHR ''-'' then pos + 1 else pos)
        in (True, jp_skip_digits inp pos)
      else (False, pos))"

definition jp_parse_number :: "string \<Rightarrow> nat \<Rightarrow> json_value parsed" where
  "jp_parse_number inp start =
     (let negative = jp_at inp start CHR ''-''; pos = (if negative then start + 1 else start) in
      case jp_int_part inp negative pos 0 of
        Inl e \<Rightarrow> Inl e
      | Inr (int_part, pos) \<Rightarrow>
          let point = jp_at inp pos CHR ''.'';
              (frac_scaled, pos) = (if point then jp_frac inp (pos + 1) 100000 0 else (0, pos));
              (expo, pos) = jp_exponent inp pos
          in if pos = start \<or> (pos = start + 1 \<and> negative) then Inl (ERR_UNEXPECTED_TOKEN, pos)
             else if point \<or> expo
             then if int_part > (0x7FFFFFFFFFFFFFFF - 999999) div 1000000 then Inl (ERR_OVERFLOW, pos)
                  else let fixed_point = uint int_part * 1000000 + frac_scaled
                    in Inr (JSON_FLOAT (if negative then - fixed_point else fixed_point), pos)
             else Inr (JSON_INT (sint (if negative then 0 - int_part else int_part)), pos))"

definition jp_match :: "string \<Rightarrow> nat \<Rightarrow> string \<Rightarrow> bool" where
  "jp_match inp pos s \<longleftrightarrow> pos + length s \<le> length inp \<and> list_all (\<lambda>i. inp ! (pos + i) = s ! i) [0..<length s]"

text \<open>The element loop; its counter is the number of elements the table still takes.\<close>

primrec jp_elements :: "string \<Rightarrow> (nat \<Rightarrow> 'a parsed) \<Rightarrow> nat \<Rightarrow> nat \<Rightarrow> 'a list parsed" where
  "jp_elements inp parse 0 pos = Inl (ERR_OVERFLOW, pos)"
| "jp_elements inp parse (Suc room) pos =
     (case parse pos of
        Inl e \<Rightarrow> Inl e
      | Inr (v, pos) \<Rightarrow>
          let pos = jp_skip_ws inp pos in
          if pos \<ge> length inp then Inl (ERR_UNEXPECTED_TOKEN, pos)
          else if inp ! pos = CHR '',''
          then (case jp_elements inp parse room (jp_skip_ws inp (pos + 1)) of
                  Inl e \<Rightarrow> Inl e
                | Inr (vs, pos) \<Rightarrow> Inr (v # vs, pos))
          else Inr ([v], pos))"

definition jp_container :: "string \<Rightarrow> char \<Rightarrow> (nat \<Rightarrow> 'a parsed) \<Rightarrow> nat \<Rightarrow> 'a list parsed" where
  "jp_container inp close parse pos =
     (let pos = jp_skip_ws inp (pos + 1) in
      case (if pos < length inp \<and> inp ! pos \<noteq> close then jp_elements inp parse JSON_CONTAINER_MAX pos else Inr ([], pos)) of
        Inl e \<Rightarrow> Inl e
      | Inr (vs, pos) \<Rightarrow> if \<not> jp_at inp pos close then Inl (ERR_UNEXPECTED_TOKEN, pos) else Inr (vs, pos + 1))"

text \<open>A key and its value.\<close>

definition jp_pair :: "string \<Rightarrow> (nat \<Rightarrow> json_value parsed) \<Rightarrow> nat \<Rightarrow> (string \<times> json_value) parsed" where
  "jp_pair inp parse pos =
     (case jp_parse_string inp (jp_skip_ws inp pos) of
        Inl e \<Rightarrow> Inl e
      | Inr (key, pos) \<Rightarrow>
          let pos = jp_skip_ws inp pos in
          if \<not> jp_at inp pos CHR '':'' then Inl (ERR_UNEXPECTED_TOKEN, pos)
          else (case parse (jp_skip_ws inp (pos + 1)) of
                  Inl e \<Rightarrow> Inl e
                | Inr (v, pos) \<Rightarrow> Inr ((key, v), pos)))"

text \<open>The parser of the values inside a container is \<open>None\<close> at the deepest level.\<close>

definition jp_parse_array :: "string \<Rightarrow> (nat \<Rightarrow> json_value parsed) option \<Rightarrow> nat \<Rightarrow> json_value parsed" where
  "jp_parse_array inp inner pos =
     (case inner of
        None \<Rightarrow> Inl (ERR_DEPTH_EXCEEDED, pos)
      | Some parse \<Rightarrow> map_sum id (map_prod JSON_ARRAY id) (jp_container inp CHR '']'' parse pos))"

definition jp_parse_object :: "string \<Rightarrow> (nat \<Rightarrow> json_value parsed) option \<Rightarrow> nat \<Rightarrow> json_value parsed" where
  "jp_parse_object inp inner pos =
     (case inner of
        None \<Rightarrow> Inl (ERR_DEPTH_EXCEEDED, pos)
      | Some parse \<Rightarrow> map_sum id (map_prod JSON_OBJECT id) (jp_container inp CHR ''}'' (jp_pair inp parse) pos))"

definition jp_value_at :: "string \<Rightarrow> (nat \<Rightarrow> json_value parsed) option \<Rightarrow> nat \<Rightarrow> json_value parsed" where
  "jp_value_at inp inner pos =
     (let pos = jp_skip_ws inp pos in
      if pos \<ge> length inp then Inl (ERR_UNEXPECTED_TOKEN, pos)
      else let c = inp ! pos in
        if c = CHR 0x22 then map_sum id (map_prod JSON_STRING id) (jp_parse_string inp pos)
        else if c = CHR ''{'' then jp_parse_object inp inner pos
        else if c = CHR ''['' then jp_parse_array inp inner pos
        else if c = CHR ''-'' \<or> is_digit c then jp_parse_number inp pos
        else if jp_match inp pos ''true'' then Inr (JSON_BOOL True, pos + 4)
        else if jp_match inp pos ''false'' then Inr (JSON_BOOL False, pos + 5)
        else if jp_match inp pos ''null'' then Inr (JSON_NULL, pos + 4)
        else Inl (ERR_UNEXPECTED_TOKEN, pos))"

primrec jp_parse_value :: "string \<Rightarrow> nat \<Rightarrow> nat \<Rightarrow> json_value parsed" where
  "jp_parse_value inp 0 = jp_value_at inp None"
| "jp_parse_value inp (Suc levels) = jp_value_at inp (Some (jp_parse_value inp levels))"

definition json_parse :: "string \<Rightarrow> (json_error \<times> nat) + json_value" where
  "json_parse inp =
     (case jp_parse_value inp JSON_MAX_DEPTH 0 of
        Inl e \<Rightarrow> Inl e
      | Inr (v, pos) \<Rightarrow>
          let pos = jp_skip_ws inp pos in if pos < length inp then Inl (ERR_TRAILING_INPUT, pos) else Inr v)"

section \<open>Emitter\<close>

record byte_buf =
  bb_dat :: string
  bb_cap :: nat

definition byte_buf_append :: "byte_buf \<Rightarrow> string \<Rightarrow> byte_buf" where
  "byte_buf_append bb bv = bb\<lparr>bb_dat := bb_dat bb @ take (min (bb_cap bb - length (bb_dat bb)) (length bv)) bv\<rparr>"

definition emit_raw :: "byte_buf \<Rightarrow> string \<Rightarrow> byte_buf" where
  "emit_raw buf s = byte_buf_append buf s"

definition emit_char :: "byte_buf \<Rightarrow> char \<Rightarrow> byte_buf" where
  "emit_char buf c = byte_buf_append buf [c]"

definition json_emit_object_start :: "byte_buf \<Rightarrow> byte_buf" where "json_emit_object_start buf = emit_char buf CHR ''{''"
definition json_emit_object_end :: "byte_buf \<Rightarrow> byte_buf" where "json_emit_object_end buf = emit_char buf CHR ''}''"
definition json_emit_array_start :: "byte_buf \<Rightarrow> byte_buf" where "json_emit_array_start buf = emit_char buf CHR ''[''"
definition json_emit_array_end :: "byte_buf \<Rightarrow> byte_buf" where "json_emit_array_end buf = emit_char buf CHR '']''"
definition json_emit_comma :: "byte_buf \<Rightarrow> byte_buf" where "json_emit_comma buf = emit_char buf CHR '',''"

definition emit_string_char :: "byte_buf \<Rightarrow> char \<Rightarrow> byte_buf" where
  "emit_string_char buf c =
     (if c = CHR 0x22 then emit_raw buf [CHR 0x5C, CHR 0x22]
      else if c = CHR 0x5C then emit_raw buf [CHR 0x5C, CHR 0x5C]
      else if c = CHR 0x0A then emit_raw buf [CHR 0x5C, CHR ''n'']
      else if c = CHR 0x0D then emit_raw buf [CHR 0x5C, CHR ''r'']
      else if c = CHR 0x09 then emit_raw buf [CHR 0x5C, CHR ''t'']
      else if of_char c < (0x20 :: nat)
      then emit_raw buf [CHR 0x5C, CHR ''u'', CHR ''0'', CHR ''0'', hex_lower ! (of_char c div 16 mod 16), hex_lower ! (of_char c mod 16)]
      else emit_char buf c)"

definition json_emit_string :: "byte_buf \<Rightarrow> string \<Rightarrow> byte_buf" where
  "json_emit_string buf val = emit_char (foldl emit_string_char (emit_char buf CHR 0x22) val) CHR 0x22"

definition json_emit_key :: "byte_buf \<Rightarrow> string \<Rightarrow> byte_buf" where
  "json_emit_key buf key = emit_char (json_emit_string buf key) CHR '':''"

definition json_emit_int :: "byte_buf \<Rightarrow> int \<Rightarrow> byte_buf" where
  "json_emit_int buf val =
     (let neg = val < 0;
          abs_val = (if neg then of_int (- (val + 1)) + 1 else of_int val);
          s = dec_loop abs_val []
      in emit_raw buf (if neg then CHR ''-'' # s else s))"

definition json_emit_bool :: "byte_buf \<Rightarrow> bool \<Rightarrow> byte_buf" where
  "json_emit_bool buf val = emit_raw buf (if val then ''true'' else ''false'')"

definition json_emit_null :: "byte_buf \<Rightarrow> byte_buf" where
  "json_emit_null buf = emit_raw buf ''null''"

definition json_emit_key_string :: "byte_buf \<Rightarrow> string \<Rightarrow> string \<Rightarrow> byte_buf" where
  "json_emit_key_string buf key val = json_emit_string (json_emit_key buf key) val"

definition json_emit_key_int :: "byte_buf \<Rightarrow> string \<Rightarrow> int \<Rightarrow> byte_buf" where
  "json_emit_key_int buf key val = json_emit_int (json_emit_key buf key) val"

definition json_emit_key_bool :: "byte_buf \<Rightarrow> string \<Rightarrow> bool \<Rightarrow> byte_buf" where
  "json_emit_key_bool buf key val = json_emit_bool (json_emit_key buf key) val"

section \<open>Lookup\<close>

definition json_object_get :: "json_value option \<Rightarrow> string \<Rightarrow> json_value option" where
  "json_object_get obj key =
     (case obj of
        Some (JSON_OBJECT pairs) \<Rightarrow> map_option snd (find (\<lambda>kv. fst kv = key) pairs)
      | _ \<Rightarrow> None)"

end
