(* ===== verification/Json_Correct.thy ===== *)
theory Json_Correct
  imports Json
begin

text \<open>
  The JSON parser reads back what the emitters write, and what it returns is bounded.
\<close>

section \<open>What the emitters write\<close>

lemma append_append [simp]: "byte_buf_append (byte_buf_append bb s) t = byte_buf_append bb (s @ t)"
  by (cases "length s \<le> bb_cap bb - length (bb_dat bb)") (simp_all add: byte_buf_append_def min_def)

definition escape_char :: "char \<Rightarrow> string" where
  "escape_char c =
     (if c = CHR 0x22 then [CHR 0x5C, CHR 0x22]
      else if c = CHR 0x5C then [CHR 0x5C, CHR 0x5C]
      else if c = CHR 0x0A then [CHR 0x5C, CHR ''n'']
      else if c = CHR 0x0D then [CHR 0x5C, CHR ''r'']
      else if c = CHR 0x09 then [CHR 0x5C, CHR ''t'']
      else if of_char c < (0x20 :: nat)
      then [CHR 0x5C, CHR ''u'', CHR ''0'', CHR ''0'', hex_lower ! (of_char c div 16 mod 16), hex_lower ! (of_char c mod 16)]
      else [c])"

definition string_text :: "string \<Rightarrow> string" where
  "string_text s = CHR 0x22 # concat (map escape_char s) @ [CHR 0x22]"

definition int_text :: "int \<Rightarrow> string" where
  "int_text i = (if i < 0 then CHR ''-'' # dec_str (nat (- i)) else dec_str (nat i))"

lemma emit_string_char_eq: "emit_string_char buf c = byte_buf_append buf (escape_char c)"
  by (simp add: emit_string_char_def escape_char_def emit_raw_def emit_char_def)

lemma emit_chars_eq: "foldl emit_string_char (byte_buf_append buf t) s = byte_buf_append buf (t @ concat (map escape_char s))"
  by (induction s arbitrary: t) (simp_all add: emit_string_char_eq)

lemma json_emit_string_eq: "json_emit_string buf s = byte_buf_append buf (string_text s)"
  by (simp add: json_emit_string_def emit_char_def emit_chars_eq string_text_def)


text \<open>A whole value: the emitters in the order its shape asks for, and the text that makes.\<close>

fun emit_seq :: "('a \<Rightarrow> byte_buf \<Rightarrow> byte_buf) \<Rightarrow> 'a list \<Rightarrow> byte_buf \<Rightarrow> byte_buf" where
  "emit_seq f [] buf = buf"
| "emit_seq f [v] buf = f v buf"
| "emit_seq f (v # w # vs) buf = emit_seq f (w # vs) (json_emit_comma (f v buf))"

lemma emit_seq_cong [fundef_cong]: "(\<And>v b. v \<in> set vs \<Longrightarrow> f v b = g v b) \<Longrightarrow> vs = ws \<Longrightarrow> b = b' \<Longrightarrow> emit_seq f vs b = emit_seq g ws b'"
  by (induction f vs b arbitrary: ws b' rule: emit_seq.induct) auto


fun commas :: "string list \<Rightarrow> string" where
  "commas [] = []"
| "commas [s] = s"
| "commas (s # t # ss) = s @ CHR '','' # commas (t # ss)"

fun json_text :: "json_value \<Rightarrow> string" where
  "json_text JSON_NULL = ''null''"
| "json_text (JSON_BOOL b) = (if b then ''true'' else ''false'')"
| "json_text (JSON_INT i) = int_text i"
| "json_text (JSON_FLOAT x) = []"
| "json_text (JSON_STRING s) = string_text s"
| "json_text (JSON_ARRAY vs) = CHR ''['' # commas (map json_text vs) @ '']''"
| "json_text (JSON_OBJECT kvs) = CHR ''{'' # commas (map (\<lambda>kv. string_text (fst kv) @ CHR '':'' # json_text (snd kv)) kvs) @ ''}''"

text \<open>The values the emitters can write so that the parser takes them, within \<open>levels\<close> of nesting.\<close>

definition plain_char :: "char \<Rightarrow> bool" where
  "plain_char c \<longleftrightarrow> (0x20 :: nat) \<le> of_char c \<or> c \<in> {CHR 0x0A, CHR 0x0D, CHR 0x09}"

fun json_ok :: "nat \<Rightarrow> json_value \<Rightarrow> bool" where
  "json_ok levels JSON_NULL = True"
| "json_ok levels (JSON_BOOL b) = True"
| "json_ok levels (JSON_INT i) = (- (2 ^ 63) \<le> i \<and> i < 2 ^ 63)"
| "json_ok levels (JSON_FLOAT x) = False"
| "json_ok levels (JSON_STRING s) = list_all plain_char s"
| "json_ok levels (JSON_ARRAY vs) = (0 < levels \<and> length vs \<le> JSON_CONTAINER_MAX \<and> list_all (json_ok (levels - 1)) vs)"
| "json_ok levels (JSON_OBJECT kvs) =
     (0 < levels \<and> length kvs \<le> JSON_CONTAINER_MAX \<and> list_all (\<lambda>kv. list_all plain_char (fst kv) \<and> json_ok (levels - 1) (snd kv)) kvs)"




section \<open>White space and single characters\<close>

definition is_ws :: "char \<Rightarrow> bool" where
  "is_ws c \<longleftrightarrow> c \<in> {CHR '' '', CHR 0x09, CHR 0x0A, CHR 0x0D}"

lemma jp_skip_ws_stay: "pos \<ge> length inp \<or> \<not> is_ws (inp ! pos) \<Longrightarrow> jp_skip_ws inp pos = pos"
  by (subst jp_skip_ws.simps) (auto simp: is_ws_def)

lemma jp_skip_ws_drop: "drop pos inp = c # rest \<Longrightarrow> \<not> is_ws c \<Longrightarrow> jp_skip_ws inp pos = pos"
  using drop_ConsD [of pos inp c rest] by (intro jp_skip_ws_stay) simp

lemma jp_at_drop: "drop pos inp = c # rest \<Longrightarrow> jp_at inp pos c' \<longleftrightarrow> c' = c"
  using drop_ConsD [of pos inp c rest] by (auto simp: jp_at_def)

lemma jp_at_end: "drop pos inp = [] \<Longrightarrow> \<not> jp_at inp pos c"
  by (simp add: jp_at_def)

lemma drop_append: "drop pos inp = s @ rest \<Longrightarrow> drop (pos + length s) inp = rest"
  by (metis add.commute append_eq_conv_conj drop_drop)

section \<open>Strings\<close>

lemma escape_plain:
  assumes "plain_char c"
  shows "(c \<noteq> CHR 0x22 \<and> c \<noteq> CHR 0x5C \<and> escape_char c = [c]) \<or> (\<exists>e. escape_char c = [CHR 0x5C, e] \<and> jp_escape e = [c])"
  using assms by (auto simp: escape_char_def jp_escape_def plain_char_def)

lemma jp_scan_text:
  assumes "drop pos inp = concat (map escape_char s) @ CHR 0x22 # rest" "list_all plain_char s"
  shows "jp_scan inp pos esc =
    Inr (esc \<or> \<not> list_all (\<lambda>c. escape_char c = [c]) s, pos + length (concat (map escape_char s)) + 1)"
  using assms
proof (induction s arbitrary: pos esc)
  case Nil
  then show ?case using drop_ConsD [of pos inp] by (subst jp_scan.simps) simp
next
  case (Cons c s)
  have "plain_char c" using Cons.prems(2) by simp
  from escape_plain [OF this] show ?case
  proof (elim disjE exE conjE)
    assume c: "c \<noteq> CHR 0x22" "c \<noteq> CHR 0x5C" "escape_char c = [c]"
    then have d: "drop pos inp = c # concat (map escape_char s) @ CHR 0x22 # rest" using Cons.prems(1) by simp
    have "jp_scan inp pos esc = jp_scan inp (pos + 1) esc"
      by (subst jp_scan.simps) (use drop_ConsD [OF d] c in simp)
    then show ?thesis using Cons.IH [OF drop_ConsD(3) [OF d]] Cons.prems(2) c by simp
  next
    fix e
    assume e: "escape_char c = [CHR 0x5C, e]"
    then have d: "drop pos inp = CHR 0x5C # e # concat (map escape_char s) @ CHR 0x22 # rest" using Cons.prems(1) by simp
    note d1 = drop_ConsD [OF d]
    note d2 = drop_ConsD [OF d1(3)]
    have "jp_scan inp pos esc = jp_scan inp (pos + 2) True"
      by (subst jp_scan.simps) (use d1 d2 in simp)
    then show ?thesis using Cons.IH [of "pos + 2" True] d2(3) Cons.prems(2) e by (simp add: add.assoc)
  qed
qed

lemma jp_unescape_text: "list_all plain_char s \<Longrightarrow> jp_unescape (concat (map escape_char s)) = s"
proof (induction s)
  case (Cons c s)
  have "plain_char c" using Cons.prems by simp
  from escape_plain [OF this] show ?case
  proof (elim disjE exE conjE)
    assume c: "c \<noteq> CHR 0x22" "c \<noteq> CHR 0x5C" "escape_char c = [c]"
    have "jp_unescape (c # t) = c # jp_unescape t" for t using c(2) by (cases t) simp_all
    then show ?thesis using Cons c by simp
  next
    fix e
    assume "escape_char c = [CHR 0x5C, e]" "jp_escape e = [c]"
    then show ?thesis using Cons by simp
  qed
qed simp

lemma escape_ids: "list_all (\<lambda>c. escape_char c = [c]) s \<Longrightarrow> concat (map escape_char s) = s"
  by (induction s) auto

lemma jp_parse_string_text:
  assumes "drop pos inp = string_text s @ rest" "list_all plain_char s"
  shows "jp_parse_string inp pos = Inr (s, pos + length (string_text s))"
proof -
  let ?e = "concat (map escape_char s)"
  have d: "drop pos inp = CHR 0x22 # ?e @ CHR 0x22 # rest" using assms(1) by (simp add: string_text_def)
  note d1 = drop_ConsD [OF d]
  have t: "take (length ?e) (drop (pos + 1) inp) = ?e" using d1(3) by simp
  let ?esc = "\<not> list_all (\<lambda>c. escape_char c = [c]) s"
  have sc: "jp_scan inp (pos + 1) False = Inr (?esc, pos + 1 + length ?e + 1)" using jp_scan_text [OF d1(3) assms(2), of False] by simp
  have u: "(if ?esc then jp_unescape ?e else ?e) = s" using jp_unescape_text [OF assms(2)] escape_ids [of s] by simp
  have n: "pos + 1 + length ?e + 1 - 1 - (pos + 1) = length ?e" by simp
  have q: "jp_at inp pos CHR 0x22" using jp_at_drop [OF d] by simp
  show ?thesis unfolding jp_parse_string_def Let_def sc sum.case prod.case n t u using q by (simp add: string_text_def)
qed

section \<open>Integers\<close>

definition int_limit :: "bool \<Rightarrow> nat" where
  "int_limit negative = (if negative then 2 ^ 63 else 2 ^ 63 - 1)"

lemma dec_val_Cons: "dec_val v (c # s) = dec_val (v * 10 + (of_char c - 48)) s"
  by (simp add: dec_val_def)

lemma dec_val_ge: "v \<le> dec_val v s"
proof (induction s arbitrary: v)
  case (Cons c s)
  have "v \<le> v * 10 + (of_char c - 48)" by simp
  also have "\<dots> \<le> dec_val (v * 10 + (of_char c - 48)) s" by (rule Cons.IH)
  finally show ?case by (simp only: dec_val_Cons)
qed (simp add: dec_val_def)

lemma jp_digit_at_drop: "drop pos inp = c # rest \<Longrightarrow> jp_digit_at inp pos \<longleftrightarrow> is_digit c"
  using drop_ConsD [of pos inp c rest] by (simp add: jp_digit_at_def)

lemma jp_int_step:
  fixes acc :: u64
  assumes "d < 10" "unat acc \<le> int_limit negative"
  defines "limit \<equiv> (if negative then 0x8000000000000000 else 0x7FFFFFFFFFFFFFFF :: u64)"
  shows "acc > (limit - of_nat d) div 10 \<longleftrightarrow> unat acc * 10 + d > int_limit negative"
    "unat acc * 10 + d \<le> int_limit negative \<Longrightarrow> unat (acc * 10 + of_nat d) = unat acc * 10 + d"
proof -
  have l: "unat limit = int_limit negative" by (simp add: limit_def int_limit_def)
  have d: "unat (of_nat d :: u64) = d" using assms(1) by (simp add: unsigned_of_nat take_bit_nat_eq_self)
  have "unat (limit - of_nat d) = int_limit negative - d"
    using assms(1) l d by (simp add: unat_sub word_le_nat_alt int_limit_def)
  then have "acc > (limit - of_nat d) div 10 \<longleftrightarrow> unat acc > (int_limit negative - d) div 10"
    by (simp add: word_less_nat_alt unat_div)
  also have "\<dots> \<longleftrightarrow> unat acc * 10 > int_limit negative - d" by (auto simp: div_less_iff_less_mult)
  finally show "acc > (limit - of_nat d) div 10 \<longleftrightarrow> unat acc * 10 + d > int_limit negative"
    using assms(1) by (auto simp: int_limit_def)
  assume "unat acc * 10 + d \<le> int_limit negative"
  then have "unat acc * 10 + d < 2 ^ 64" by (simp add: int_limit_def split: if_splits)
  then show "unat (acc * 10 + of_nat d) = unat acc * 10 + d"
    using d by (simp add: unat_word_ariths)
qed

lemma jp_int_part_text:
  assumes "drop pos inp = ds @ rest" "\<forall>c \<in> set ds. is_digit c" "rest = [] \<or> \<not> is_digit (hd rest)" "unat acc \<le> int_limit negative"
  shows "if dec_val (unat acc) ds \<le> int_limit negative
    then jp_int_part inp negative pos acc = Inr (of_nat (dec_val (unat acc) ds), pos + length ds)
    else \<exists>k. jp_int_part inp negative pos acc = Inl (ERR_OVERFLOW, k)"
  using assms
proof (induction ds arbitrary: pos acc)
  case Nil
  then have "\<not> jp_digit_at inp pos" using jp_digit_at_drop [of pos inp] by (cases rest) (auto simp: jp_digit_at_def)
  then show ?case using Nil by (subst jp_int_part.simps) (simp add: dec_val_def)
next
  case (Cons c ds)
  let ?d = "of_char c - 48 :: nat"
  have d: "drop pos inp = c # ds @ rest" "is_digit c" using Cons.prems by simp_all
  note d1 = drop_ConsD [OF d(1)]
  note st = jp_int_step [OF digit_dec_char(2) [OF d(2)] Cons.prems(4)]
  have u: "jp_int_part inp negative pos acc =
      (if unat acc * 10 + ?d > int_limit negative then Inl (ERR_OVERFLOW, pos)
       else jp_int_part inp negative (pos + 1) (acc * 10 + of_nat ?d))"
    unfolding jp_int_part.simps [of inp negative pos acc] Let_def d1(2) st(1) using jp_digit_at_drop [OF d(1)] d(2) by simp
  show ?case
  proof (cases "unat acc * 10 + ?d > int_limit negative")
    case True
    then show ?thesis using u dec_val_ge [of "unat acc * 10 + ?d" ds] by (simp add: dec_val_Cons)
  next
    case False
    then have e: "unat (acc * 10 + of_nat ?d) = unat acc * 10 + ?d" using st(2) by simp
    have "unat (acc * 10 + of_nat ?d) \<le> int_limit negative" using False e by simp
    from Cons.IH [OF d1(3) _ Cons.prems(3) this] show ?thesis
      using Cons.prems(2) u False e by (simp add: dec_val_Cons split: if_splits)
  qed
qed

definition ends :: "string \<Rightarrow> bool" where
  "ends rest \<longleftrightarrow> rest = [] \<or> hd rest \<in> {CHR '','', CHR '']'', CHR ''}''}"

lemma ends_not_digit: "ends rest \<Longrightarrow> rest = [] \<or> \<not> is_digit (hd rest)"
  by (auto simp: ends_def is_digit_def)

lemma ends_at:
  assumes "drop pos inp = rest" "ends rest" "c \<notin> {CHR '','', CHR '']'', CHR ''}''}"
  shows "\<not> jp_at inp pos c"
  using assms jp_at_drop [of pos inp] by (cases rest) (auto simp: ends_def jp_at_def)

lemma jp_exponent_ends: "drop pos inp = rest \<Longrightarrow> ends rest \<Longrightarrow> jp_exponent inp pos = (False, pos)"
  using ends_at [of pos inp rest] by (simp add: jp_exponent_def)

lemma dec_str_all_digits: "\<forall>c \<in> set (dec_str n). is_digit c"
  using dec_str_digits is_digit_dec by blast

lemma dec_str_not_minus: "hd (dec_str n) \<noteq> CHR ''-''"
proof -
  have "hd (dec_str n) \<in> set (dec_str n)" by simp
  then have "is_digit (hd (dec_str n))" using dec_str_all_digits by blast
  then show ?thesis by (auto simp: is_digit_def)
qed

text \<open>The number parser on the digits of a natural number, after an optional minus sign.\<close>

lemma jp_parse_number_text:
  assumes "drop pos inp = (if negative then ''-'' else []) @ dec_str n @ rest" "ends rest"
  shows "if n \<le> int_limit negative
    then jp_parse_number inp pos = Inr (JSON_INT (sint (if negative then 0 - of_nat n else of_nat n :: u64)),
      pos + length ((if negative then ''-'' else []) @ dec_str n))
    else \<exists>k. jp_parse_number inp pos = Inl (ERR_OVERFLOW, k)"
proof -
  define p where "p = (if negative then pos + 1 else pos)"
  have d: "drop p inp = dec_str n @ rest" using assms(1) drop_ConsD [of pos inp "CHR ''-''"] by (simp add: p_def split: if_splits)
  have neg: "jp_at inp pos CHR ''-'' \<longleftrightarrow> negative"
  proof (cases negative)
    case False
    obtain c s where "dec_str n = c # s" by (cases "dec_str n") auto
    then show ?thesis using False assms(1) jp_at_drop [of pos inp c "s @ rest"] dec_str_not_minus [of n] by auto
  qed (use assms(1) jp_at_drop [of pos inp] in simp)
  have v: "dec_val (unat (0 :: u64)) (dec_str n) = n" using dec_val_str by simp
  note ip = jp_int_part_text [OF d dec_str_all_digits ends_not_digit [OF assms(2)], of 0 negative, unfolded v]
  have d2: "drop (p + length (dec_str n)) inp = rest" by (rule drop_append [OF d])
  have l: "0 < length (dec_str n)" by simp
  show ?thesis
  proof (cases "n \<le> int_limit negative")
    case True
    then have "jp_int_part inp negative p 0 = Inr (of_nat n, p + length (dec_str n))" using ip by simp
    then show ?thesis
      using True neg ends_at [OF d2 assms(2), of "CHR ''.''"] jp_exponent_ends [OF d2 assms(2)] l
      by (simp add: jp_parse_number_def p_def [symmetric] Let_def) (simp add: p_def)
  next
    case False
    then obtain k where "jp_int_part inp negative p 0 = Inl (ERR_OVERFLOW, k)" using ip by auto
    then show ?thesis using False neg by (simp add: jp_parse_number_def p_def [symmetric] Let_def)
  qed
qed

lemma int_value:
  assumes "- (2 ^ 63) \<le> i" "i < 2 ^ 63"
  shows "sint (if i < 0 then 0 - of_nat (nat (- i)) else of_nat (nat i) :: u64) = i" "nat \<bar>i\<bar> \<le> int_limit (i < 0)"
proof -
  have "(if i < 0 then 0 - of_nat (nat (- i)) else of_nat (nat i) :: u64) = of_int i" by simp
  then show "sint (if i < 0 then 0 - of_nat (nat (- i)) else of_nat (nat i) :: u64) = i"
    using assms by (simp only: signed_of_int) (simp add: signed_take_bit_int_eq_self)
  show "nat \<bar>i\<bar> \<le> int_limit (i < 0)" using assms by (simp add: int_limit_def nat_le_iff)
qed

lemma jp_parse_int_text:
  assumes "drop pos inp = int_text i @ rest" "ends rest" "- (2 ^ 63) \<le> i" "i < 2 ^ 63"
  shows "jp_parse_number inp pos = Inr (JSON_INT i, pos + length (int_text i))"
proof -
  have t: "int_text i = (if i < 0 then ''-'' else []) @ dec_str (nat \<bar>i\<bar>)" by (simp add: int_text_def)
  have d: "drop pos inp = (if i < 0 then ''-'' else []) @ dec_str (nat \<bar>i\<bar>) @ rest" using assms(1) t by simp
  have "(if i < 0 then 0 - of_nat (nat \<bar>i\<bar>) else of_nat (nat \<bar>i\<bar>) :: u64) = (if i < 0 then 0 - of_nat (nat (- i)) else of_nat (nat i))"
    by simp
  then show ?thesis using jp_parse_number_text [OF d assms(2)] int_value [OF assms(3,4)] t by simp
qed

section \<open>Containers\<close>

lemma jp_match_drop:
  assumes "drop pos inp = s @ rest" "s \<noteq> []"
  shows "jp_match inp pos s"
proof -
  have l: "length s + length rest = length inp - pos" using arg_cong [OF assms(1), of length] by simp
  have "inp ! (pos + i) = s ! i" if "i < length s" for i
    using nth_drop [of pos inp i] assms(1) that l by (simp add: nth_append)
  moreover have "0 < length s" using assms(2) by simp
  then have "pos + length s \<le> length inp" using l by linarith
  ultimately show ?thesis by (simp add: jp_match_def list_all_iff)
qed

lemma jp_match_other: "inp ! pos \<noteq> c \<Longrightarrow> \<not> jp_match inp pos (c # s)"
  by (auto simp: jp_match_def list_all_iff intro!: bexI [of _ 0])

text \<open>A text a value can start with: no white space, and nothing that closes a container.\<close>

definition starts :: "string \<Rightarrow> bool" where
  "starts s \<longleftrightarrow> s \<noteq> [] \<and> \<not> is_ws (hd s) \<and> hd s \<notin> {CHR '']'', CHR ''}''}"

lemma ends_simps [simp]: "ends []" "ends (CHR '','' # r)" "ends (CHR '']'' # r)" "ends (CHR ''}'' # r)"
  by (simp_all add: ends_def)

lemma starts_skip: "drop pos inp = s @ rest \<Longrightarrow> starts s \<Longrightarrow> jp_skip_ws inp pos = pos"
  using jp_skip_ws_drop [of pos inp "hd s" "tl s @ rest"] by (cases s) (auto simp: starts_def)

lemma jp_elements_text:
  assumes "\<forall>v \<in> set vs. starts (text v) \<and> (\<forall>p r. drop p inp = text v @ r \<longrightarrow> ends r \<longrightarrow> parse p = Inr (v, p + length (text v)))"
    "vs \<noteq> []" "length vs \<le> room" "drop pos inp = commas (map text vs) @ close # rest" "close \<in> {CHR '']'', CHR ''}''}"
  shows "jp_elements inp parse room pos = Inr (vs, pos + length (commas (map text vs)))"
  using assms
proof (induction vs arbitrary: pos room rule: induct_list012)
  case (2 v)
  then obtain k where k: "room = Suc k" by (cases room) auto
  let ?p = "pos + length (text v)"
  have d: "drop pos inp = text v @ close # rest" using "2.prems"(4) by simp
  have "ends (close # rest)" using "2.prems"(5) by auto
  then have p: "parse pos = Inr (v, ?p)" using "2.prems"(1) d by auto
  have c: "close \<noteq> CHR '',''" "\<not> is_ws close" using "2.prems"(5) by (auto simp: is_ws_def)
  note dr = drop_append [OF d]
  show ?case using k p jp_skip_ws_drop [OF dr c(2)] drop_ConsD [OF dr] c(1) by simp
next
  case (3 v w vs)
  then obtain k where k: "room = Suc k" "length (w # vs) \<le> k" by (cases room) auto
  let ?p = "pos + length (text v)"
  let ?r = "commas (map text (w # vs)) @ close # rest"
  have d: "drop pos inp = text v @ CHR '','' # ?r" using "3.prems"(4) by simp
  have p: "parse pos = Inr (v, ?p)" using "3.prems"(1) d by auto
  note dr = drop_append [OF d]
  note d1 = drop_ConsD [OF dr]
  have s: "jp_skip_ws inp ?p = ?p" by (rule jp_skip_ws_drop [OF dr]) (simp add: is_ws_def)
  have "\<exists>r'. ?r = text w @ r'" by (cases vs) auto
  then have s2: "jp_skip_ws inp (?p + 1) = ?p + 1" using starts_skip [of "?p + 1" inp "text w"] d1(3) "3.prems"(1) by auto
  have "jp_elements inp parse k (?p + 1) = Inr (w # vs, ?p + 1 + length (commas (map text (w # vs))))"
    using "3.IH"(2) [OF _ _ k(2) d1(3)] "3.prems"(1,5) by simp
  then show ?case using k(1) p s s2 d1 by simp
qed simp

lemma jp_container_text:
  assumes "\<forall>v \<in> set vs. starts (text v) \<and> (\<forall>p r. drop p inp = text v @ r \<longrightarrow> ends r \<longrightarrow> parse p = Inr (v, p + length (text v)))"
    "length vs \<le> JSON_CONTAINER_MAX" "drop pos inp = opn # commas (map text vs) @ close # rest" "close \<in> {CHR '']'', CHR ''}''}"
  shows "jp_container inp close parse pos = Inr (vs, pos + length (commas (map text vs)) + 2)"
proof (cases vs)
  case Nil
  have d: "drop (pos + 1) inp = close # rest" using drop_ConsD(3) [OF assms(3)] Nil by simp
  have "\<not> is_ws close" using assms(4) by (auto simp: is_ws_def)
  then have s: "jp_skip_ws inp (pos + 1) = pos + 1" by (rule jp_skip_ws_drop [OF d])
  show ?thesis using Nil s drop_ConsD [OF d] by (simp add: jp_container_def jp_at_def)
next
  case (Cons v ws)
  have d: "drop (pos + 1) inp = commas (map text vs) @ close # rest" using drop_ConsD(3) [OF assms(3)] .
  have st: "starts (text v)" using assms(1) Cons by simp
  obtain r where r: "commas (map text vs) @ close # rest = text v @ r" using Cons by (cases ws) auto
  have s: "jp_skip_ws inp (pos + 1) = pos + 1" using starts_skip [of "pos + 1" inp "text v" r] d r st by simp
  obtain h t where h: "text v = h # t" "h \<noteq> close" using st assms(4) by (cases "text v") (auto simp: starts_def)
  have n: "pos + 1 < length inp" "inp ! (pos + 1) \<noteq> close" using drop_ConsD(1,2) [of "pos + 1" inp h "t @ r"] d r h by simp_all
  have e: "jp_elements inp parse 64 (pos + 1) = Inr (vs, pos + 1 + length (commas (map text vs)))"
    by (rule jp_elements_text [OF assms(1) _ assms(2) d assms(4)]) (use Cons in simp)
  show ?thesis using s n e jp_at_drop [OF drop_append [OF d]] by (simp add: jp_container_def Let_def)
qed

lemma string_text_starts [simp]: "starts (string_text s)"
  by (simp add: starts_def string_text_def is_ws_def)

lemma digit_starts: "is_digit c \<Longrightarrow> starts (c # s)"
  by (auto simp: starts_def is_digit_def is_ws_def)

lemma int_text_starts: "starts (int_text i)" "\<exists>c s. int_text i = c # s \<and> (c = CHR ''-'' \<or> is_digit c)"
proof -
  have d: "\<exists>c s. dec_str n = c # s \<and> is_digit c" for n using dec_str_all_digits [of n] by (cases "dec_str n") auto
  show "\<exists>c s. int_text i = c # s \<and> (c = CHR ''-'' \<or> is_digit c)" using d [of "nat i"] by (auto simp: int_text_def)
  show "starts (int_text i)" using d [of "nat i"] digit_starts by (auto simp: int_text_def starts_def is_ws_def)
qed

lemma json_text_starts: "json_ok levels v \<Longrightarrow> starts (json_text v)"
  using int_text_starts(1) by (cases v) (auto simp: starts_def is_ws_def string_text_def)

lemma jp_pair_text:
  assumes "drop pos inp = (string_text key @ CHR '':'' # text) @ rest" "list_all plain_char key" "starts text"
    "\<And>p. drop p inp = text @ rest \<Longrightarrow> parse p = Inr (v, p + length text)"
  shows "jp_pair inp parse pos = Inr ((key, v), pos + length (string_text key @ CHR '':'' # text))"
proof -
  have d: "drop pos inp = string_text key @ CHR '':'' # text @ rest" using assms(1) by simp
  note dr = drop_append [OF d]
  note d1 = drop_ConsD [OF dr]
  have c: "jp_skip_ws inp (pos + length (string_text key)) = pos + length (string_text key)"
    by (rule jp_skip_ws_drop [OF dr]) (simp add: is_ws_def)
  show ?thesis
    using starts_skip [OF d] jp_parse_string_text [OF d assms(2)] c jp_at_drop [OF dr] starts_skip [OF d1(3) assms(3)] assms(4) [OF d1(3)]
    by (simp add: jp_pair_def Let_def)
qed

section \<open>Whole values\<close>

lemma jp_value_at_string:
  "drop pos inp = string_text s @ rest \<Longrightarrow> list_all plain_char s \<Longrightarrow>
   jp_value_at inp inner pos = Inr (JSON_STRING s, pos + length (string_text s))"
  using starts_skip [of pos inp "string_text s" rest] jp_parse_string_text [of pos inp s rest]
    drop_ConsD [of pos inp "CHR 0x22" "concat (map escape_char s) @ CHR 0x22 # rest"]
  by (simp add: jp_value_at_def Let_def) (simp add: string_text_def)

lemma jp_value_at_int:
  assumes "drop pos inp = int_text i @ rest" "ends rest" "- (2 ^ 63) \<le> i" "i < 2 ^ 63"
  shows "jp_value_at inp inner pos = Inr (JSON_INT i, pos + length (int_text i))"
proof -
  obtain c s where c: "int_text i = c # s" "c = CHR ''-'' \<or> is_digit c" using int_text_starts(2) by blast
  have d: "drop pos inp = c # s @ rest" using assms(1) c(1) by simp
  have "c \<noteq> CHR 0x22" "c \<noteq> CHR ''{''" "c \<noteq> CHR ''[''" using c(2) by (auto simp: is_digit_def)
  then show ?thesis
    using starts_skip [OF assms(1) int_text_starts(1)] drop_ConsD(1,2) [OF d] c(2) jp_parse_int_text [OF assms]
    by (simp add: jp_value_at_def Let_def)
qed

lemma jp_value_at_word:
  assumes "drop pos inp = json_text v @ rest" "v = JSON_NULL \<or> v = JSON_BOOL b"
  shows "jp_value_at inp inner pos = Inr (v, pos + length (json_text v))"
proof -
  have st: "starts (json_text v)" using json_text_starts [of 0 v] assms(2) by auto
  obtain c s where c: "json_text v = c # s" using st by (cases "json_text v") (auto simp: starts_def)
  have d: "drop pos inp = c # s @ rest" using assms(1) c by simp
  note d1 = drop_ConsD(1,2) [OF d]
  have m: "jp_match inp pos (json_text v)" by (rule jp_match_drop [OF assms(1)]) (simp add: c)
  have w: "jp_skip_ws inp pos = pos" by (rule starts_skip [OF assms(1) st])
  have other: "inp ! pos \<noteq> CHR ''t'' \<Longrightarrow> \<not> jp_match inp pos ''true''" "inp ! pos \<noteq> CHR ''f'' \<Longrightarrow> \<not> jp_match inp pos ''false''"
    by (rule jp_match_other, assumption)+
  from assms(2) show ?thesis
  proof
    assume v: "v = JSON_NULL"
    then have "c = CHR ''n''" using c by simp
    then show ?thesis using v m w d1 other by (simp add: jp_value_at_def Let_def is_digit_def)
  next
    assume v: "v = JSON_BOOL b"
    then have "c = (if b then CHR ''t'' else CHR ''f'')" using c by (auto split: if_splits)
    then show ?thesis using v m w d1 other by (simp add: jp_value_at_def Let_def is_digit_def split: if_splits)
  qed
qed

lemma jp_value_at_array:
  assumes "\<forall>v \<in> set vs. starts (json_text v) \<and>
      (\<forall>p r. drop p inp = json_text v @ r \<longrightarrow> ends r \<longrightarrow> parse p = Inr (v, p + length (json_text v)))"
    "length vs \<le> JSON_CONTAINER_MAX" "drop pos inp = json_text (JSON_ARRAY vs) @ rest"
  shows "jp_value_at inp (Some parse) pos = Inr (JSON_ARRAY vs, pos + length (json_text (JSON_ARRAY vs)))"
proof -
  have d: "drop pos inp = CHR ''['' # commas (map json_text vs) @ CHR '']'' # rest" using assms(3) by simp
  have "jp_container inp CHR '']'' parse pos = Inr (vs, pos + length (commas (map json_text vs)) + 2)"
    by (rule jp_container_text [OF assms(1,2) d]) simp
  then show ?thesis using jp_skip_ws_drop [OF d] drop_ConsD(1,2) [OF d]
    by (simp add: jp_value_at_def jp_parse_array_def is_ws_def Let_def)
qed

lemma jp_value_at_object:
  fixes kvs :: "(string \<times> json_value) list"
  defines "text \<equiv> \<lambda>kv :: string \<times> json_value. string_text (fst kv) @ CHR '':'' # json_text (snd kv)"
  assumes "\<forall>kv \<in> set kvs. list_all plain_char (fst kv) \<and> starts (json_text (snd kv)) \<and>
      (\<forall>p r. drop p inp = json_text (snd kv) @ r \<longrightarrow> ends r \<longrightarrow> parse p = Inr (snd kv, p + length (json_text (snd kv))))"
    "length kvs \<le> JSON_CONTAINER_MAX" "drop pos inp = json_text (JSON_OBJECT kvs) @ rest"
  shows "jp_value_at inp (Some parse) pos = Inr (JSON_OBJECT kvs, pos + length (json_text (JSON_OBJECT kvs)))"
proof -
  have d: "drop pos inp = CHR ''{'' # commas (map text kvs) @ CHR ''}'' # rest" using assms(4) by (simp add: text_def)
  have pair: "\<forall>kv \<in> set kvs. starts (text kv) \<and>
      (\<forall>p r. drop p inp = text kv @ r \<longrightarrow> ends r \<longrightarrow> jp_pair inp parse p = Inr (kv, p + length (text kv)))"
  proof (intro ballI conjI allI impI)
    fix kv p r
    assume kv: "kv \<in> set kvs" "drop p inp = text kv @ r" "ends r"
    show "jp_pair inp parse p = Inr (kv, p + length (text kv))"
      using jp_pair_text [of p inp "fst kv" "json_text (snd kv)" r parse "snd kv"] assms(2) kv by (simp add: text_def)
  next
    fix kv
    show "starts (text kv)" by (simp add: text_def starts_def string_text_def is_ws_def)
  qed
  have "jp_container inp CHR ''}'' (jp_pair inp parse) pos = Inr (kvs, pos + length (commas (map text kvs)) + 2)"
    by (rule jp_container_text [OF pair assms(3) d]) simp
  then show ?thesis using jp_skip_ws_drop [OF d] drop_ConsD(1,2) [OF d]
    by (simp add: jp_value_at_def jp_parse_object_def is_ws_def Let_def text_def)
qed

lemma jp_parse_value_at: "jp_parse_value inp levels = jp_value_at inp (if levels = 0 then None else Some (jp_parse_value inp (levels - 1)))"
  by (cases levels) simp_all

lemma jp_parse_value_text:
  assumes "json_ok levels v" "drop pos inp = json_text v @ rest" "ends rest"
  shows "jp_parse_value inp levels pos = Inr (v, pos + length (json_text v))"
  using assms
proof (induction v arbitrary: levels pos rest)
  case (JSON_ARRAY vs)
  have "\<forall>v \<in> set vs. starts (json_text v) \<and> (\<forall>p r. drop p inp = json_text v @ r \<longrightarrow> ends r \<longrightarrow>
      jp_parse_value inp (levels - 1) p = Inr (v, p + length (json_text v)))"
    using JSON_ARRAY.IH JSON_ARRAY.prems(1) json_text_starts by (auto simp: list_all_iff)
  from jp_value_at_array [OF this _ JSON_ARRAY.prems(2)] show ?case
    using JSON_ARRAY.prems(1) unfolding jp_parse_value_at [of inp levels] by simp
next
  case (JSON_OBJECT kvs)
  have "\<forall>kv \<in> set kvs. list_all plain_char (fst kv) \<and> starts (json_text (snd kv)) \<and> (\<forall>p r. drop p inp = json_text (snd kv) @ r \<longrightarrow>
      ends r \<longrightarrow> jp_parse_value inp (levels - 1) p = Inr (snd kv, p + length (json_text (snd kv))))"
    using JSON_OBJECT.IH JSON_OBJECT.prems(1) json_text_starts by (fastforce simp: list_all_iff snds.simps)
  from jp_value_at_object [OF this _ JSON_OBJECT.prems(2)] show ?case
    using JSON_OBJECT.prems(1) unfolding jp_parse_value_at [of inp levels] by simp
next
  case JSON_NULL
  then show ?case unfolding jp_parse_value_at [of inp levels] using jp_value_at_word by blast
next
  case (JSON_BOOL b)
  then show ?case unfolding jp_parse_value_at [of inp levels] using jp_value_at_word by blast
next
  case (JSON_INT i)
  then show ?case unfolding jp_parse_value_at [of inp levels] using jp_value_at_int [of pos inp i rest] by simp
next
  case (JSON_STRING s)
  then show ?case unfolding jp_parse_value_at [of inp levels] using jp_value_at_string [of pos inp s rest] by simp
qed simp

lemma json_parse_text: "json_ok JSON_MAX_DEPTH v \<Longrightarrow> json_parse (json_text v) = Inr v"
  using jp_parse_value_text [of JSON_MAX_DEPTH v 0 "json_text v" "[]"] jp_skip_ws_stay [of "json_text v" "length (json_text v)"]
  by (simp add: json_parse_def Let_def)

section \<open>Properties\<close>



text \<open>
  C35: A decimal integer is parsed to its exact value when it fits in 64 signed bits, the smallest value included, and is refused as
  an overflow when it does not.\<close>

theorem json_integer_exact:
  "if - (2 ^ 63) \<le> i \<and> i < 2 ^ 63 then json_parse (int_text i) = Inr (JSON_INT i)
   else \<exists>k. json_parse (int_text i) = Inl (ERR_OVERFLOW, k)"
proof (cases "- (2 ^ 63) \<le> i \<and> i < 2 ^ 63")
  case True
  then show ?thesis using json_parse_text [of "JSON_INT i"] by simp
next
  case False
  obtain c s where c: "int_text i = c # s" "c = CHR ''-'' \<or> is_digit c" using int_text_starts(2) by blast
  have "c \<noteq> CHR 0x22" "c \<noteq> CHR ''{''" "c \<noteq> CHR ''[''" using c(2) by (auto simp: is_digit_def)
  then have v: "jp_value_at (int_text i) inner 0 = jp_parse_number (int_text i) 0" for inner
    using starts_skip [of 0 "int_text i" "int_text i" "[]"] int_text_starts(1) [of i] c by (simp add: jp_value_at_def Let_def)
  have "drop 0 (int_text i) = (if i < 0 then ''-'' else []) @ dec_str (nat \<bar>i\<bar>) @ []" by (simp add: int_text_def)
  moreover have "\<not> nat \<bar>i\<bar> \<le> int_limit (i < 0)" using False by (cases "i < 0") (simp_all add: int_limit_def nat_le_iff)
  ultimately obtain k where "jp_parse_number (int_text i) 0 = Inl (ERR_OVERFLOW, k)"
    using jp_parse_number_text [of 0 "int_text i" "i < 0" "nat \<bar>i\<bar>" "[]"] by auto
  then show ?thesis using False v unfolding json_parse_def jp_parse_value_at [of "int_text i" 16] by simp
qed

text \<open>
  A control character other than tab, newline and carriage return is emitted as a six-character escape that the parser does not
  decode: the string read back holds the escape itself.\<close>

theorem json_control_char_not_decoded:
  assumes "of_char c < (0x20 :: nat)" "c \<notin> {CHR 0x09, CHR 0x0A, CHR 0x0D}" "8 \<le> n"
  shows "json_parse (bb_dat (json_emit_string \<lparr>bb_dat = [], bb_cap = n\<rparr> [c])) =
    Inr (JSON_STRING [CHR 0x5C, CHR ''u'', CHR ''0'', CHR ''0'', hex_lower ! (of_char c div 16), hex_lower ! (of_char c mod 16)])"
proof -
  define h where "h = hex_lower ! (of_char c div 16)"
  define l where "l = hex_lower ! (of_char c mod 16)"
  have len: "length hex_lower = 16" by (simp add: hex_lower_def)
  have "h \<in> set hex_lower" "l \<in> set hex_lower" unfolding h_def l_def by (rule nth_mem, use assms(1) len in simp)+
  then have n: "h \<noteq> CHR 0x22" "h \<noteq> CHR 0x5C" "l \<noteq> CHR 0x22" "l \<noteq> CHR 0x5C" by (auto simp: hex_lower_def)
  have "c \<noteq> CHR 0x22" "c \<noteq> CHR 0x5C" using assms(1) by auto
  then have "escape_char c = [CHR 0x5C, CHR ''u'', CHR ''0'', CHR ''0'', h, l]"
    using assms(1,2) by (simp add: escape_char_def h_def l_def)
  then have t: "bb_dat (json_emit_string \<lparr>bb_dat = [], bb_cap = n\<rparr> [c]) =
      [CHR 0x22, CHR 0x5C, CHR ''u'', CHR ''0'', CHR ''0'', h, l, CHR 0x22]" (is "_ = ?t")
    using assms(3) by (simp add: json_emit_string_eq string_text_def byte_buf_append_def)
  have "jp_scan ?t 1 False = Inr (True, 8)" using n by (simp add: jp_scan.simps)
  then have p: "jp_parse_string ?t 0 = Inr ([CHR 0x5C, CHR ''u'', CHR ''0'', CHR ''0'', h, l], 8)"
    using n by (simp add: jp_parse_string_def jp_at_def jp_escape_def)
  have "jp_value_at ?t inner 0 = Inr (JSON_STRING [CHR 0x5C, CHR ''u'', CHR ''0'', CHR ''0'', h, l], 8)" for inner
    using p jp_skip_ws_stay [of ?t 0] by (simp add: jp_value_at_def is_ws_def)
  then show ?thesis using jp_skip_ws_stay [of ?t 8] unfolding t h_def [symmetric] l_def [symmetric] json_parse_def jp_parse_value_at [of ?t 16]
    by simp
qed

theorem json_control_char_not_decoded_witness:
  "json_parse (bb_dat (json_emit_string \<lparr>bb_dat = [], bb_cap = 8\<rparr> [CHR 0x1B])) =
    Inr (JSON_STRING [CHR 0x5C, CHR ''u'', CHR ''0'', CHR ''0'', CHR ''1'', CHR ''b''])"
  using json_control_char_not_decoded [of "CHR 0x1B" 8] by (simp add: hex_lower_def)

end
