(* ===== verification/Json_Bounds.thy ===== *)
theory Json_Bounds
  imports Json_Correct
begin

text \<open>
  What the JSON parser returns for an arbitrary input: positions and error offsets inside the input, values of bounded shape.
\<close>

section \<open>Results inside the input\<close>

text \<open>A result of a parser started at \<open>pos\<close>: an error inside the input, or a value with \<open>P\<close> and a position from \<open>pos\<close> on.\<close>

definition inside :: "string \<Rightarrow> nat \<Rightarrow> ('a \<Rightarrow> bool) \<Rightarrow> 'a parsed \<Rightarrow> bool" where
  "inside inp pos P r =
     (case r of Inl (e, k) \<Rightarrow> k \<le> length inp | Inr (v, q) \<Rightarrow> pos \<le> q \<and> q \<le> length inp \<and> P v)"

lemma inside_simps [simp]:
  "inside inp pos P (Inl e) \<longleftrightarrow> snd e \<le> length inp"
  "inside inp pos P (Inr r) \<longleftrightarrow> pos \<le> snd r \<and> snd r \<le> length inp \<and> P (fst r)"
  by (cases e; simp add: inside_def) (cases r; simp add: inside_def)

lemma inside_map: "inside inp pos P r \<Longrightarrow> (\<And>v. P v \<Longrightarrow> Q (f v)) \<Longrightarrow> inside inp pos Q (map_sum id (map_prod f id) r)"
  by (cases r) auto

lemma inside_from: "inside inp q P r \<Longrightarrow> pos \<le> q \<Longrightarrow> inside inp pos P r"
  by (cases r) auto

lemma jp_skip_ws_inside: "pos \<le> length inp \<Longrightarrow> pos \<le> jp_skip_ws inp pos \<and> jp_skip_ws inp pos \<le> length inp"
proof (induction inp pos rule: jp_skip_ws.induct)
  case (1 inp pos)
  then show ?case unfolding jp_skip_ws.simps [of inp pos] by (auto simp: Suc_le_eq)
qed

lemmas skip_ge = jp_skip_ws_inside [THEN conjunct1] and skip_le = jp_skip_ws_inside [THEN conjunct2]

lemma jp_scan_inside: "pos \<le> length inp \<Longrightarrow> inside inp pos (\<lambda>_. True) (jp_scan inp pos esc)"
proof (induction inp pos esc rule: jp_scan.induct)
  case (1 inp pos esc)
  have a: "inside inp pos (\<lambda>_. True) (jp_scan inp (pos + 2) True)" if "\<not> pos \<ge> length inp" "inp ! pos = CHR 0x5C" "\<not> pos + 1 \<ge> length inp"
    by (rule inside_from [where q = "pos + 2"], rule "1.IH"(1)) (use that in simp_all)
  have b: "inside inp pos (\<lambda>_. True) (jp_scan inp (pos + 1) esc)" if "\<not> pos \<ge> length inp" "inp ! pos \<noteq> CHR 0x22" "inp ! pos \<noteq> CHR 0x5C"
    by (rule inside_from [where q = "pos + 1"], rule "1.IH"(2)) (use that in simp_all)
  show ?case unfolding jp_scan.simps [of inp pos esc] using "1.prems" a b by simp
qed

lemma jp_parse_string_inside:
  assumes "pos \<le> length inp"
  shows "inside inp pos (\<lambda>_. True) (jp_parse_string inp pos)"
proof (cases "jp_at inp pos CHR 0x22")
  case True
  then have "pos + 1 \<le> length inp" by (simp add: jp_at_def)
  from jp_scan_inside [OF this, of False] show ?thesis using True
    by (cases "jp_scan inp (pos + 1) False") (simp_all add: jp_parse_string_def split_beta Let_def)
qed (use assms in \<open>simp add: jp_parse_string_def\<close>)

text \<open>The unescaped string never outgrows the buffer allocated for it.\<close>

lemma jp_unescape_length: "length (jp_unescape raw) \<le> length raw"
proof (induction raw rule: jp_unescape.induct)
  case (3 ch esc raw)
  have "length (jp_escape esc) \<le> 2" by (simp add: jp_escape_def)
  then show ?case using 3 by (cases "ch = CHR 0x5C") simp_all
qed simp_all

section \<open>Numbers\<close>

lemma jp_int_part_inside:
  "pos \<le> length inp \<Longrightarrow> unat acc \<le> int_limit negative \<Longrightarrow>
   inside inp pos (\<lambda>x. unat x \<le> int_limit negative) (jp_int_part inp negative pos acc)"
proof (induction inp negative pos acc rule: jp_int_part.induct)
  case (1 inp negative pos acc)
  show ?case
  proof (cases "jp_digit_at inp pos")
    case True
    let ?d = "of_char (inp ! pos) - 48 :: nat"
    have d: "pos < length inp" "?d < 10" using True digit_dec_char(2) by (auto simp: jp_digit_at_def)
    note st = jp_int_step [OF d(2) "1.prems"(2)]
    show ?thesis
    proof (cases "unat acc * 10 + ?d > int_limit negative")
      case True
      then show ?thesis unfolding jp_int_part.simps [of inp negative pos acc] Let_def st(1) using \<open>jp_digit_at inp pos\<close> d by simp
    next
      case False
      have "inside inp (pos + 1) (\<lambda>x. unat x \<le> int_limit negative) (jp_int_part inp negative (pos + 1) (acc * 10 + of_nat ?d))"
        by (rule "1.IH") (use True False d st in simp_all)
      then have "inside inp pos (\<lambda>x. unat x \<le> int_limit negative) (jp_int_part inp negative (pos + 1) (acc * 10 + of_nat ?d))"
        by (rule inside_from) simp
      then show ?thesis unfolding jp_int_part.simps [of inp negative pos acc] Let_def st(1) using True False by simp
    qed
  next
    case False
    then show ?thesis unfolding jp_int_part.simps [of inp negative pos acc] using "1.prems" by simp
  qed
qed

lemma jp_frac_inside:
  assumes "jp_frac inp pos scale frac = (x, q)" "pos \<le> length inp" "0 \<le> frac" "frac \<le> 1000000 - max 1 (10 * scale)" "0 \<le> scale"
  shows "pos \<le> q \<and> q \<le> length inp \<and> 0 \<le> x \<and> x \<le> 999999"
  using assms
proof (induction inp pos scale frac rule: jp_frac.induct)
  case (1 inp pos scale frac)
  show ?case
  proof (cases "jp_digit_at inp pos")
    case True
    let ?d = "of_char (inp ! pos) - 48 :: nat"
    have d: "pos + 1 \<le> length inp" "?d < 10" using True digit_dec_char(2) by (auto simp: jp_digit_at_def)
    show ?thesis
    proof (cases "scale > 0")
      case s: True
      let ?f = "frac + int ?d * scale"
      have r: "jp_frac inp (pos + 1) (scale div 10) ?f = (x, q)"
        using "1.prems"(1) True s unfolding jp_frac.simps [of inp pos scale frac] by simp
      define m where "m = int ?d * scale"
      have "m \<le> 9 * scale" unfolding m_def using d(2) s by (intro mult_right_mono) simp_all
      moreover have "0 \<le> m" using s by (simp add: m_def)
      moreover have "10 * (scale div 10) \<le> scale" by simp
      ultimately have "0 \<le> frac + m" "frac + m \<le> 1000000 - max 1 (10 * (scale div 10))" "0 \<le> scale div 10"
        using "1.prems"(3,4) s by (simp_all add: max_def split: if_splits)
      note this [unfolded m_def]
      from "1.IH"(1) [OF _ s r d(1) this] show ?thesis using True by simp
    next
      case s: False
      have r: "jp_frac inp (pos + 1) scale frac = (x, q)"
        using "1.prems"(1) True s unfolding jp_frac.simps [of inp pos scale frac] by simp
      from "1.IH"(2) [OF _ s r d(1) "1.prems"(3-5)] show ?thesis using True by simp
    qed
  next
    case False
    then show ?thesis using "1.prems" unfolding jp_frac.simps [of inp pos scale frac] by auto
  qed
qed

lemma jp_skip_digits_inside: "pos \<le> length inp \<Longrightarrow> pos \<le> jp_skip_digits inp pos \<and> jp_skip_digits inp pos \<le> length inp"
proof (induction inp pos rule: jp_skip_digits.induct)
  case (1 inp pos)
  then show ?case unfolding jp_skip_digits.simps [of inp pos] by (auto simp: jp_digit_at_def Suc_le_eq)
qed

lemma jp_exponent_inside:
  assumes "jp_exponent inp pos = (e, q)" "pos \<le> length inp"
  shows "pos \<le> q \<and> q \<le> length inp"
proof -
  define p where "p = (if jp_at inp (pos + 1) CHR ''+'' \<or> jp_at inp (pos + 1) CHR ''-'' then pos + 2 else pos + 1)"
  show ?thesis
  proof (cases "jp_at inp pos CHR ''e'' \<or> jp_at inp pos CHR ''E''")
    case True
    then have "p \<le> length inp" "pos \<le> p" by (auto simp: p_def jp_at_def)
    moreover have "q = jp_skip_digits inp p" using assms(1) True by (auto simp: jp_exponent_def p_def Let_def split: if_splits)
    ultimately show ?thesis using jp_skip_digits_inside [of p inp] by simp
  qed (use assms in \<open>auto simp: jp_exponent_def\<close>)
qed

text \<open>What a parsed value looks like.\<close>

fun json_wf :: "nat \<Rightarrow> json_value \<Rightarrow> bool" where
  "json_wf levels JSON_NULL = True"
| "json_wf levels (JSON_BOOL b) = True"
| "json_wf levels (JSON_INT i) = (- (2 ^ 63) \<le> i \<and> i < 2 ^ 63)"
| "json_wf levels (JSON_FLOAT x) = (- (2 ^ 63) < x \<and> x < 2 ^ 63)"
| "json_wf levels (JSON_STRING s) = True"
| "json_wf levels (JSON_ARRAY vs) = (0 < levels \<and> length vs \<le> JSON_CONTAINER_MAX \<and> list_all (json_wf (levels - 1)) vs)"
| "json_wf levels (JSON_OBJECT kvs) =
     (0 < levels \<and> length kvs \<le> JSON_CONTAINER_MAX \<and> list_all (\<lambda>kv. json_wf (levels - 1) (snd kv)) kvs)"

lemma fixed_point_range:
  assumes "\<not> ip > (0x7FFFFFFFFFFFFFFF - 999999) div 1000000" "0 \<le> x" "x \<le> 999999"
  shows "0 \<le> uint (ip :: u64) * 1000000 + x" "uint ip * 1000000 + x < 2 ^ 63"
proof -
  have "uint ip \<le> uint ((0x7FFFFFFFFFFFFFFF - 999999) div 1000000 :: u64)" using assms(1) by (simp add: word_less_def)
  then have "uint ip \<le> 9223372036853" by (simp add: uint_div)
  then show "0 \<le> uint ip * 1000000 + x" "uint ip * 1000000 + x < 2 ^ 63" using assms(2,3) by simp_all
qed

lemma sint_range: "- (2 ^ 63) \<le> sint (w :: u64)" "sint (w :: u64) < 2 ^ 63"
  using sint_ge [of w] sint_lt [of w] by simp_all

lemma jp_parse_number_inside:
  assumes "start \<le> length inp"
  shows "inside inp start (json_wf levels) (jp_parse_number inp start)"
proof -
  define negative where "negative = jp_at inp start CHR ''-''"
  define p where "p = (if negative then start + 1 else start)"
  have p: "start \<le> p" "p \<le> length inp" using assms by (auto simp: p_def negative_def jp_at_def)
  note ii = jp_int_part_inside [OF p(2), of 0 negative]
  show ?thesis
  proof (cases "jp_int_part inp negative p 0")
    case (Inl e)
    then show ?thesis using ii by (simp add: jp_parse_number_def negative_def [symmetric] p_def [symmetric] Let_def)
  next
    case (Inr r)
    obtain ip q where r: "r = (ip, q)" by fastforce
    then have q: "p \<le> q" "q \<le> length inp" using ii Inr by simp_all
    define point where "point = jp_at inp q CHR ''.''"
    obtain x q2 where x: "(if point then jp_frac inp (q + 1) 100000 0 else (0, q)) = (x, q2)" by fastforce
    have x': "q \<le> q2" "q2 \<le> length inp" "0 \<le> x" "x \<le> 999999"
      using x q jp_frac_inside [of inp "q + 1" 100000 0 x q2] by (auto simp: point_def jp_at_def split: if_splits)
    obtain e q3 where e: "jp_exponent inp q2 = (e, q3)" by fastforce
    have q3: "q2 \<le> q3" "q3 \<le> length inp" using jp_exponent_inside [OF e x'(2)] by simp_all
    have u: "jp_parse_number inp start =
        (if q3 = start \<or> (q3 = start + 1 \<and> negative) then Inl (ERR_UNEXPECTED_TOKEN, q3)
         else if point \<or> e
         then if ip > (0x7FFFFFFFFFFFFFFF - 999999) div 1000000 then Inl (ERR_OVERFLOW, q3)
              else Inr (JSON_FLOAT (if negative then - (uint ip * 1000000 + x) else uint ip * 1000000 + x), q3)
         else Inr (JSON_INT (sint (if negative then 0 - ip else ip)), q3))"
      unfolding jp_parse_number_def Let_def negative_def [symmetric] p_def [symmetric] Inr r sum.case prod.case point_def [symmetric] x e by (rule refl)
    have f: "json_wf levels (JSON_FLOAT (if negative then - (uint ip * 1000000 + x) else uint ip * 1000000 + x))"
      if "\<not> ip > (0x7FFFFFFFFFFFFFFF - 999999) div 1000000"
      using fixed_point_range [OF that x'(3,4)] by (cases negative) simp_all
    have i: "json_wf levels (JSON_INT (sint (if negative then 0 - ip else ip)))" unfolding json_wf.simps using sint_range by blast
    have "start \<le> q3" using q3 x' q p by linarith
    then show ?thesis unfolding u using f i q3 by (simp del: json_wf.simps)
  qed
qed

section \<open>Values\<close>

lemma jp_elements_inside:
  assumes "\<And>p. p \<le> length inp \<Longrightarrow> inside inp p P (parse p)" "pos \<le> length inp"
  shows "inside inp pos (\<lambda>vs. length vs \<le> room \<and> list_all P vs) (jp_elements inp parse room pos)"
  using assms(2)
proof (induction room arbitrary: pos)
  case (Suc room)
  show ?case
  proof (cases "parse pos")
    case (Inr r)
    obtain v q where r: "r = (v, q)" by fastforce
    then have q: "pos \<le> q" "q \<le> length inp" "P v" using assms(1) [OF Suc.prems] Inr by simp_all
    define s where "s = jp_skip_ws inp q"
    have s: "q \<le> s" "s \<le> length inp" using jp_skip_ws_inside [OF q(2)] by (simp_all add: s_def)
    show ?thesis
    proof (cases "s < length inp \<and> inp ! s = CHR '',''")
      case True
      define t where "t = jp_skip_ws inp (Suc s)"
      have t: "s + 1 \<le> t" "t \<le> length inp" using jp_skip_ws_inside [of "s + 1" inp] True by (simp_all add: t_def)
      then show ?thesis using Suc.IH [OF t(2)] Inr r True q s
        by (cases "jp_elements inp parse room t") (simp_all add: s_def [symmetric] t_def [symmetric] split_beta Let_def)
    next
      case False
      then show ?thesis using Inr r q s by (auto simp: s_def [symmetric] Let_def)
    qed
  qed (use assms(1) [OF Suc.prems] in simp)
qed simp

lemma jp_container_inside:
  assumes "\<And>p. p \<le> length inp \<Longrightarrow> inside inp p P (parse p)" "pos < length inp"
  shows "inside inp pos (\<lambda>vs. length vs \<le> JSON_CONTAINER_MAX \<and> list_all P vs) (jp_container inp close parse pos)"
proof -
  define s where "s = jp_skip_ws inp (pos + 1)"
  have s: "pos + 1 \<le> s" "s \<le> length inp" using jp_skip_ws_inside [of "pos + 1" inp] assms(2) by (simp_all add: s_def)
  let ?r = "if s < length inp \<and> inp ! s \<noteq> close then jp_elements inp parse 64 s else Inr ([], s)"
  have "inside inp s (\<lambda>vs. length vs \<le> 64 \<and> list_all P vs) ?r"
    using jp_elements_inside [of inp P parse s 64, OF assms(1) s(2)] s by simp
  then show ?thesis unfolding jp_container_def Let_def s_def [symmetric] using s
    by (cases ?r) (auto simp: jp_at_def split: prod.splits)
qed

lemma jp_pair_inside:
  assumes "\<And>p. p \<le> length inp \<Longrightarrow> inside inp p P (parse p)" "pos \<le> length inp"
  shows "inside inp pos (\<lambda>kv. P (snd kv)) (jp_pair inp parse pos)"
proof -
  define s where "s = jp_skip_ws inp pos"
  have s: "pos \<le> s" "s \<le> length inp" using jp_skip_ws_inside [OF assms(2)] by (simp_all add: s_def)
  note st = jp_parse_string_inside [OF s(2)]
  show ?thesis
  proof (cases "jp_parse_string inp s")
    case (Inr r)
    obtain k q where r: "r = (k, q)" by fastforce
    define t where "t = jp_skip_ws inp q"
    have t: "s \<le> t" "t \<le> length inp" using jp_skip_ws_inside [of q inp] st Inr r by (auto simp: t_def)
    show ?thesis
    proof (cases "jp_at inp t CHR '':''")
      case True
      define u where "u = jp_skip_ws inp (Suc t)"
      have u: "t + 1 \<le> u" "u \<le> length inp" using jp_skip_ws_inside [of "t + 1" inp] True by (simp_all add: u_def jp_at_def)
      show ?thesis using assms(1) [OF u(2)] True Inr r s t u
        by (cases "parse u") (simp_all add: jp_pair_def s_def [symmetric] t_def [symmetric] u_def [symmetric] Let_def split_beta)
    next
      case False
      then show ?thesis using Inr r t by (simp add: jp_pair_def s_def [symmetric] t_def [symmetric] Let_def)
    qed
  qed (use st in \<open>simp add: jp_pair_def s_def [symmetric]\<close>)
qed

lemma jp_value_at_inside:
  assumes "\<And>parse p. inner = Some parse \<Longrightarrow> p \<le> length inp \<Longrightarrow> 0 < levels \<and> inside inp p (json_wf (levels - 1)) (parse p)" "pos \<le> length inp"
  shows "inside inp pos (json_wf levels) (jp_value_at inp inner pos)"
proof -
  define s where "s = jp_skip_ws inp pos"
  have s: "pos \<le> s" "s \<le> length inp" using jp_skip_ws_inside [OF assms(2)] by (simp_all add: s_def)
  have str: "inside inp s (json_wf levels) (map_sum id (map_prod JSON_STRING id) (jp_parse_string inp s))"
    by (rule inside_map [OF jp_parse_string_inside [OF s(2)]]) simp
  have arr: "inside inp s (json_wf levels) (jp_parse_array inp inner s)" if "s < length inp"
  proof (cases inner)
    case (Some parse)
    have "inside inp s (\<lambda>vs. length vs \<le> 64 \<and> list_all (json_wf (levels - 1)) vs) (jp_container inp CHR '']'' parse s)"
      by (rule jp_container_inside) (use assms(1) [OF Some] that in simp_all)
    then show ?thesis unfolding jp_parse_array_def Some option.case
      by (rule inside_map) (use assms(1) [OF Some, of 0] in simp)
  qed (use that in \<open>simp add: jp_parse_array_def\<close>)
  have obj: "inside inp s (json_wf levels) (jp_parse_object inp inner s)" if "s < length inp"
  proof (cases inner)
    case (Some parse)
    have "inside inp s (\<lambda>kvs. length kvs \<le> 64 \<and> list_all (\<lambda>kv. json_wf (levels - 1) (snd kv)) kvs)
        (jp_container inp CHR ''}'' (jp_pair inp parse) s)"
      by (rule jp_container_inside, rule jp_pair_inside) (use assms(1) [OF Some] that in simp_all)
    then show ?thesis unfolding jp_parse_object_def Some option.case
      by (rule inside_map) (use assms(1) [OF Some, of 0] in simp)
  qed (use that in \<open>simp add: jp_parse_object_def\<close>)
  have "inside inp s (json_wf levels) (jp_value_at inp inner pos)"
    unfolding jp_value_at_def Let_def s_def [symmetric]
    using s str arr obj jp_parse_number_inside [OF s(2), of levels] by (simp add: jp_match_def)
  then show ?thesis using s(1) by (rule inside_from)
qed

lemma jp_parse_value_inside: "pos \<le> length inp \<Longrightarrow> inside inp pos (json_wf levels) (jp_parse_value inp levels pos)"
proof (induction levels arbitrary: pos)
  case 0
  then show ?case using jp_value_at_inside [of None inp 0 pos] by simp
next
  case (Suc levels)
  show ?case unfolding jp_parse_value.simps(2) by (rule jp_value_at_inside) (use Suc in auto)
qed

section \<open>Property\<close>

text \<open>
  C32: For every input the parser either reports an error at an offset inside the input, or returns a value nested at most sixteen
  deep, with at most 64 entries in each container and with every number in the range of its 64-bit signed field.\<close>

theorem json_parse_type:
  "case json_parse inp of Inl (e, k) \<Rightarrow> k \<le> length inp | Inr v \<Rightarrow> json_wf JSON_MAX_DEPTH v"
proof -
  have "inside inp 0 (json_wf 16) (jp_parse_value inp 16 0)" by (rule jp_parse_value_inside) simp
  then show ?thesis by (cases "jp_parse_value inp 16 0") (auto simp: json_parse_def Let_def)
qed

end
