(* ===== verification/Task_Sched.thy ===== *)
theory Task_Sched
  imports Mazu_Prelude
begin

text \<open>
  What the blocking primitives use of the scheduler (\<^verbatim>\<open>kernel/sched/core.c\<close>, \<^verbatim>\<open>include/mazu/eventlog.h\<close>): the state of each task,
  the cleanup hook a blocked task registers, waking, cancelling and releasing a task. Tasks are numbers. The run queues are not
  modelled: \<open>td_wakes\<close> records the tasks handed to them, latest first.
\<close>

record tasks =
  td_state :: "nat \<Rightarrow> td_state"
  td_block_cleanup :: "nat \<Rightarrow> bool"
  td_wakes :: "nat list"

definition sched_set_task_state :: "nat \<Rightarrow> td_state \<Rightarrow> 'z tasks_scheme \<Rightarrow> 'z tasks_scheme" where
  "sched_set_task_state t new_state st = st\<lparr>td_state := (td_state st)(t := new_state)\<rparr>"

definition sched_set_block_cleanup :: "nat \<Rightarrow> 'z tasks_scheme \<Rightarrow> 'z tasks_scheme" where
  "sched_set_block_cleanup t st = st\<lparr>td_block_cleanup := (td_block_cleanup st)(t := True)\<rparr>"

definition sched_clear_block_cleanup :: "nat \<Rightarrow> 'z tasks_scheme \<Rightarrow> 'z tasks_scheme" where
  "sched_clear_block_cleanup t st = st\<lparr>td_block_cleanup := (td_block_cleanup st)(t := False)\<rparr>"

definition sched_wake_ready :: "nat \<Rightarrow> 'z tasks_scheme \<Rightarrow> 'z tasks_scheme" where
  "sched_wake_ready t st = (sched_set_task_state t TD_STATE_READY st)\<lparr>td_wakes := t # td_wakes st\<rparr>"

text \<open>The hook of the primitive the task waits on is the parameter \<open>cleanup\<close>.\<close>

definition run_block_cleanup :: "(nat \<Rightarrow> 'z tasks_scheme \<Rightarrow> 'z tasks_scheme) \<Rightarrow> nat \<Rightarrow> 'z tasks_scheme \<Rightarrow> 'z tasks_scheme" where
  "run_block_cleanup cleanup t st = (if td_block_cleanup st t then cleanup t (sched_clear_block_cleanup t st) else st)"

definition sched_cancel_blocked :: "(nat \<Rightarrow> 'z tasks_scheme \<Rightarrow> 'z tasks_scheme) \<Rightarrow> nat \<Rightarrow> 'z tasks_scheme \<Rightarrow> 'z tasks_scheme" where
  "sched_cancel_blocked cleanup t st =
     (if td_state st t = TD_STATE_SLEEPING then sched_wake_ready t st
      else if td_state st t \<notin> {TD_STATE_BLOCKED, TD_STATE_SEM_WAIT} then st
      else let st = run_block_cleanup cleanup t st
        in if td_state st t \<in> {TD_STATE_BLOCKED, TD_STATE_SEM_WAIT} then sched_wake_ready t st else st)"

text \<open>What the scheduler does first with a terminating task it switches away from.\<close>

definition sched_release_terminating :: "(nat \<Rightarrow> 'z tasks_scheme \<Rightarrow> 'z tasks_scheme) \<Rightarrow> nat \<Rightarrow> 'z tasks_scheme \<Rightarrow> 'z tasks_scheme" where
  "sched_release_terminating cleanup t st = (if td_state st t = TD_STATE_TERMINATING then run_block_cleanup cleanup t st else st)"

section \<open>Waiting\<close>

text \<open>
  A primitive's waiter lives in the stack frame of the waiting task: the flag by which the lock or token is handed over, the flag of
  the timeout and whether the timeout callout is armed.
\<close>

record waits = tasks +
  w_granted :: "nat \<Rightarrow> bool"
  w_timed_out :: "nat \<Rightarrow> bool"
  w_timer :: "nat \<Rightarrow> bool"

datatype wait_call = WaitPlain | WaitInterruptible | WaitTimed

text \<open>Entering the wait: the flags start clear, the timeout is armed, the task is marked blocked and its hook set.\<close>

definition wait_begin :: "td_state \<Rightarrow> wait_call \<Rightarrow> nat \<Rightarrow> 'z waits_scheme \<Rightarrow> 'z waits_scheme" where
  "wait_begin blocked call t st =
     sched_set_block_cleanup t (sched_set_task_state t blocked
       (st\<lparr>w_granted := (w_granted st)(t := False), w_timed_out := (w_timed_out st)(t := False),
           w_timer := (w_timer st)(t := call = WaitTimed)\<rparr>))"

text \<open>Leaving it: the hook is cleared, a task still marked blocked runs again, the timeout is cancelled.\<close>

definition wait_end :: "td_state \<Rightarrow> nat \<Rightarrow> 'z waits_scheme \<Rightarrow> 'z waits_scheme" where
  "wait_end blocked t st =
     (let st = sched_clear_block_cleanup t st;
          st = (if td_state st t = blocked then sched_set_task_state t TD_STATE_RUNNING st else st)
      in st\<lparr>w_timer := (w_timer st)(t := False)\<rparr>)"

definition grant :: "nat \<Rightarrow> 'z waits_scheme \<Rightarrow> 'z waits_scheme" where
  "grant t st = sched_wake_ready t (st\<lparr>w_granted := (w_granted st)(t := True)\<rparr>)"

definition timer_off :: "nat \<Rightarrow> 'z waits_scheme \<Rightarrow> 'z waits_scheme" where
  "timer_off t st = st\<lparr>w_timer := (w_timer st)(t := False)\<rparr>"

text \<open>
  The condition at the head of the wait loop: whether the loop ends, and with what. \<open>abort\<close> is the error that the check for pending
  cancellation and signals returns. The plain wait does not look at it.
\<close>

definition wait_outcome :: "wait_call \<Rightarrow> errno option \<Rightarrow> nat \<Rightarrow> 'z waits_scheme \<Rightarrow> unit result option" where
  "wait_outcome call abort t st =
     (if w_granted st t then Some (Inr ())
      else if call = WaitTimed \<and> w_timed_out st t then Some (Inl ETIMEDOUT)
      else if call = WaitPlain then None
      else map_option Inl abort)"

lemmas wait_defs = sched_set_task_state_def sched_set_block_cleanup_def sched_clear_block_cleanup_def sched_wake_ready_def
  wait_begin_def wait_end_def grant_def timer_off_def

end
