(* ===== verification/Semaphore.thy ===== *)
theory Semaphore
  imports Task_Sched
begin

text \<open>
  Counting semaphores (\<^verbatim>\<open>kernel/sync/semaphore.c\<close>). A critical section of the semaphore's lock is one step; a waiter is named by its
  task. The counter is the machine's 32-bit signed integer.
\<close>

section \<open>Operations\<close>

record sem_state = waits +
  sem_count :: u32
  sem_waiters :: "nat list"

definition sem_init :: "u32 \<Rightarrow> 'z sem_state_scheme \<Rightarrow> 'z sem_state_scheme" where
  "sem_init initial_count st = st\<lparr>sem_count := initial_count, sem_waiters := []\<rparr>"

definition sem_unlink :: "nat \<Rightarrow> 'z sem_state_scheme \<Rightarrow> 'z sem_state_scheme" where
  "sem_unlink t st = st\<lparr>sem_waiters := remove1 t (sem_waiters st)\<rparr>"

text \<open>The loop of a blocked call, from its condition to the yield or to the return.\<close>

definition sem_wait_loop :: "wait_call \<Rightarrow> errno option \<Rightarrow> nat \<Rightarrow> 'z sem_state_scheme \<Rightarrow> unit result blocking \<times> 'z sem_state_scheme" where
  "sem_wait_loop call abort t st =
     (case wait_outcome call abort t st of
        None \<Rightarrow> (Block, st)
      | Some r \<Rightarrow> (Done r, wait_end TD_STATE_SEM_WAIT t (sem_unlink t st)))"

definition sem_wait_call :: "wait_call \<Rightarrow> errno option \<Rightarrow> nat \<Rightarrow> 'z sem_state_scheme \<Rightarrow> unit result blocking \<times> 'z sem_state_scheme" where
  "sem_wait_call call abort t st =
     (if sint (sem_count st) > 0 then (Done (Inr ()), st\<lparr>sem_count := sem_count st - 1\<rparr>)
      else sem_wait_loop call abort t
        (wait_begin TD_STATE_SEM_WAIT call t (st\<lparr>sem_waiters := sem_waiters st @ [t]\<rparr>)))"

definition sem_wait :: "nat \<Rightarrow> 'z sem_state_scheme \<Rightarrow> unit result blocking \<times> 'z sem_state_scheme" where
  "sem_wait t = sem_wait_call WaitPlain None t"

definition sem_wait_interruptible :: "errno option \<Rightarrow> nat \<Rightarrow> 'z sem_state_scheme \<Rightarrow> unit result blocking \<times> 'z sem_state_scheme" where
  "sem_wait_interruptible abort t = sem_wait_call WaitInterruptible abort t"

definition sem_timedwait :: "errno option \<Rightarrow> nat \<Rightarrow> 'z sem_state_scheme \<Rightarrow> unit result blocking \<times> 'z sem_state_scheme" where
  "sem_timedwait abort t = sem_wait_call WaitTimed abort t"

definition sem_trywait :: "'z sem_state_scheme \<Rightarrow> unit result \<times> 'z sem_state_scheme" where
  "sem_trywait st =
     (if sint (sem_count st) > 0 then (Inr (), st\<lparr>sem_count := sem_count st - 1\<rparr>) else (Inl EAGAIN, st))"

definition sem_post :: "'z sem_state_scheme \<Rightarrow> 'z sem_state_scheme" where
  "sem_post st =
     (case sem_waiters st of
        [] \<Rightarrow> st\<lparr>sem_count := sem_count st + 1\<rparr>
      | w # ws \<Rightarrow> grant w (st\<lparr>sem_waiters := ws\<rparr>))"

text \<open>The first waiter that is not terminating; those before it are unlinked.\<close>

fun sem_next_live :: "(nat \<Rightarrow> td_state) \<Rightarrow> nat list \<Rightarrow> nat option \<times> nat list" where
  "sem_next_live states [] = (None, [])"
| "sem_next_live states (c # cs) = (if states c \<noteq> TD_STATE_TERMINATING then (Some c, cs) else sem_next_live states cs)"

definition sem_wait_cleanup :: "nat \<Rightarrow> 'z sem_state_scheme \<Rightarrow> 'z sem_state_scheme" where
  "sem_wait_cleanup t st =
     (let st = timer_off t st in
      if t \<in> set (sem_waiters st) then sem_unlink t st
      else if w_granted st t
      then let (next, ws) = sem_next_live (td_state st) (sem_waiters st); st = st\<lparr>sem_waiters := ws\<rparr>
        in (case next of None \<Rightarrow> st\<lparr>sem_count := sem_count st + 1\<rparr> | Some n \<Rightarrow> grant n st)
      else st)"

definition sem_timeout_fn :: "nat \<Rightarrow> 'z sem_state_scheme \<Rightarrow> 'z sem_state_scheme" where
  "sem_timeout_fn t st =
     (if t \<in> set (sem_waiters st) \<and> \<not> w_granted st t \<and> td_state st t \<noteq> TD_STATE_TERMINATING
      then sched_wake_ready t ((sem_unlink t st)\<lparr>w_timed_out := (w_timed_out st)(t := True)\<rparr>)
      else st)"

section \<open>Runs\<close>

text \<open>
  The system around one semaphore: which call each task is blocked in, and how often a token was posted and taken. A task may be
  killed at any time, by another task of its process too; a killed task is released by the scheduler.
\<close>

record sem_sys = sem_state +
  sem_call :: "nat \<Rightarrow> wait_call option"
  sem_posts :: nat
  sem_takes :: nat

definition sem_settle :: "wait_call \<Rightarrow> nat \<Rightarrow> unit result blocking \<times> sem_sys \<Rightarrow> sem_sys" where
  "sem_settle call t r =
     (case r of
        (Block, st) \<Rightarrow> st\<lparr>sem_call := (sem_call st)(t := Some call)\<rparr>
      | (Done res, st) \<Rightarrow> st\<lparr>sem_call := (sem_call st)(t := None), sem_takes := (case res of Inr _ \<Rightarrow> sem_takes st + 1 | Inl _ \<Rightarrow> sem_takes st)\<rparr>)"

inductive sem_step :: "sem_sys \<Rightarrow> sem_sys \<Rightarrow> bool" where
  wait_enter: "sem_call st t = None \<Longrightarrow> td_state st t = TD_STATE_RUNNING \<Longrightarrow>
     sem_step st (sem_settle call t (sem_wait_call call abort t st))"
| wait_resume: "sem_call st t = Some call \<Longrightarrow> td_state st t = TD_STATE_RUNNING \<Longrightarrow>
     sem_step st (sem_settle call t (sem_wait_loop call abort t st))"
| try_wait: "sem_trywait st = (r, st') \<Longrightarrow>
     sem_step st (st'\<lparr>sem_takes := (case r of Inr _ \<Rightarrow> sem_takes st + 1 | Inl _ \<Rightarrow> sem_takes st)\<rparr>)"
| post: "sem_step st ((sem_post st)\<lparr>sem_posts := sem_posts st + 1\<rparr>)"
| timeout: "w_timer st t \<Longrightarrow> sem_step st (sem_timeout_fn t (timer_off t st))"
| dispatch: "td_state st t = TD_STATE_READY \<Longrightarrow> sem_step st (sched_set_task_state t TD_STATE_RUNNING st)"
| cancel: "sem_step st (sched_cancel_blocked sem_wait_cleanup t st)"
| kill: "sem_step st (sched_set_task_state t TD_STATE_TERMINATING st)"
| release: "td_state st t = TD_STATE_TERMINATING \<Longrightarrow>
     sem_step st ((sched_release_terminating sem_wait_cleanup t st)\<lparr>sem_call := (sem_call st)(t := None)\<rparr>)"

definition sem_start :: "u32 \<Rightarrow> sem_sys" where
  "sem_start n = sem_init n \<lparr>td_state = \<lambda>_. TD_STATE_RUNNING, td_block_cleanup = \<lambda>_. False, td_wakes = [], w_granted = \<lambda>_. False,
     w_timed_out = \<lambda>_. False, w_timer = \<lambda>_. False, sem_count = 0, sem_waiters = [], sem_call = \<lambda>_. None, sem_posts = 0, sem_takes = 0\<rparr>"

inductive sem_run :: "u32 \<Rightarrow> sem_sys \<Rightarrow> bool" for n where
  sem_run_start: "sem_run n (sem_start n)"
| sem_run_step: "sem_run n st \<Longrightarrow> sem_step st st' \<Longrightarrow> sem_run n st'"

section \<open>Invariant\<close>

text \<open>The tasks that were handed a token and have not returned with it.\<close>

definition sem_pending :: "sem_sys \<Rightarrow> nat set" where
  "sem_pending st = {t. sem_call st t \<noteq> None \<and> w_granted st t}"

definition sem_waits_ok :: "sem_sys \<Rightarrow> bool" where
  "sem_waits_ok st \<longleftrightarrow>
     distinct (sem_waiters st) \<and>
     (\<forall>t. td_block_cleanup st t \<longrightarrow> sem_call st t \<noteq> None) \<and>
     (\<forall>t \<in> set (sem_waiters st). sem_call st t \<noteq> None \<and> td_block_cleanup st t \<and> \<not> w_granted st t) \<and>
     (\<forall>t \<in> sem_pending st. td_block_cleanup st t \<and> td_state st t \<notin> {TD_STATE_SEM_WAIT, TD_STATE_BLOCKED}) \<and>
     finite (sem_pending st) \<and>
     (sem_waiters st \<noteq> [] \<longrightarrow> sint (sem_count st) \<le> 0)"

text \<open>As long as the tokens ever put in fit the counter, none is lost and none appears.\<close>

definition sem_tokens_ok :: "u32 \<Rightarrow> sem_sys \<Rightarrow> bool" where
  "sem_tokens_ok n st \<longleftrightarrow>
     (sint n + int (sem_posts st) < 2 ^ 31 \<longrightarrow>
        0 \<le> sint (sem_count st) \<and>
        sint (sem_count st) + int (card (sem_pending st)) + int (sem_takes st) = sint n + int (sem_posts st))"

section \<open>The counter\<close>

lemma sint_dec: "sint (c :: u32) > 0 \<Longrightarrow> sint (c - 1) = sint c - 1"
proof -
  assume a: "sint c > 0"
  have r: "- (2 ^ 31) \<le> sint c - 1" "sint c - 1 < 2 ^ 31" using a sint_lt [of c] by simp_all
  have "c - 1 = word_of_int (sint c - 1)" by simp
  then show ?thesis using r by (simp only: signed_of_int) (simp add: signed_take_bit_int_eq_self)
qed

lemma sint_inc: "sint (c :: u32) + 1 < 2 ^ 31 \<Longrightarrow> sint (c + 1) = sint c + 1"
proof -
  assume a: "sint c + 1 < 2 ^ 31"
  have r: "- (2 ^ 31) \<le> sint c + 1" using sint_ge [of c] by simp
  have "c + 1 = word_of_int (sint c + 1)" by simp
  then show ?thesis using r a by (simp only: signed_of_int) (simp add: signed_take_bit_int_eq_self)
qed

section \<open>Every step keeps the invariant\<close>

definition sem_inv :: "u32 \<Rightarrow> sem_sys \<Rightarrow> bool" where
  "sem_inv n st \<longleftrightarrow> sem_waits_ok st \<and> sem_tokens_ok n st"

lemma sem_inv_start: "0 \<le> sint n \<Longrightarrow> sem_inv n (sem_start n)"
  by (simp add: sem_inv_def sem_waits_ok_def sem_tokens_ok_def sem_start_def sem_init_def sem_pending_def)

text \<open>Taking a token from the counter.\<close>

lemma sem_inv_take:
  assumes "sem_inv n st" "sint (sem_count st) > 0" "sem_call st t = None"
  shows "sem_inv n (st\<lparr>sem_count := sem_count st - 1, sem_call := (sem_call st)(t := None), sem_takes := sem_takes st + 1\<rparr>)"
proof -
  have c: "(sem_call st)(t := None) = sem_call st" using assms(3) by auto
  then show ?thesis using assms(1,2) sint_dec [OF assms(2)]
    by (auto simp: sem_inv_def sem_waits_ok_def sem_tokens_ok_def sem_pending_def)
qed

text \<open>Blocking.\<close>

lemma sem_inv_block:
  assumes "sem_inv n st" "\<not> sint (sem_count st) > 0" "sem_call st t = None"
  shows "sem_inv n ((wait_begin TD_STATE_SEM_WAIT call t (st\<lparr>sem_waiters := sem_waiters st @ [t]\<rparr>))\<lparr>sem_call := (sem_call st)(t := Some call)\<rparr>)"
proof -
  let ?st = "(wait_begin TD_STATE_SEM_WAIT call t (st\<lparr>sem_waiters := sem_waiters st @ [t]\<rparr>))\<lparr>sem_call := (sem_call st)(t := Some call)\<rparr>"
  have p: "sem_pending ?st = sem_pending st" using assms(3) by (auto simp: sem_pending_def wait_defs split: if_splits)
  have t: "t \<notin> sem_pending st" using assms(3) by (simp add: sem_pending_def)
  have w: "t \<notin> set (sem_waiters st)" using assms by (auto simp: sem_inv_def sem_waits_ok_def)
  have "sem_waits_ok ?st" unfolding sem_waits_ok_def p using assms t w
    by (auto simp: wait_defs sem_inv_def sem_waits_ok_def)
  moreover have "sem_tokens_ok n ?st" unfolding sem_tokens_ok_def p using assms by (auto simp: wait_defs sem_inv_def sem_tokens_ok_def)
  ultimately show ?thesis by (simp add: sem_inv_def)
qed

text \<open>Returning from the wait, with a token exactly when one was handed over.\<close>

lemma sem_inv_done:
  assumes "sem_inv n st" "sem_call st t \<noteq> None" "ok \<longleftrightarrow> w_granted st t"
  shows "sem_inv n ((wait_end TD_STATE_SEM_WAIT t (sem_unlink t st))
    \<lparr>sem_call := (sem_call st)(t := None), sem_takes := (if ok then sem_takes st + 1 else sem_takes st)\<rparr>)" (is "sem_inv n ?st")
proof -
  have p: "sem_pending ?st = sem_pending st - {t}" by (auto simp: sem_pending_def wait_defs sem_unlink_def Let_def)
  have f: "finite (sem_pending st)" using assms(1) by (simp add: sem_inv_def sem_waits_ok_def)
  have t: "t \<in> sem_pending st \<longleftrightarrow> ok" using assms(2,3) by (simp add: sem_pending_def)
  have card: "card (sem_pending st) = card (sem_pending ?st) + (if ok then 1 else 0)"
    unfolding p using t f card_Suc_Diff1 [OF f, of t] by (cases ok) simp_all
  have "sem_waits_ok ?st" unfolding sem_waits_ok_def p using assms(1)
    by (auto simp: wait_defs sem_unlink_def Let_def sem_inv_def sem_waits_ok_def dest: in_set_remove1 notin_set_remove1)
  moreover have fields: "sem_count ?st = sem_count st" "sem_posts ?st = sem_posts st" "sem_takes ?st = sem_takes st + (if ok then 1 else 0)"
    by (simp_all add: wait_defs sem_unlink_def Let_def)
  have "sem_tokens_ok n ?st" unfolding sem_tokens_ok_def fields using assms(1) card by (auto simp: sem_inv_def sem_tokens_ok_def)
  ultimately show ?thesis by (simp add: sem_inv_def)
qed

text \<open>Handing a token to a waiter.\<close>

lemma sem_pending_grant:
  assumes "sem_waits_ok st" "w \<in> set (sem_waiters st)"
  shows "sem_pending (grant w (st\<lparr>sem_waiters := ws\<rparr>)) = insert w (sem_pending st)" "w \<notin> sem_pending st"
  using assms by (auto simp: sem_pending_def wait_defs sem_waits_ok_def)

lemma sem_waits_grant:
  assumes "sem_waits_ok st" "w \<in> set (sem_waiters st)" "w \<notin> set ws" "distinct ws" "set ws \<subseteq> set (sem_waiters st)"
  shows "sem_waits_ok (grant w (st\<lparr>sem_waiters := ws\<rparr>))"
proof -
  have "sem_waiters st \<noteq> []" using assms(2) by auto
  then have c: "sint (sem_count st) \<le> 0" using assms(1) by (simp add: sem_waits_ok_def)
  show ?thesis unfolding sem_waits_ok_def sem_pending_grant(1) [OF assms(1,2)] using assms c
    by (auto simp: wait_defs sem_waits_ok_def)
qed

lemma sem_inv_post:
  assumes "sem_inv n st"
  shows "sem_inv n ((sem_post st)\<lparr>sem_posts := sem_posts st + 1\<rparr>)"
proof (cases "sem_waiters st")
  case Nil
  let ?st = "st\<lparr>sem_count := sem_count st + 1, sem_posts := sem_posts st + 1\<rparr>"
  have p: "sem_pending ?st = sem_pending st" by (simp add: sem_pending_def)
  have "sem_tokens_ok n ?st"
  proof (unfold sem_tokens_ok_def p, intro impI)
    assume "sint n + int (sem_posts ?st) < 2 ^ 31"
    moreover from this have "0 \<le> sint (sem_count st)"
      "sint (sem_count st) + int (card (sem_pending st)) + int (sem_takes st) = sint n + int (sem_posts st)"
      using assms by (simp_all add: sem_inv_def sem_tokens_ok_def)
    ultimately show "0 \<le> sint (sem_count ?st) \<and>
        sint (sem_count ?st) + int (card (sem_pending st)) + int (sem_takes ?st) = sint n + int (sem_posts ?st)"
      using sint_inc [of "sem_count st"] by simp
  qed
  moreover have "sem_waits_ok ?st" unfolding sem_waits_ok_def p using assms Nil by (simp add: sem_inv_def sem_waits_ok_def)
  ultimately show ?thesis using Nil by (simp add: sem_post_def sem_inv_def)
next
  case (Cons w ws)
  let ?g = "grant w (st\<lparr>sem_waiters := ws\<rparr>)"
  have ok: "sem_waits_ok st" and w: "w \<in> set (sem_waiters st)" "w \<notin> set ws" "distinct ws" using assms Cons by (auto simp: sem_inv_def sem_waits_ok_def)
  let ?st = "?g\<lparr>sem_posts := sem_posts st + 1\<rparr>"
  have p: "sem_pending ?st = sem_pending ?g" by (simp add: sem_pending_def)
  have g: "sem_waits_ok ?g" by (rule sem_waits_grant [OF ok w]) (use Cons in auto)
  then have "sem_waits_ok ?st" unfolding sem_waits_ok_def p by simp
  moreover have c: "card (sem_pending ?st) = card (sem_pending st) + 1"
    unfolding p using sem_pending_grant [OF ok w(1)] ok by (simp add: sem_waits_ok_def)
  have fields: "sem_count ?st = sem_count st" "sem_takes ?st = sem_takes st" "sem_posts ?st = sem_posts st + 1" by (simp_all add: wait_defs)
  have "sem_tokens_ok n ?st" unfolding sem_tokens_ok_def c fields using assms by (auto simp: sem_inv_def sem_tokens_ok_def)
  ultimately show ?thesis using Cons by (simp add: sem_post_def sem_inv_def)
qed

lemma sem_next_live_spec:
  assumes "sem_next_live states ws = (next, rest)" "distinct ws"
  shows "set rest \<subseteq> set ws \<and> distinct rest \<and> (case next of None \<Rightarrow> rest = [] | Some w \<Rightarrow> w \<in> set ws \<and> w \<notin> set rest)"
  using assms by (induction ws) (auto split: if_splits option.splits)

text \<open>The hook on a task that is queued, or was neither queued nor handed a token, only unlinks it.\<close>

lemma sem_cleanup_unlinks:
  assumes "t \<in> set (sem_waiters st) \<or> \<not> w_granted st t"
  shows "sem_wait_cleanup t st = timer_off t (sem_unlink t st)"
  using assms by (auto simp: sem_wait_cleanup_def sem_unlink_def wait_defs Let_def remove1_idem)

lemma sem_inv_release:
  assumes "sem_inv n st" "td_block_cleanup st t"
  shows "sem_inv n ((sem_wait_cleanup t (sched_clear_block_cleanup t st))\<lparr>sem_call := (sem_call st)(t := None)\<rparr>)" (is "sem_inv n ?st")
proof -
  define s0 where "s0 = (timer_off t (sched_clear_block_cleanup t st))\<lparr>sem_waiters := remove1 t (sem_waiters st), sem_call := (sem_call st)(t := None)\<rparr>"
  have ok: "sem_waits_ok st" using assms by (simp add: sem_inv_def)
  have call: "sem_call st t \<noteq> None" using ok assms(2) by (simp add: sem_waits_ok_def)
  have p0: "sem_pending s0 = sem_pending st - {t}" by (auto simp: sem_pending_def s0_def wait_defs)
  have ok0: "sem_waits_ok s0" unfolding sem_waits_ok_def p0 using ok
    by (auto simp: s0_def wait_defs sem_waits_ok_def dest: in_set_remove1 notin_set_remove1)
  have fields: "sem_count s0 = sem_count st" "sem_takes s0 = sem_takes st" "sem_posts s0 = sem_posts st" "td_state s0 = td_state st"
    by (simp_all add: s0_def wait_defs)
  show ?thesis
  proof (cases "t \<in> set (sem_waiters st) \<or> \<not> w_granted st t")
    case True
    then have "?st = s0" using sem_cleanup_unlinks [of t "sched_clear_block_cleanup t st"]
      by (simp add: s0_def wait_defs sem_unlink_def)
    moreover have "t \<notin> sem_pending st" using True ok by (auto simp: sem_pending_def sem_waits_ok_def)
    ultimately show ?thesis using ok0 p0 assms(1) unfolding sem_inv_def sem_tokens_ok_def by (simp add: fields)
  next
    case False
    have f: "finite (sem_pending st)" using ok by (simp add: sem_waits_ok_def)
    have "t \<in> sem_pending st" using False call by (simp add: sem_pending_def)
    then have c: "card (sem_pending st) = card (sem_pending s0) + 1" unfolding p0 using card_Suc_Diff1 [OF f] by simp
    obtain nxt ws where nx: "sem_next_live (td_state st) (sem_waiters st) = (nxt, ws)" by fastforce
    have w0: "sem_waiters s0 = sem_waiters st" using False by (simp add: s0_def wait_defs remove1_idem)
    note sp = sem_next_live_spec [OF nx] 
    have d: "distinct (sem_waiters st)" using ok by (simp add: sem_waits_ok_def)
    show ?thesis
    proof (cases nxt)
      case None
      then have ws: "ws = []" using sp d by simp
      let ?s = "s0\<lparr>sem_waiters := [], sem_count := sem_count st + 1\<rparr>"
      have st: "?st = ?s" using False nx None ws by (simp add: sem_wait_cleanup_def s0_def wait_defs Let_def)
      have p: "sem_pending ?s = sem_pending s0" by (simp add: sem_pending_def)
      have "sem_waits_ok ?s" unfolding sem_waits_ok_def p using ok0 by (simp add: sem_waits_ok_def)
      moreover have "sem_tokens_ok n ?s"
        using assms(1) c sint_inc [of "sem_count st"] unfolding sem_tokens_ok_def p sem_inv_def by (auto simp: fields)
      ultimately show ?thesis unfolding st sem_inv_def by simp
    next
      case (Some w)
      then have w: "w \<in> set (sem_waiters s0)" "w \<notin> set ws" "distinct ws" "set ws \<subseteq> set (sem_waiters s0)" using sp d w0 by auto
      let ?s = "grant w (s0\<lparr>sem_waiters := ws\<rparr>)"
      have st: "?st = ?s" using False nx Some by (simp add: sem_wait_cleanup_def s0_def wait_defs Let_def)
      have "card (sem_pending ?s) = card (sem_pending st)"
        using sem_pending_grant [OF ok0 w(1)] ok0 c by (simp add: sem_waits_ok_def)
      moreover have "sem_count ?s = sem_count st" "sem_takes ?s = sem_takes st" "sem_posts ?s = sem_posts st"
        by (simp_all add: wait_defs s0_def)
      ultimately show ?thesis unfolding st using sem_waits_grant [OF ok0 w] assms(1) by (simp add: sem_inv_def sem_tokens_ok_def)
    qed
  qed
qed

text \<open>Steps that change neither the queue nor who holds a token.\<close>

lemma sem_inv_states:
  assumes "sem_inv n st" "sem_waiters st' = sem_waiters st" "sem_call st' = sem_call st" "w_granted st' = w_granted st"
    "td_block_cleanup st' = td_block_cleanup st" "sem_count st' = sem_count st" "sem_takes st' = sem_takes st" "sem_posts st' = sem_posts st"
    "\<And>u. td_state st' u \<in> {TD_STATE_SEM_WAIT, TD_STATE_BLOCKED} \<Longrightarrow> td_state st u \<in> {TD_STATE_SEM_WAIT, TD_STATE_BLOCKED}"
  shows "sem_inv n st'"
proof -
  have p: "sem_pending st' = sem_pending st" using assms(3,4) by (simp add: sem_pending_def)
  show ?thesis using assms(1,9) unfolding sem_inv_def sem_waits_ok_def sem_tokens_ok_def p assms(2-8) by blast
qed

text \<open>Unlinking a task that stays in its call without a token, and waking it.\<close>

lemma sem_inv_unlink:
  assumes "sem_inv n st" "t \<notin> sem_pending st" "sem_waiters st' = remove1 t (sem_waiters st)" "sem_call st' = sem_call st"
    "w_granted st' = w_granted st" "\<And>u. td_block_cleanup st' u \<longleftrightarrow> td_block_cleanup st u \<and> (u \<noteq> t \<or> b)" "sem_count st' = sem_count st"
    "sem_takes st' = sem_takes st" "sem_posts st' = sem_posts st" "\<And>u. u \<noteq> t \<Longrightarrow> td_state st' u = td_state st u"
  shows "sem_inv n st'"
proof -
  have p: "sem_pending st' = sem_pending st" using assms(4,5) by (simp add: sem_pending_def)
  have d: "distinct (sem_waiters st)" using assms(1) by (simp add: sem_inv_def sem_waits_ok_def)
  have ne: "u \<noteq> t" if "u \<in> sem_pending st" for u using assms(2) that by blast
  have s: "\<forall>u \<in> sem_pending st. td_state st' u = td_state st u" using ne assms(10) by blast
  have "sem_waits_ok st'" using assms(1,2,6) s ne d unfolding sem_inv_def sem_waits_ok_def p assms(3,4,5,7)
    by (auto dest: notin_set_remove1)
  then show ?thesis using assms(1) unfolding sem_inv_def sem_tokens_ok_def p assms(7-9) by simp
qed

lemma sem_inv_cancel:
  assumes "sem_inv n st"
  shows "sem_inv n (sched_cancel_blocked sem_wait_cleanup t st)"
proof (cases "td_state st t \<in> {TD_STATE_BLOCKED, TD_STATE_SEM_WAIT}")
  case True
  have np: "t \<notin> sem_pending st" using assms True by (auto simp: sem_inv_def sem_waits_ok_def)
  show ?thesis
  proof (cases "td_block_cleanup st t")
    case flag: True
    then have "sem_call st t \<noteq> None" using assms by (simp add: sem_inv_def sem_waits_ok_def)
    then have "\<not> w_granted st t" using np by (simp add: sem_pending_def)
    then have "sched_cancel_blocked sem_wait_cleanup t st =
        sched_wake_ready t (timer_off t (sem_unlink t (sched_clear_block_cleanup t st)))"
      using True flag sem_cleanup_unlinks [of t "sched_clear_block_cleanup t st"]
      by (auto simp: sched_cancel_blocked_def run_block_cleanup_def wait_defs sem_unlink_def Let_def)
    then show ?thesis by (intro sem_inv_unlink [OF assms np, where b = False]) (simp_all add: wait_defs sem_unlink_def)
  next
    case False
    then show ?thesis using True
      by (intro sem_inv_states [OF assms]) (auto simp: sched_cancel_blocked_def run_block_cleanup_def wait_defs split: if_splits)
  qed
next
  case False
  then show ?thesis
    by (intro sem_inv_states [OF assms]) (auto simp: sched_cancel_blocked_def wait_defs split: if_splits)
qed

lemma sem_inv_timeout:
  assumes "sem_inv n st"
  shows "sem_inv n (sem_timeout_fn t (timer_off t st))"
proof (cases "t \<in> set (sem_waiters st) \<and> \<not> w_granted st t \<and> td_state st t \<noteq> TD_STATE_TERMINATING")
  case True
  then have "t \<notin> sem_pending st" by (simp add: sem_pending_def)
  then show ?thesis using True
    by (intro sem_inv_unlink [OF assms, where b = True]) (auto simp: sem_timeout_fn_def wait_defs sem_unlink_def)
next
  case False
  then show ?thesis by (intro sem_inv_states [OF assms]) (auto simp: sem_timeout_fn_def wait_defs)
qed

lemma sem_end_fields:
  "sem_call (wait_end b t (sem_unlink t st)) = sem_call st" "sem_takes (wait_end b t (sem_unlink t st)) = sem_takes st"
  "(wait_end b t (sem_unlink t st))\<lparr>sem_call := c, sem_takes := sem_takes st\<rparr> = (wait_end b t (sem_unlink t st))\<lparr>sem_call := c\<rparr>"
  by (simp_all add: wait_defs sem_unlink_def Let_def)

lemma sem_inv_resume:
  assumes "sem_inv n st" "sem_call st t = Some call"
  shows "sem_inv n (sem_settle call t (sem_wait_loop call abort t st))"
proof (cases "wait_outcome call abort t st")
  case None
  have "(sem_call st)(t := Some call) = sem_call st" using assms(2) by auto
  then show ?thesis using None by (intro sem_inv_states [OF assms(1)]) (simp_all add: sem_wait_loop_def sem_settle_def)
next
  case (Some r)
  then have "(case r of Inr _ \<Rightarrow> True | Inl _ \<Rightarrow> False) \<longleftrightarrow> w_granted st t" by (auto simp: wait_outcome_def split: if_splits)
  from sem_inv_done [OF assms(1) _ this] assms(2) Some show ?thesis
    by (cases r) (simp_all add: sem_wait_loop_def sem_settle_def sem_end_fields)
qed

lemma sem_inv_enter:
  assumes "sem_inv n st" "sem_call st t = None"
  shows "sem_inv n (sem_settle call t (sem_wait_call call abort t st))"
proof (cases "sint (sem_count st) > 0")
  case True
  then show ?thesis using sem_inv_take [OF assms(1) True assms(2)] by (simp add: sem_wait_call_def sem_settle_def)
next
  case False
  let ?b = "wait_begin TD_STATE_SEM_WAIT call t (st\<lparr>sem_waiters := sem_waiters st @ [t]\<rparr>)"
  have b: "sem_inv n (?b\<lparr>sem_call := (sem_call st)(t := Some call)\<rparr>)" by (rule sem_inv_block [OF assms(1) False assms(2)])
  have "wait_outcome call abort t (?b\<lparr>sem_call := (sem_call st)(t := Some call)\<rparr>) = wait_outcome call abort t ?b"
    by (simp add: wait_outcome_def)
  then have "sem_settle call t (sem_wait_call call abort t st) =
      sem_settle call t (sem_wait_loop call abort t (?b\<lparr>sem_call := (sem_call st)(t := Some call)\<rparr>))"
    using False by (cases "wait_outcome call abort t ?b")
      (auto simp: sem_wait_call_def sem_wait_loop_def sem_settle_def wait_defs sem_unlink_def Let_def split: sum.splits)
  then show ?thesis using sem_inv_resume [OF b] by simp
qed

lemma sem_inv_step: "sem_step st st' \<Longrightarrow> sem_inv n st \<Longrightarrow> sem_inv n st'"
proof (induction rule: sem_step.induct)
  case (wait_enter st t call abort)
  then show ?case by (intro sem_inv_enter)
next
  case (wait_resume st t call abort)
  then show ?case by (intro sem_inv_resume)
next
  case (try_wait st r st')
  show ?case
  proof (cases "sint (sem_count st) > 0")
    case True
    have "sem_inv n (st\<lparr>sem_count := sem_count st - 1, sem_takes := sem_takes st + 1\<rparr>)"
      using try_wait.prems True sint_dec [OF True] by (auto simp: sem_inv_def sem_waits_ok_def sem_tokens_ok_def sem_pending_def)
    then show ?thesis using try_wait.hyps True by (auto simp: sem_trywait_def)
  qed (use try_wait in \<open>auto simp: sem_trywait_def\<close>)
next
  case (post st)
  then show ?case by (rule sem_inv_post)
next
  case (timeout st t)
  then show ?case by (intro sem_inv_timeout)
next
  case (dispatch st t)
  then show ?case by (intro sem_inv_states [OF dispatch.prems]) (auto simp: wait_defs split: if_splits)
next
  case (cancel st t)
  then show ?case by (rule sem_inv_cancel)
next
  case (kill st t)
  then show ?case by (intro sem_inv_states [OF kill.prems]) (auto simp: wait_defs split: if_splits)
next
  case (release st t)
  show ?case
  proof (cases "td_block_cleanup st t")
    case True
    then show ?thesis using sem_inv_release [OF release.prems] release.hyps
      by (simp add: sched_release_terminating_def run_block_cleanup_def)
  next
    case False
    have np: "t \<notin> sem_pending st" "t \<notin> set (sem_waiters st)" using release.prems False by (auto simp: sem_inv_def sem_waits_ok_def)
    let ?s = "st\<lparr>sem_call := (sem_call st)(t := None)\<rparr>"
    have p: "sem_pending ?s = sem_pending st" using np by (auto simp: sem_pending_def)
    have "sem_waits_ok ?s" unfolding sem_waits_ok_def p using release.prems False np by (auto simp: sem_inv_def sem_waits_ok_def)
    then have "sem_inv n ?s" unfolding sem_inv_def sem_tokens_ok_def p using release.prems by (simp add: sem_inv_def sem_tokens_ok_def)
    then show ?thesis using release.hyps False by (simp add: sched_release_terminating_def run_block_cleanup_def)
  qed
qed

lemma sem_run_inv: "sem_run n st \<Longrightarrow> 0 \<le> sint n \<Longrightarrow> sem_inv n st"
  by (induction rule: sem_run.induct) (auto intro: sem_inv_start sem_inv_step)

section \<open>Properties\<close>

text \<open>
  C37: In every run, with tasks blocking, timing out, being cancelled, killed and released in any order, the tokens on the counter,
  the tokens handed to tasks that have not returned yet and the tokens taken add up to the tokens put in, as long as these fit the
  counter; and tasks are queued only while the counter is zero.\<close>

theorem sem_tokens_conserved:
  assumes "sem_run n st" "0 \<le> sint n" "sint n + int (sem_posts st) < 2 ^ 31"
  shows "sint (sem_count st) + int (card {t. sem_call st t \<noteq> None \<and> w_granted st t}) + int (sem_takes st) = sint n + int (sem_posts st) \<and>
    0 \<le> sint (sem_count st) \<and> (sem_waiters st \<noteq> [] \<longrightarrow> sint (sem_count st) = 0)"
  using sem_run_inv [OF assms(1,2)] assms(3) by (auto simp: sem_inv_def sem_waits_ok_def sem_tokens_ok_def sem_pending_def)

theorem sem_tokens_conserved_witness:
  "sem_run 0 ((sem_post (sem_start 0))\<lparr>sem_posts := 1\<rparr>) \<and> sint (sem_count ((sem_post (sem_start 0))\<lparr>sem_posts := 1\<rparr>)) = 1"
proof -
  have p: "sem_posts (sem_start 0) + 1 = 1" by (simp add: sem_start_def sem_init_def)
  have r: "sem_run 0 ((sem_post (sem_start 0))\<lparr>sem_posts := 1\<rparr>)"
    using sem_run_step [OF sem_run_start sem_step.post, of 0] unfolding p .
  show ?thesis using sem_tokens_conserved [OF r] r by (simp add: sem_start_def sem_init_def sem_post_def)
qed

section \<open>Posting to a terminating task\<close>

text \<open>
  A task that was killed while it was queued is still handed the token, and is made ready again: unlike the hook and the timeout,
  posting does not look at the state of the waiter.
\<close>

lemma sem_post_revives_terminating:
  "\<exists>st. sem_run 0 st \<and> td_state st 1 = TD_STATE_TERMINATING \<and> td_state (sem_post st) 1 = TD_STATE_READY"
proof -
  let ?s0 = "sem_start 0"
  let ?s1 = "sem_settle WaitPlain 1 (sem_wait_call WaitPlain None 1 ?s0)"
  let ?s2 = "sched_set_task_state 1 TD_STATE_TERMINATING ?s1"
  have "sem_run 0 ?s1" by (rule sem_run_step [OF sem_run_start], rule wait_enter) (simp_all add: sem_start_def sem_init_def)
  then have "sem_run 0 ?s2" by (rule sem_run_step) (rule kill)
  moreover have "td_state ?s2 1 = TD_STATE_TERMINATING \<and> td_state (sem_post ?s2) 1 = TD_STATE_READY"
    by (simp add: sem_start_def sem_init_def sem_wait_call_def sem_wait_loop_def wait_outcome_def sem_settle_def sem_post_def wait_defs)
  ultimately show ?thesis by blast
qed

end
