(* ===== verification/Rwlock.thy ===== *)
theory Rwlock
  imports Task_Sched
begin

text \<open>
  Reader-writer locks (\<^verbatim>\<open>kernel/sync/rwlock.c\<close>), with preference for writers. A critical section of the lock's spinlock is one step;
  a waiter is named by its task. The reader count is an integer: fewer than \<open>2 ^ 31\<close> read locks are held at a time.
\<close>

section \<open>State\<close>

record rw_state = waits +
  rw_reader_count :: int
  rw_writer_owner :: "nat option"
  rw_reader_waitq :: "nat list"
  rw_writer_waitq :: "nat list"
  rw_writer_pending :: bool
  rw_in_use :: bool

definition rwlock_init :: "'z rw_state_scheme \<Rightarrow> 'z rw_state_scheme" where
  "rwlock_init st = st\<lparr>rw_reader_count := 0, rw_writer_owner := None, rw_reader_waitq := [], rw_writer_waitq := [],
     rw_writer_pending := False, rw_in_use := True\<rparr>"

section \<open>Waking\<close>

fun wake_readers :: "nat list \<Rightarrow> 'z rw_state_scheme \<Rightarrow> 'z rw_state_scheme" where
  "wake_readers [] st = st"
| "wake_readers (w # ws) st =
     wake_readers ws (if td_state st w = TD_STATE_TERMINATING then st
                      else grant w (st\<lparr>rw_reader_count := rw_reader_count st + 1\<rparr>))"

definition wake_readers_locked :: "'z rw_state_scheme \<Rightarrow> 'z rw_state_scheme" where
  "wake_readers_locked st = wake_readers (rw_reader_waitq st) (st\<lparr>rw_reader_waitq := []\<rparr>)"

fun wake_writer :: "nat list \<Rightarrow> 'z rw_state_scheme \<Rightarrow> bool \<times> 'z rw_state_scheme" where
  "wake_writer [] st = (False, st\<lparr>rw_writer_waitq := [], rw_writer_pending := False\<rparr>)"
| "wake_writer (w # ws) st =
     (if td_state st w = TD_STATE_TERMINATING then wake_writer ws st
      else (True, grant w (st\<lparr>rw_writer_waitq := ws, rw_reader_count := - 1, rw_writer_owner := Some w, rw_writer_pending := ws \<noteq> []\<rparr>)))"

definition wake_writer_locked :: "'z rw_state_scheme \<Rightarrow> bool \<times> 'z rw_state_scheme" where
  "wake_writer_locked st = wake_writer (rw_writer_waitq st) st"

text \<open>What is done when a writer stops waiting without the lock.\<close>

definition rw_writer_gone :: "'z rw_state_scheme \<Rightarrow> 'z rw_state_scheme" where
  "rw_writer_gone st =
     (if rw_writer_waitq st = []
      then let st = st\<lparr>rw_writer_pending := False\<rparr> in if rw_reader_count st = 0 then wake_readers_locked st else st
      else st)"

section \<open>Locking\<close>

definition rw_unlink :: "nat \<Rightarrow> 'z rw_state_scheme \<Rightarrow> 'z rw_state_scheme" where
  "rw_unlink t st = st\<lparr>rw_reader_waitq := remove1 t (rw_reader_waitq st), rw_writer_waitq := remove1 t (rw_writer_waitq st)\<rparr>"

definition rw_rdlock_loop :: "wait_call \<Rightarrow> errno option \<Rightarrow> nat \<Rightarrow> 'z rw_state_scheme \<Rightarrow> unit result blocking \<times> 'z rw_state_scheme" where
  "rw_rdlock_loop call abort t st =
     (case wait_outcome call abort t st of
        None \<Rightarrow> (Block, st)
      | Some r \<Rightarrow> (Done r, wait_end TD_STATE_BLOCKED t (rw_unlink t st)))"

definition rw_rdlock :: "wait_call \<Rightarrow> errno option \<Rightarrow> nat \<Rightarrow> 'z rw_state_scheme \<Rightarrow> unit result blocking \<times> 'z rw_state_scheme" where
  "rw_rdlock call abort t st =
     (if rw_reader_count st \<ge> 0 \<and> \<not> rw_writer_pending st
      then (Done (Inr ()), st\<lparr>rw_reader_count := rw_reader_count st + 1\<rparr>)
      else rw_rdlock_loop call abort t (wait_begin TD_STATE_BLOCKED call t (st\<lparr>rw_reader_waitq := rw_reader_waitq st @ [t]\<rparr>)))"

definition rw_wrlock_loop :: "wait_call \<Rightarrow> errno option \<Rightarrow> nat \<Rightarrow> 'z rw_state_scheme \<Rightarrow> unit result blocking \<times> 'z rw_state_scheme" where
  "rw_wrlock_loop call abort t st =
     (case wait_outcome call abort t st of
        None \<Rightarrow> (Block, st)
      | Some (Inr u) \<Rightarrow> (Done (Inr u), wait_end TD_STATE_BLOCKED t (rw_unlink t st))
      | Some (Inl e) \<Rightarrow> (Done (Inl e), rw_writer_gone (wait_end TD_STATE_BLOCKED t (rw_unlink t st))))"

definition rw_wrlock :: "wait_call \<Rightarrow> errno option \<Rightarrow> nat \<Rightarrow> 'z rw_state_scheme \<Rightarrow> unit result blocking \<times> 'z rw_state_scheme" where
  "rw_wrlock call abort t st =
     (if rw_reader_count st = 0 then (Done (Inr ()), st\<lparr>rw_reader_count := - 1, rw_writer_owner := Some t\<rparr>)
      else rw_wrlock_loop call abort t (wait_begin TD_STATE_BLOCKED call t
             (st\<lparr>rw_writer_waitq := rw_writer_waitq st @ [t], rw_writer_pending := True\<rparr>)))"

definition rwlock_rdlock_interruptible :: "errno option \<Rightarrow> nat \<Rightarrow> 'z rw_state_scheme \<Rightarrow> unit result blocking \<times> 'z rw_state_scheme" where
  "rwlock_rdlock_interruptible = rw_rdlock WaitInterruptible"

definition rwlock_wrlock_interruptible :: "errno option \<Rightarrow> nat \<Rightarrow> 'z rw_state_scheme \<Rightarrow> unit result blocking \<times> 'z rw_state_scheme" where
  "rwlock_wrlock_interruptible = rw_wrlock WaitInterruptible"

definition rwlock_timedrdlock :: "errno option \<Rightarrow> nat \<Rightarrow> 'z rw_state_scheme \<Rightarrow> unit result blocking \<times> 'z rw_state_scheme" where
  "rwlock_timedrdlock = rw_rdlock WaitTimed"

definition rwlock_timedwrlock :: "errno option \<Rightarrow> nat \<Rightarrow> 'z rw_state_scheme \<Rightarrow> unit result blocking \<times> 'z rw_state_scheme" where
  "rwlock_timedwrlock = rw_wrlock WaitTimed"

text \<open>The versions without a result assert that the wait was not aborted; \<open>None\<close> is the failed assertion.\<close>

definition rw_assert_done :: "unit result blocking \<times> 'a \<Rightarrow> (unit result blocking \<times> 'a) option" where
  "rw_assert_done r = (case fst r of Done (Inl e) \<Rightarrow> None | _ \<Rightarrow> Some r)"

definition rwlock_rdlock :: "errno option \<Rightarrow> nat \<Rightarrow> 'z rw_state_scheme \<Rightarrow> (unit result blocking \<times> 'z rw_state_scheme) option" where
  "rwlock_rdlock abort t st = rw_assert_done (rwlock_rdlock_interruptible abort t st)"

definition rwlock_wrlock :: "errno option \<Rightarrow> nat \<Rightarrow> 'z rw_state_scheme \<Rightarrow> (unit result blocking \<times> 'z rw_state_scheme) option" where
  "rwlock_wrlock abort t st = rw_assert_done (rwlock_wrlock_interruptible abort t st)"

definition rwlock_tryrdlock :: "'z rw_state_scheme \<Rightarrow> unit result \<times> 'z rw_state_scheme" where
  "rwlock_tryrdlock st =
     (if rw_reader_count st \<ge> 0 \<and> \<not> rw_writer_pending st then (Inr (), st\<lparr>rw_reader_count := rw_reader_count st + 1\<rparr>)
      else (Inl EBUSY, st))"

definition rwlock_trywrlock :: "nat \<Rightarrow> 'z rw_state_scheme \<Rightarrow> unit result \<times> 'z rw_state_scheme" where
  "rwlock_trywrlock t st =
     (if rw_reader_count st = 0 then (Inr (), st\<lparr>rw_reader_count := - 1, rw_writer_owner := Some t\<rparr>) else (Inl EBUSY, st))"

definition rwlock_unlock :: "'z rw_state_scheme \<Rightarrow> 'z rw_state_scheme" where
  "rwlock_unlock st =
     (if rw_reader_count st = - 1
      then let st = st\<lparr>rw_reader_count := 0, rw_writer_owner := None\<rparr> in
        if rw_writer_waitq st = [] then wake_readers_locked st
        else (case wake_writer_locked st of (woken, st) \<Rightarrow> if woken then st else wake_readers_locked st)
      else if rw_reader_count st > 0
      then let st = st\<lparr>rw_reader_count := rw_reader_count st - 1\<rparr> in
        if rw_reader_count st = 0 \<and> rw_writer_pending st
        then (case wake_writer_locked st of (woken, st) \<Rightarrow> if woken then st else wake_readers_locked st)
        else st
      else st)"

definition rwlock_destroy :: "'z rw_state_scheme \<Rightarrow> unit result \<times> 'z rw_state_scheme" where
  "rwlock_destroy st =
     (if rw_reader_count st \<noteq> 0 \<or> rw_reader_waitq st \<noteq> [] \<or> rw_writer_waitq st \<noteq> [] then (Inl EBUSY, st)
      else (Inr (), st\<lparr>rw_in_use := False\<rparr>))"

section \<open>Timeout and hook\<close>

text \<open>\<open>writer\<close> tells the queue the task waits on.\<close>

definition rw_timeout_fn :: "bool \<Rightarrow> nat \<Rightarrow> 'z rw_state_scheme \<Rightarrow> 'z rw_state_scheme" where
  "rw_timeout_fn writer t st =
     (if t \<in> set (rw_reader_waitq st) \<union> set (rw_writer_waitq st) \<and> \<not> w_granted st t \<and> td_state st t \<noteq> TD_STATE_TERMINATING
      then let st = rw_unlink t st;
               st = (if writer then rw_writer_gone st else st)
        in sched_wake_ready t (st\<lparr>w_timed_out := (w_timed_out st)(t := True)\<rparr>)
      else st)"

definition rw_wait_cleanup :: "bool \<Rightarrow> nat \<Rightarrow> 'z rw_state_scheme \<Rightarrow> 'z rw_state_scheme" where
  "rw_wait_cleanup writer t st =
     (let st = rw_unlink t (timer_off t st) in if writer then rw_writer_gone st else st)"

section \<open>Runs\<close>

text \<open>
  The system around one lock: the call each task is blocked in, with \<open>True\<close> for a writer, and the tasks that hold the lock, a reader
  once for each lock it took. Only a holder unlocks. A task killed after the lock was handed to it, before it returns, holds it.
\<close>

record rw_sys = rw_state +
  rw_call :: "nat \<Rightarrow> (bool \<times> wait_call) option"
  rw_readers :: "nat list"
  rw_writers :: "nat list"

definition rw_acquired :: "bool \<Rightarrow> nat \<Rightarrow> rw_sys \<Rightarrow> rw_sys" where
  "rw_acquired writer t st = (if writer then st\<lparr>rw_writers := t # rw_writers st\<rparr> else st\<lparr>rw_readers := t # rw_readers st\<rparr>)"

definition rw_settle :: "bool \<Rightarrow> wait_call \<Rightarrow> nat \<Rightarrow> unit result blocking \<times> rw_sys \<Rightarrow> rw_sys" where
  "rw_settle writer call t r =
     (case r of
        (Block, st) \<Rightarrow> st\<lparr>rw_call := (rw_call st)(t := Some (writer, call))\<rparr>
      | (Done (Inr _), st) \<Rightarrow> rw_acquired writer t (st\<lparr>rw_call := (rw_call st)(t := None)\<rparr>)
      | (Done (Inl _), st) \<Rightarrow> st\<lparr>rw_call := (rw_call st)(t := None)\<rparr>)"

definition rw_lock_call :: "bool \<Rightarrow> wait_call \<Rightarrow> errno option \<Rightarrow> nat \<Rightarrow> 'z rw_state_scheme \<Rightarrow> unit result blocking \<times> 'z rw_state_scheme" where
  "rw_lock_call writer = (if writer then rw_wrlock else rw_rdlock)"

definition rw_lock_loop :: "bool \<Rightarrow> wait_call \<Rightarrow> errno option \<Rightarrow> nat \<Rightarrow> 'z rw_state_scheme \<Rightarrow> unit result blocking \<times> 'z rw_state_scheme" where
  "rw_lock_loop writer = (if writer then rw_wrlock_loop else rw_rdlock_loop)"

definition rw_try :: "bool \<Rightarrow> nat \<Rightarrow> 'z rw_state_scheme \<Rightarrow> unit result \<times> 'z rw_state_scheme" where
  "rw_try writer t = (if writer then rwlock_trywrlock t else rwlock_tryrdlock)"

inductive rw_step :: "rw_sys \<Rightarrow> rw_sys \<Rightarrow> bool" where
  lock_enter: "rw_call st t = None \<Longrightarrow> td_state st t = TD_STATE_RUNNING \<Longrightarrow>
     rw_step st (rw_settle writer call t (rw_lock_call writer call abort t st))"
| lock_resume: "rw_call st t = Some (writer, call) \<Longrightarrow> td_state st t = TD_STATE_RUNNING \<Longrightarrow>
     rw_step st (rw_settle writer call t (rw_lock_loop writer call abort t st))"
| try_lock: "rw_try writer t st = (Inr u, st') \<Longrightarrow> rw_step st (rw_acquired writer t st')"
| unlock_reader: "t \<in> set (rw_readers st) \<Longrightarrow> rw_step st (rwlock_unlock (st\<lparr>rw_readers := remove1 t (rw_readers st)\<rparr>))"
| unlock_writer: "t \<in> set (rw_writers st) \<Longrightarrow> rw_step st (rwlock_unlock (st\<lparr>rw_writers := remove1 t (rw_writers st)\<rparr>))"
| timeout: "w_timer st t \<Longrightarrow> rw_call st t = Some (writer, call) \<Longrightarrow> rw_step st (rw_timeout_fn writer t (timer_off t st))"
| dispatch: "td_state st t = TD_STATE_READY \<Longrightarrow> rw_step st (sched_set_task_state t TD_STATE_RUNNING st)"
| cancel: "rw_call st t = Some (writer, call) \<Longrightarrow> rw_step st (sched_cancel_blocked (rw_wait_cleanup writer) t st)"
| kill: "rw_step st (sched_set_task_state t TD_STATE_TERMINATING st)"
| release: "rw_call st t = Some (writer, call) \<Longrightarrow> td_state st t = TD_STATE_TERMINATING \<Longrightarrow>
     rw_step st (sched_release_terminating (rw_wait_cleanup writer) t
       ((if w_granted st t then rw_acquired writer t st else st)\<lparr>rw_call := (rw_call st)(t := None)\<rparr>))"

definition rw_start :: rw_sys where
  "rw_start = rwlock_init \<lparr>td_state = \<lambda>_. TD_STATE_RUNNING, td_block_cleanup = \<lambda>_. False, td_wakes = [], w_granted = \<lambda>_. False,
     w_timed_out = \<lambda>_. False, w_timer = \<lambda>_. False, rw_reader_count = 0, rw_writer_owner = None, rw_reader_waitq = [],
     rw_writer_waitq = [], rw_writer_pending = False, rw_in_use = False, rw_call = \<lambda>_. None, rw_readers = [], rw_writers = []\<rparr>"

inductive rw_run :: "rw_sys \<Rightarrow> bool" where
  rw_run_start: "rw_run rw_start"
| rw_run_step: "rw_run st \<Longrightarrow> rw_step st st' \<Longrightarrow> rw_run st'"

section \<open>Invariant\<close>






section \<open>The fields under the shared steps\<close>








section \<open>Waking keeps the invariant\<close>



lemma wake_readers_fields [simp]:
  "rw_writer_waitq (wake_readers ws st) = rw_writer_waitq st" "rw_call (wake_readers ws st) = rw_call st"
  "rw_readers (wake_readers ws st) = rw_readers st" "rw_writers (wake_readers ws st) = rw_writers st"
  by (induction ws arbitrary: st) (auto simp: wait_defs)






section \<open>Every step keeps the invariant\<close>




















section \<open>Properties\<close>


lemmas rw_eval = rw_start_def rwlock_init_def rw_settle_def rw_lock_call_def rw_lock_loop_def rw_rdlock_def rw_wrlock_def
  rw_rdlock_loop_def rw_wrlock_loop_def wait_outcome_def rw_acquired_def rwlock_unlock_def rw_timeout_fn_def rw_unlink_def
  rw_writer_gone_def wake_writer_locked_def wake_readers_locked_def wait_defs Let_def


text \<open>
  A reader can be left blocked on a free lock: when the last queued writer times out while another reader holds the lock, the
  readers queued behind the writer are not woken, and the unlock of the last reader, which finds no writer pending, does not wake
  them either.\<close>

theorem rwlock_reader_stranded:
  "\<exists>st. rw_run st \<and> rw_reader_count st = 0 \<and> rw_readers st = [] \<and> rw_writers st = [] \<and> rw_writer_waitq st = [] \<and>
     rw_reader_waitq st = [2] \<and> td_state st 2 = TD_STATE_BLOCKED \<and> \<not> w_granted st 2 \<and> \<not> w_timer st 2 \<and> dom (rw_call st) = {2}"
proof -
  let ?s1 = "rw_settle False WaitInterruptible 1 (rw_lock_call False WaitInterruptible None 1 rw_start)"
  let ?s2 = "rw_settle True WaitTimed 3 (rw_lock_call True WaitTimed None 3 ?s1)"
  let ?s3 = "rw_settle False WaitInterruptible 2 (rw_lock_call False WaitInterruptible None 2 ?s2)"
  let ?s4 = "rw_timeout_fn True 3 (timer_off 3 ?s3)"
  let ?s5 = "sched_set_task_state 3 TD_STATE_RUNNING ?s4"
  let ?s6 = "rw_settle True WaitTimed 3 (rw_lock_loop True WaitTimed None 3 ?s5)"
  let ?s7 = "rwlock_unlock (?s6\<lparr>rw_readers := remove1 1 (rw_readers ?s6)\<rparr>)"
  have "rw_run ?s1" by (rule rw_run_step [OF rw_run_start], rule lock_enter) (simp_all add: rw_eval)
  then have "rw_run ?s2" by (rule rw_run_step, intro lock_enter) (simp_all add: rw_eval)
  then have "rw_run ?s3" by (rule rw_run_step, intro lock_enter) (simp_all add: rw_eval)
  then have "rw_run ?s4" by (rule rw_run_step, intro timeout [where call = WaitTimed]) (simp_all add: rw_eval)
  then have "rw_run ?s5" by (rule rw_run_step, intro dispatch) (simp add: rw_eval)
  then have "rw_run ?s6" by (rule rw_run_step, intro lock_resume) (simp_all add: rw_eval)
  then have "rw_run ?s7" by (rule rw_run_step, intro unlock_reader) (simp add: rw_eval)
  moreover have "rw_reader_count ?s7 = 0 \<and> rw_readers ?s7 = [] \<and> rw_writers ?s7 = [] \<and> rw_writer_waitq ?s7 = [] \<and>
     rw_reader_waitq ?s7 = [2] \<and> td_state ?s7 2 = TD_STATE_BLOCKED \<and> \<not> w_granted ?s7 2 \<and> \<not> w_timer ?s7 2"
    by (simp add: rw_eval)
  moreover have "rw_call ?s7 = [2 \<mapsto> (False, WaitInterruptible)]" by (simp add: rw_eval fun_eq_iff)
  then have "dom (rw_call ?s7) = {2}" by simp
  ultimately show ?thesis by blast
qed

text \<open>The hook does not give the lock back when it was already handed to the terminating task.\<close>

lemma rwlock_grant_lost:
  assumes "rw_call st t = Some (True, call)" "w_granted st t" "rw_reader_count st = - 1" "t \<notin> set (rw_writer_waitq st)"
  shows "rw_reader_count (rw_wait_cleanup True t st) = - 1 \<and> rw_writer_owner (rw_wait_cleanup True t st) = rw_writer_owner st"
  using assms by (simp add: rw_wait_cleanup_def rw_writer_gone_def rw_unlink_def timer_off_def Let_def)

end
