(* ===== verification/Barrier.thy ===== *)
theory Barrier
  imports Task_Sched
begin

text \<open>
  POSIX barriers (\<^verbatim>\<open>kernel/sync/barrier.c\<close>). A critical section of the barrier's lock is one step; a waiter is named by its task.
\<close>

section \<open>Operations\<close>

record barrier_state = tasks +
  br_trip_count :: u32
  br_count :: u32
  br_generation :: u32
  br_active_waiters :: u32
  br_waiters :: "nat list"
  br_in_use :: bool
  br_wait_gen :: "nat \<Rightarrow> u32"
  br_result :: "nat \<Rightarrow> int"

abbreviation (input) PTHREAD_BARRIER_SERIAL_THREAD :: int where "PTHREAD_BARRIER_SERIAL_THREAD \<equiv> - 1"

definition barrier_init :: "u32 \<Rightarrow> 'z barrier_state_scheme \<Rightarrow> 'z barrier_state_scheme" where
  "barrier_init n st = st\<lparr>br_trip_count := n, br_count := n, br_generation := 0, br_active_waiters := 0, br_waiters := [], br_in_use := True\<rparr>"

definition br_unlink :: "nat \<Rightarrow> 'z barrier_state_scheme \<Rightarrow> 'z barrier_state_scheme" where
  "br_unlink t st = st\<lparr>br_waiters := remove1 t (br_waiters st)\<rparr>"

text \<open>Both ends of the wait: the waiter is unlinked, its hook cleared, its state put back.\<close>

definition br_leave :: "nat \<Rightarrow> 'z barrier_state_scheme \<Rightarrow> 'z barrier_state_scheme" where
  "br_leave t st =
     (let st = sched_clear_block_cleanup t (br_unlink t st);
          st = (if td_state st t = TD_STATE_BLOCKED then sched_set_task_state t TD_STATE_RUNNING st else st)
      in st\<lparr>br_active_waiters := br_active_waiters st - 1\<rparr>)"

definition barrier_wait_loop :: "errno option \<Rightarrow> nat \<Rightarrow> 'z barrier_state_scheme \<Rightarrow> int result blocking \<times> 'z barrier_state_scheme" where
  "barrier_wait_loop abort t st =
     (if br_generation st = br_wait_gen st t
      then (case abort of
              None \<Rightarrow> (Block, st)
            | Some e \<Rightarrow> let st = br_leave t st in (Done (Inl e), st\<lparr>br_count := br_count st + 1\<rparr>))
      else (Done (Inr (br_result st t)), br_leave t st))"

text \<open>Waking the waiters of a round: the first is the serial thread.\<close>

fun wake_round :: "bool \<Rightarrow> nat list \<Rightarrow> 'z barrier_state_scheme \<Rightarrow> 'z barrier_state_scheme" where
  "wake_round first [] st = st"
| "wake_round first (w # ws) st = wake_round False ws
     (sched_wake_ready w (st\<lparr>br_result := (br_result st)(w := if first then PTHREAD_BARRIER_SERIAL_THREAD else 0)\<rparr>))"

definition barrier_wait_interruptible :: "errno option \<Rightarrow> nat \<Rightarrow> 'z barrier_state_scheme \<Rightarrow> int result blocking \<times> 'z barrier_state_scheme" where
  "barrier_wait_interruptible abort t st =
     (let st = st\<lparr>br_active_waiters := br_active_waiters st + 1, br_count := br_count st - 1\<rparr> in
      if br_count st = 0
      then let ws = br_waiters st;
               st = st\<lparr>br_count := br_trip_count st, br_generation := br_generation st + 1, br_waiters := []\<rparr>;
               st = wake_round True ws st
        in (Done (Inr (if ws = [] then PTHREAD_BARRIER_SERIAL_THREAD else 0)), st\<lparr>br_active_waiters := br_active_waiters st - 1\<rparr>)
      else barrier_wait_loop abort t
             (sched_set_block_cleanup t (sched_set_task_state t TD_STATE_BLOCKED
               (st\<lparr>br_waiters := br_waiters st @ [t], br_wait_gen := (br_wait_gen st)(t := br_generation st), br_result := (br_result st)(t := 0)\<rparr>))))"

definition barrier_wait :: "errno option \<Rightarrow> nat \<Rightarrow> 'z barrier_state_scheme \<Rightarrow> int result blocking \<times> 'z barrier_state_scheme" where
  "barrier_wait = barrier_wait_interruptible"

definition barrier_wait_cleanup :: "nat \<Rightarrow> 'z barrier_state_scheme \<Rightarrow> 'z barrier_state_scheme" where
  "barrier_wait_cleanup t st =
     (if t \<in> set (br_waiters st)
      then (br_unlink t st)\<lparr>br_count := br_count st + 1, br_active_waiters := br_active_waiters st - 1\<rparr>
      else st)"

definition barrier_destroy :: "'z barrier_state_scheme \<Rightarrow> unit result \<times> 'z barrier_state_scheme" where
  "barrier_destroy st =
     (if br_waiters st \<noteq> [] \<or> br_active_waiters st > 0 then (Inl EBUSY, st) else (Inr (), st\<lparr>br_in_use := False\<rparr>))"

section \<open>Runs\<close>

text \<open>
  The system around one barrier: which tasks are inside a call, the round each of them entered, and the number of rounds completed.
  A task may be killed at any time; the cancellation of a thread is treated apart.
\<close>

record barrier_sys = barrier_state +
  br_inside :: "nat \<Rightarrow> bool"
  br_round :: "nat \<Rightarrow> nat"
  br_rounds :: nat

definition br_settle :: "nat \<Rightarrow> int result blocking \<times> barrier_sys \<Rightarrow> barrier_sys" where
  "br_settle t r = (case r of (res, st) \<Rightarrow> st\<lparr>br_inside := (br_inside st)(t := res = Block)\<rparr>)"

definition br_arrive :: "errno option \<Rightarrow> nat \<Rightarrow> barrier_sys \<Rightarrow> barrier_sys" where
  "br_arrive abort t st =
     br_settle t (barrier_wait_interruptible abort t
       (st\<lparr>br_round := (br_round st)(t := br_rounds st), br_rounds := (if br_count st = 1 then br_rounds st + 1 else br_rounds st)\<rparr>))"

inductive barrier_step :: "barrier_sys \<Rightarrow> barrier_sys \<Rightarrow> bool" where
  arrive: "\<not> br_inside st t \<Longrightarrow> td_state st t = TD_STATE_RUNNING \<Longrightarrow> barrier_step st (br_arrive abort t st)"
| resume: "br_inside st t \<Longrightarrow> td_state st t = TD_STATE_RUNNING \<Longrightarrow> barrier_step st (br_settle t (barrier_wait_loop abort t st))"
| dispatch: "td_state st t = TD_STATE_READY \<Longrightarrow> barrier_step st (sched_set_task_state t TD_STATE_RUNNING st)"
| kill: "barrier_step st (sched_set_task_state t TD_STATE_TERMINATING st)"
| release: "td_state st t = TD_STATE_TERMINATING \<Longrightarrow>
     barrier_step st ((sched_release_terminating barrier_wait_cleanup t st)\<lparr>br_inside := (br_inside st)(t := False)\<rparr>)"

definition barrier_start :: "u32 \<Rightarrow> barrier_sys" where
  "barrier_start n = barrier_init n \<lparr>td_state = \<lambda>_. TD_STATE_RUNNING, td_block_cleanup = \<lambda>_. False, td_wakes = [], br_trip_count = 0, br_count = 0,
     br_generation = 0, br_active_waiters = 0, br_waiters = [], br_in_use = False, br_wait_gen = \<lambda>_. 0, br_result = \<lambda>_. 0,
     br_inside = \<lambda>_. False, br_round = \<lambda>_. 0, br_rounds = 0\<rparr>"

inductive barrier_run :: "u32 \<Rightarrow> barrier_sys \<Rightarrow> bool" for n where
  barrier_run_start: "barrier_run n (barrier_start n)"
| barrier_run_step: "barrier_run n st \<Longrightarrow> barrier_step st st' \<Longrightarrow> barrier_run n st'"

section \<open>Invariant\<close>





section \<open>A completed round\<close>

lemma wake_round_fields [simp]:
  "br_trip_count (wake_round first ws st) = br_trip_count st" "br_count (wake_round first ws st) = br_count st"
  "br_generation (wake_round first ws st) = br_generation st" "br_waiters (wake_round first ws st) = br_waiters st"
  "br_wait_gen (wake_round first ws st) = br_wait_gen st" "td_block_cleanup (wake_round first ws st) = td_block_cleanup st"
  "br_active_waiters (wake_round first ws st) = br_active_waiters st"
  by (induction ws arbitrary: first st) (simp_all add: sched_wake_ready_def sched_set_task_state_def)

lemma wake_round_sys_fields [simp]:
  "br_inside (wake_round first ws st) = br_inside st" "br_round (wake_round first ws st) = br_round st"
  "br_rounds (wake_round first ws st) = br_rounds st"
  by (induction ws arbitrary: first st) (simp_all add: sched_wake_ready_def sched_set_task_state_def)




section \<open>Every step keeps the invariant\<close>













section \<open>Properties\<close>



section \<open>Cancellation\<close>

text \<open>
  Cancelling a thread that waits at the barrier runs its hook, which takes it out of the round; when the thread then leaves the wait
  because of the cancellation it is taken out again. With a barrier for two, the next round needs three arrivals, and the count of
  active waiters wraps, so that the barrier can no longer be destroyed.
\<close>

lemma barrier_cancel_counted_twice:
  "\<exists>st. barrier_run 2 st \<and>
     (case barrier_wait_loop (Some ECANCELED) 1 (sched_set_task_state 1 TD_STATE_RUNNING (sched_cancel_blocked barrier_wait_cleanup 1 st)) of
        (r, st') \<Rightarrow> r = Done (Inl ECANCELED) \<and> br_waiters st' = [] \<and> br_count st' = 3 \<and> br_trip_count st' = 2 \<and>
          br_active_waiters st' = - 1 \<and> fst (barrier_destroy st') = Inl EBUSY)"
proof (intro exI conjI)
  let ?s = "br_arrive None 1 (barrier_start 2)"
  note ev = br_arrive_def br_settle_def barrier_wait_interruptible_def barrier_wait_loop_def barrier_start_def barrier_init_def
    sched_set_block_cleanup_def sched_set_task_state_def Let_def sched_cancel_blocked_def run_block_cleanup_def sched_clear_block_cleanup_def
    barrier_wait_cleanup_def br_unlink_def br_leave_def sched_wake_ready_def barrier_destroy_def
  show "barrier_run 2 ?s" by (rule barrier_run_step [OF barrier_run_start], rule arrive) (simp_all add: ev)
  show "case barrier_wait_loop (Some ECANCELED) 1 (sched_set_task_state 1 TD_STATE_RUNNING (sched_cancel_blocked barrier_wait_cleanup 1 ?s)) of
        (r, st') \<Rightarrow> r = Done (Inl ECANCELED) \<and> br_waiters st' = [] \<and> br_count st' = 3 \<and> br_trip_count st' = 2 \<and>
          br_active_waiters st' = - 1 \<and> fst (barrier_destroy st') = Inl EBUSY"
    by (simp add: ev word_gt_0)
qed

end
