(* ===== verification/Pipe.thy ===== *)
theory Pipe
  imports Mazu_Prelude
begin

text \<open>
  Kernel pipes (\<^verbatim>\<open>kernel/proc/pipe.c\<close>): a circular buffer with ever-growing read and write positions. The section of a call under the
  pipe's lock is one step; a call whose condition does not hold yet ends its step with \<open>Block\<close> and is tried again. The wake-ups a step
  issues are recorded.
\<close>

section \<open>State\<close>

datatype pipe_wq = PipeReaders | PipeWriters

record pipe =
  pp_readers :: u32
  pp_writers :: u32
  pp_head :: u64
  pp_tail :: u64
  pp_buf :: "nat \<Rightarrow> u8"
  pp_wakes :: "(pipe_wq \<times> nat) list"

abbreviation (input) "PIPE_BUF_SIZE \<equiv> 4096 :: nat"

definition pipe_used :: "pipe \<Rightarrow> int" where
  "pipe_used p = sint (pp_tail p - pp_head p)"

definition pipe_space :: "pipe \<Rightarrow> int" where
  "pipe_space p = int PIPE_BUF_SIZE - pipe_used p"

text \<open>The buffer index of a position.\<close>

definition pipe_index :: "u64 \<Rightarrow> nat" where
  "pipe_index pos = unat (pos AND 0xFFF)"

definition wake_up :: "pipe_wq \<Rightarrow> nat \<Rightarrow> pipe \<Rightarrow> pipe" where
  "wake_up wq nr p = p\<lparr>pp_wakes := (wq, nr) # pp_wakes p\<rparr>"

section \<open>Operations\<close>

text \<open>\<open>None\<close> when the allocator has no memory for the pipe.\<close>

definition pipe_alloc :: "bool \<Rightarrow> pipe option" where
  "pipe_alloc memory =
     (if memory
      then Some \<lparr>pp_readers = 1, pp_writers = 1, pp_head = 0, pp_tail = 0, pp_buf = \<lambda>_. 0, pp_wakes = []\<rparr>
      else None)"

fun pipe_copy_out :: "(nat \<Rightarrow> u8) \<Rightarrow> u64 \<Rightarrow> nat \<Rightarrow> u8 list" where
  "pipe_copy_out buf pos 0 = []"
| "pipe_copy_out buf pos (Suc n) = buf (pipe_index pos) # pipe_copy_out buf (pos + 1) n"

fun pipe_copy_in :: "(nat \<Rightarrow> u8) \<Rightarrow> u64 \<Rightarrow> u8 list \<Rightarrow> nat \<Rightarrow> u8" where
  "pipe_copy_in buf pos [] = buf"
| "pipe_copy_in buf pos (b # bs) = pipe_copy_in (buf(pipe_index pos := b)) (pos + 1) bs"

definition pipe_read :: "nat \<Rightarrow> pipe \<Rightarrow> u8 list blocking \<times> pipe" where
  "pipe_read len p =
     (if len = 0 then (Done [], p)
      else let used = pipe_used p in
        if used > 0
        then let n = nat (if int len < used then int len else used)
          in (Done (pipe_copy_out (pp_buf p) (pp_head p) n), wake_up PipeWriters 1 (p\<lparr>pp_head := pp_head p + of_nat n\<rparr>))
        else if pp_writers p = 0 then (Done [], p) else (Block, p))"

definition pipe_write :: "u8 list \<Rightarrow> pipe \<Rightarrow> nat result blocking \<times> pipe" where
  "pipe_write kbuf p =
     (if kbuf = [] then (Done (Inr 0), p)
      else if pp_readers p = 0 then (Done (Inl EPIPE), p)
      else if pipe_space p \<ge> int (length kbuf)
      then (Done (Inr (length kbuf)),
            wake_up PipeReaders 1 (p\<lparr>pp_buf := pipe_copy_in (pp_buf p) (pp_tail p) kbuf, pp_tail := pp_tail p + of_nat (length kbuf)\<rparr>))
      else (Block, p))"

text \<open>Closing one end; \<open>None\<close> when that frees the pipe.\<close>

definition pipe_close_end :: "bool \<Rightarrow> pipe \<Rightarrow> pipe option" where
  "pipe_close_end close_reader p =
     (let p = (if close_reader then p\<lparr>pp_readers := pp_readers p - 1\<rparr> else p\<lparr>pp_writers := pp_writers p - 1\<rparr>);
          free_pipe = (pp_readers p = 0 \<and> pp_writers p = 0);
          wake_peer = (\<not> free_pipe \<and> (if close_reader then pp_readers p = 0 else pp_writers p = 0))
      in if free_pipe then None
         else Some (if wake_peer then wake_up (if close_reader then PipeWriters else PipeReaders) 128 p else p))"

definition pipe_close_read :: "pipe \<Rightarrow> pipe option" where
  "pipe_close_read = pipe_close_end True"

definition pipe_close_write :: "pipe \<Rightarrow> pipe option" where
  "pipe_close_write = pipe_close_end False"

section \<open>Runs\<close>

text \<open>A pipe with everything written to it and everything read from it so far.\<close>

inductive pipe_run :: "pipe \<Rightarrow> u8 list \<Rightarrow> u8 list \<Rightarrow> bool" where
  run_alloc: "pipe_alloc True = Some p \<Longrightarrow> pipe_run p [] []"
| run_write: "pipe_run p written rd \<Longrightarrow> pipe_write kbuf p = (Done (Inr n), p') \<Longrightarrow> pipe_run p' (written @ kbuf) rd"
| run_read: "pipe_run p written rd \<Longrightarrow> pipe_read len p = (Done bytes, p') \<Longrightarrow> pipe_run p' written (rd @ bytes)"
| run_close: "pipe_run p written rd \<Longrightarrow> pipe_close_end close_reader p = Some p' \<Longrightarrow> pipe_run p' written rd"

section \<open>The ring as a queue of bytes\<close>

definition pipe_ok :: "pipe \<Rightarrow> bool" where
  "pipe_ok p \<longleftrightarrow> unat (pp_tail p - pp_head p) \<le> PIPE_BUF_SIZE"

definition pipe_contents :: "pipe \<Rightarrow> u8 list" where
  "pipe_contents p = pipe_copy_out (pp_buf p) (pp_head p) (unat (pp_tail p - pp_head p))"

lemma pipe_used_ok: "pipe_ok p \<Longrightarrow> pipe_used p = int (unat (pp_tail p - pp_head p))"
proof -
  assume "pipe_ok p"
  define w where "w = pp_tail p - pp_head p"
  have u: "uint w = int (unat w)" by simp
  have "unat w \<le> 4096" using \<open>pipe_ok p\<close> by (simp add: pipe_ok_def w_def)
  then have "int (unat w) \<le> int 4096" by (rule of_nat_mono)
  then have "uint w \<le> 4096" unfolding u [symmetric] by simp
  then have "0 \<le> uint w" "uint w < 2 ^ 63" by simp_all
  moreover have "- (2 ^ 63) \<le> uint w" by (rule order_trans [of _ 0]) simp_all
  ultimately have "signed_take_bit 63 (uint w) = uint w" by (intro signed_take_bit_int_eq_self)
  then have "sint w = uint w" by (simp add: sint_uint)
  then show ?thesis unfolding pipe_used_def w_def [symmetric] u .
qed

lemma pipe_index_add: "pipe_index (pos + of_nat i) = (unat pos + i) mod 4096"
proof -
  have m: "(0xFFF :: u64) = mask 12" by (simp add: mask_eq_exp_minus_1)
  have "unat ((pos + of_nat i) AND mask 12) = unat (pos + of_nat i) mod 4096"
    by (simp flip: take_bit_eq_mask add: take_bit_eq_mod unat_mod)
  also have "unat (pos + of_nat i) = (unat pos + i) mod 2 ^ 64"
    by (simp add: unat_word_ariths unsigned_of_nat take_bit_eq_mod mod_add_right_eq)
  finally show ?thesis by (simp add: pipe_index_def m mod_mod_cancel)
qed

lemma copy_out_nth: "pipe_copy_out buf pos n = map (\<lambda>i. buf (pipe_index (pos + of_nat i))) [0..<n]"
proof (induction n arbitrary: pos)
  case (Suc n)
  have "map (\<lambda>i. buf (pipe_index (pos + of_nat i))) [0..<Suc n] =
      buf (pipe_index pos) # map (\<lambda>i. buf (pipe_index (pos + of_nat (Suc i)))) [0..<n]"
    by (simp only: upt_conv_Cons [OF zero_less_Suc] list.map map_Suc_upt [symmetric] map_map) simp
  then show ?case using Suc by (simp add: add.assoc)
qed simp

lemma copy_in_other:
  assumes "\<forall>i < length bs. pipe_index (pos + of_nat i) \<noteq> k"
  shows "pipe_copy_in buf pos bs k = buf k"
  using assms
proof (induction bs arbitrary: buf pos)
  case (Cons b bs)
  have "\<forall>i < length bs. pipe_index (pos + 1 + of_nat i) \<noteq> k"
  proof (intro allI impI)
    fix i
    assume "i < length bs"
    then show "pipe_index (pos + 1 + of_nat i) \<noteq> k" using Cons.prems [rule_format, of "Suc i"] by (simp add: add.assoc)
  qed
  then have "pipe_copy_in (buf(pipe_index pos := b)) (pos + 1) bs k = (buf(pipe_index pos := b)) k" by (rule Cons.IH)
  moreover have "pipe_index pos \<noteq> k" using Cons.prems [rule_format, of 0] by simp
  ultimately show ?case by (simp only: pipe_copy_in.simps fun_upd_other not_sym)
qed simp

lemma index_inj:
  assumes "i < j" "j < i + 4096"
  shows "pipe_index (pos + of_nat i) \<noteq> pipe_index (pos + of_nat j)"
proof
  assume "pipe_index (pos + of_nat i) = pipe_index (pos + of_nat j)"
  then have "(unat pos + i) mod 4096 = (unat pos + j) mod 4096" by (simp add: pipe_index_add)
  then have "4096 dvd (unat pos + j) - (unat pos + i)" using assms(1) by (intro mod_eq_dvd_iff_nat [THEN iffD1]) simp_all
  then have "4096 dvd j - i" by simp
  then show False using assms by (auto dest: dvd_imp_le)
qed

lemma copy_in_nth:
  assumes "i < length bs" "length bs \<le> 4096"
  shows "pipe_copy_in buf pos bs (pipe_index (pos + of_nat i)) = bs ! i"
  using assms
proof (induction bs arbitrary: buf pos i)
  case (Cons b bs)
  show ?case
  proof (cases i)
    case 0
    have "\<forall>j < length bs. pipe_index (pos + 1 + of_nat j) \<noteq> pipe_index pos"
    proof (intro allI impI)
      fix j
      assume "j < length bs"
      then show "pipe_index (pos + 1 + of_nat j) \<noteq> pipe_index pos"
        using index_inj [of 0 "Suc j" pos] Cons.prems(2) by (simp add: add.assoc)
    qed
    then show ?thesis using copy_in_other [of bs "pos + 1"] 0 by simp
  next
    case (Suc j)
    have "pipe_copy_in (buf(pipe_index pos := b)) (pos + 1) bs (pipe_index (pos + 1 + of_nat j)) = bs ! j"
      by (rule Cons.IH) (use Cons.prems Suc in simp_all)
    then show ?thesis by (simp only: Suc pipe_copy_in.simps nth_Cons_Suc of_nat_Suc add.assoc)
  qed
qed simp

lemma contents_length: "length (pipe_contents p) = unat (pp_tail p - pp_head p)"
  by (simp add: pipe_contents_def copy_out_nth)

lemma used_contents: "pipe_ok p \<Longrightarrow> pipe_used p = int (length (pipe_contents p))"
  by (simp only: pipe_used_ok contents_length)

section \<open>Reading and writing\<close>

lemma pipe_read_spec:
  assumes "pipe_ok p" "pipe_read len p = (Done bytes, p')"
  shows "bytes = take len (pipe_contents p) \<and> pipe_contents p' = drop len (pipe_contents p) \<and> pipe_ok p'"
proof (cases "len = 0 \<or> pipe_contents p = []")
  case True
  then have "len = 0 \<or> \<not> pipe_used p > 0" using used_contents [OF assms(1)] by auto
  then have "bytes = [] \<and> p' = p" using assms(2) by (auto simp: pipe_read_def Let_def split: if_splits)
  then show ?thesis using True assms(1) by auto
next
  case False
  define u where "u = unat (pp_tail p - pp_head p)"
  have used: "pipe_used p = int u" using used_contents [OF assms(1)] by (simp only: contents_length u_def)
  define n where "n = min len u"
  have "length (pipe_contents p) = u" by (simp only: contents_length u_def)
  then have "u > 0" using False by (cases "pipe_contents p") auto
  moreover have "u \<le> 4096" using assms(1) by (simp add: u_def pipe_ok_def)
  ultimately have u: "u > 0" "u \<le> 4096" by simp_all
  have "nat (if int len < int u then int len else int u) = n" by (simp add: n_def)
  then have r: "bytes = pipe_copy_out (pp_buf p) (pp_head p) n" "p' = wake_up PipeWriters 1 (p\<lparr>pp_head := pp_head p + of_nat n\<rparr>)"
    using assms(2) False u(1) unfolding pipe_read_def Let_def used by (auto split: if_splits)
  have c: "pipe_contents p = map (\<lambda>i. pp_buf p (pipe_index (pp_head p + of_nat i))) [0..<u]" by (simp add: pipe_contents_def copy_out_nth u_def)
  have d: "unat (pp_tail p - (pp_head p + of_nat n)) = u - n"
  proof -
    have "pp_tail p - (pp_head p + of_nat n) = of_nat u - of_nat n" by (simp add: u_def)
    also have "\<dots> = of_nat (u - n)" by (simp add: n_def of_nat_diff)
    finally show ?thesis using u by (simp add: unsigned_of_nat take_bit_nat_eq_self)
  qed
  have "drop len (pipe_contents p) = map (\<lambda>i. pp_buf p (pipe_index (pp_head p + of_nat i))) [n..<u]"
    by (cases "len \<le> u") (simp_all add: c n_def drop_map drop_upt)
  also have "\<dots> = map (\<lambda>i. pp_buf p (pipe_index (pp_head p + of_nat n + of_nat i))) [0..<u - n]"
    by (rule nth_equalityI) (simp_all add: add.assoc)
  finally have "pipe_contents p' = drop len (pipe_contents p)" by (simp add: r(2) wake_up_def pipe_contents_def copy_out_nth d)
  moreover have "bytes = take len (pipe_contents p)" by (simp add: r(1) c copy_out_nth take_map n_def take_upt min_def)
  moreover have "pipe_ok p'" using u d by (simp add: pipe_ok_def r(2) wake_up_def)
  ultimately show ?thesis by simp
qed

lemma pipe_write_spec:
  assumes "pipe_ok p" "pipe_write kbuf p = (Done (Inr n), p')"
  shows "n = length kbuf \<and> pipe_contents p' = pipe_contents p @ kbuf \<and> pipe_ok p'"
proof (cases "kbuf = []")
  case True
  then show ?thesis using assms by (auto simp: pipe_write_def)
next
  case False
  define u where "u = unat (pp_tail p - pp_head p)"
  define l where "l = length kbuf"
  have used: "pipe_used p = int u" using used_contents [OF assms(1)] by (simp only: contents_length u_def)
  have r: "n = l" "int u + int l \<le> 4096"
    "p' = wake_up PipeReaders 1 (p\<lparr>pp_buf := pipe_copy_in (pp_buf p) (pp_tail p) kbuf, pp_tail := pp_tail p + of_nat l\<rparr>)"
    using assms(2) False unfolding pipe_write_def pipe_space_def used l_def by (auto split: if_splits)
  have tail: "pp_tail p = pp_head p + of_nat u" by (simp add: u_def)
  have d: "unat (pp_tail p + of_nat l - pp_head p) = u + l"
  proof -
    have "pp_tail p + of_nat l - pp_head p = of_nat (u + l)" by (simp add: tail)
    then show ?thesis using r(2) by (simp only:) (simp add: unsigned_of_nat take_bit_nat_eq_self del: of_nat_add)
  qed
  let ?b = "pipe_copy_in (pp_buf p) (pp_tail p) kbuf"
  have old: "?b (pipe_index (pp_head p + of_nat i)) = pp_buf p (pipe_index (pp_head p + of_nat i))" if "i < u" for i
  proof (rule copy_in_other, intro allI impI)
    fix j
    assume "j < length kbuf"
    then show "pipe_index (pp_tail p + of_nat j) \<noteq> pipe_index (pp_head p + of_nat i)"
      using index_inj [of i "u + j" "pp_head p"] that r(2) by (simp add: tail add.assoc l_def)
  qed
  have new: "?b (pipe_index (pp_head p + of_nat (u + j))) = kbuf ! j" if "j < l" for j
    using copy_in_nth [of j kbuf "pp_buf p" "pp_tail p"] that r(2) by (simp add: tail add.assoc l_def)
  have c: "pipe_contents p' = map (\<lambda>i. ?b (pipe_index (pp_head p + of_nat i))) [0..<u + l]"
    by (simp add: r(3) wake_up_def pipe_contents_def copy_out_nth d)
  have "[0..<u + l] = [0..<u] @ map (\<lambda>j. u + j) [0..<l]" using upt_add_eq_append [of 0 u l] map_add_upt [of u l] by (simp add: add.commute)
  then have "pipe_contents p' = map (\<lambda>i. ?b (pipe_index (pp_head p + of_nat i))) [0..<u] @ map (\<lambda>j. ?b (pipe_index (pp_head p + of_nat (u + j)))) [0..<l]"
    using c by (simp add: comp_def)
  also have "map (\<lambda>i. ?b (pipe_index (pp_head p + of_nat i))) [0..<u] = pipe_contents p"
    using old by (simp add: pipe_contents_def copy_out_nth u_def)
  also have "map (\<lambda>j. ?b (pipe_index (pp_head p + of_nat (u + j)))) [0..<l] = kbuf"
    using new by (intro nth_equalityI) (simp_all add: l_def)
  finally have "pipe_contents p' = pipe_contents p @ kbuf" .
  moreover have "pipe_ok p'" using r(2) d by (simp add: pipe_ok_def r(3) wake_up_def)
  ultimately show ?thesis using r(1) by (simp add: l_def)
qed

lemma pipe_read_block:
  assumes "pipe_ok p" "pipe_read len p = (Block, p')"
  shows "p' = p \<and> 0 < len \<and> pipe_contents p = [] \<and> pp_writers p \<noteq> 0"
  using assms used_contents [OF assms(1)] by (auto simp: pipe_read_def Let_def split: if_splits)

lemma pipe_write_block:
  assumes "pipe_ok p" "pipe_write kbuf p = (Block, p')"
  shows "p' = p \<and> PIPE_BUF_SIZE < length (pipe_contents p) + length kbuf \<and> pp_readers p \<noteq> 0"
  using assms used_contents [OF assms(1)] by (auto simp: pipe_write_def pipe_space_def split: if_splits)

lemma pipe_write_fails:
  assumes "pipe_write kbuf p = (Done (Inl e), p')"
  shows "e = EPIPE \<and> p' = p \<and> pp_readers p = 0"
  using assms by (auto simp: pipe_write_def split: if_splits)

lemma pipe_close_spec:
  assumes "pipe_close_end close_reader p = Some p'"
  shows "pipe_contents p' = pipe_contents p \<and> (pipe_ok p' \<longleftrightarrow> pipe_ok p)"
  using assms by (auto simp: pipe_close_end_def Let_def wake_up_def pipe_contents_def pipe_ok_def split: if_splits)

section \<open>Property\<close>

text \<open>
  C40: Whatever sequence of writes, reads and closes a pipe goes through, also when its positions pass the end of the buffer, the
  bytes read so far followed by the bytes still in the pipe are exactly the bytes written, in order, and at most one buffer of them is
  waiting. A read that returns gives the oldest bytes, as many as asked or as there are, and one that waits found the pipe empty with
  a writer left; a write that waits found too little room for the whole message with a reader left.\<close>

theorem pipe_stream:
  assumes "pipe_run p written rd"
  shows "rd @ pipe_contents p = written \<and> length (pipe_contents p) \<le> PIPE_BUF_SIZE \<and>
    (\<forall>len. case pipe_read len p of
       (Done bytes, _) \<Rightarrow> bytes = take len (pipe_contents p)
     | (Block, p') \<Rightarrow> p' = p \<and> 0 < len \<and> pipe_contents p = [] \<and> pp_writers p \<noteq> 0) \<and>
    (\<forall>kbuf. case pipe_write kbuf p of
       (Done r, p') \<Rightarrow> (r = Inr (length kbuf) \<and> pipe_contents p' = pipe_contents p @ kbuf) \<or> (r = Inl EPIPE \<and> p' = p \<and> pp_readers p = 0)
     | (Block, p') \<Rightarrow> p' = p \<and> PIPE_BUF_SIZE < length (pipe_contents p) + length kbuf \<and> pp_readers p \<noteq> 0)"
proof -
  have run: "rd @ pipe_contents p = written \<and> pipe_ok p" using assms
  proof (induction rule: pipe_run.induct)
    case (run_alloc p)
    then show ?case by (auto simp: pipe_alloc_def pipe_contents_def pipe_ok_def)
  next
    case (run_write p written rd kbuf n p')
    then show ?case using pipe_write_spec by auto
  next
    case (run_read p written rd len bytes p')
    then show ?case using pipe_read_spec [of p len bytes p'] by auto
  next
    case (run_close p written rd close_reader p')
    then show ?case using pipe_close_spec by auto
  qed
  then have ok: "pipe_ok p" by simp
  have "case pipe_read len p of (Done bytes, _) \<Rightarrow> bytes = take len (pipe_contents p)
     | (Block, p') \<Rightarrow> p' = p \<and> 0 < len \<and> pipe_contents p = [] \<and> pp_writers p \<noteq> 0" for len
    using pipe_read_spec [OF ok] pipe_read_block [OF ok] by (auto split: prod.split blocking.split)
  moreover have "case pipe_write kbuf p of
       (Done r, p') \<Rightarrow> (r = Inr (length kbuf) \<and> pipe_contents p' = pipe_contents p @ kbuf) \<or> (r = Inl EPIPE \<and> p' = p \<and> pp_readers p = 0)
     | (Block, p') \<Rightarrow> p' = p \<and> PIPE_BUF_SIZE < length (pipe_contents p) + length kbuf \<and> pp_readers p \<noteq> 0" for kbuf
  proof (cases "pipe_write kbuf p")
    case (Pair r p')
    then show ?thesis
      using pipe_write_spec [OF ok, of kbuf _ p'] pipe_write_fails [of kbuf p _ p'] pipe_write_block [OF ok, of kbuf p']
      by (cases r; cases "case r of Done v \<Rightarrow> v | Block \<Rightarrow> Inr 0") auto
  qed
  ultimately show ?thesis using run contents_length [of p] by (auto simp: pipe_ok_def)
qed

theorem pipe_stream_witness:
  "\<exists>p. [1] @ pipe_contents p = [1, 2, 3] \<and> length (pipe_contents p) \<le> PIPE_BUF_SIZE"
proof -
  define p0 where "p0 = the (pipe_alloc True)"
  define p1 where "p1 = snd (pipe_write [1, 2, 3] p0)"
  define p2 where "p2 = snd (pipe_read 1 p1)"
  have "pipe_run p0 [] []" by (rule run_alloc) (simp add: p0_def pipe_alloc_def)
  moreover have "pipe_write [1, 2, 3] p0 = (Done (Inr 3), p1)"
    by (simp add: p1_def p0_def pipe_alloc_def pipe_write_def pipe_space_def pipe_used_def)
  moreover have "pipe_read 1 p1 = (Done [1], p2)"
    by (simp add: p2_def p1_def p0_def pipe_alloc_def pipe_write_def pipe_read_def pipe_space_def pipe_used_def pipe_index_def wake_up_def)
  ultimately have "pipe_run p2 ([] @ [1, 2, 3]) ([] @ [1])" by (blast intro: run_write run_read)
  then show ?thesis using pipe_stream [of p2 "[1, 2, 3]" "[1]"] by auto
qed

end
