(* ===== verification/Sched_State.thy ===== *)
theory Sched_State
  imports Callout
begin

text \<open>
  The state of the scheduler (\<^verbatim>\<open>include/mazu/sched.h\<close>, \<^verbatim>\<open>include/mazu/pcpu.h\<close>, the file-scope variables of
  \<^verbatim>\<open>kernel/sched/core.c\<close> and \<^verbatim>\<open>kernel/sched/deadline.c\<close>). A thread, a hart and a domain is a number. A thread's list node
  \<^verbatim>\<open>sleep_list\<close> links it into at most one list: a run queue, a deadline queue or the list of sleepers; \<open>t_link\<close> says which one, and
  \<open>None\<close> is a node that points to itself. The configuration is the default one: several harts, deadline scheduling and mixed
  criticality enabled. Event tracing, the statistics counters and the watchdog stamps are left out. The clock register is read
  through \<open>sd_clock\<close>, the samples still to come. What the destruction of a dead thread hands on is recorded: threads whose joiners are
  woken, detached threads taken off their process, and thread structures given back to the allocator. \<open>me\<close> is the executing hart.
\<close>

abbreviation (input) "MAX_CPUS \<equiv> 8 :: nat"
abbreviation (input) "CONFIG_SCHED_NPRIO \<equiv> 4 :: nat"
abbreviation (input) "SCHED_PRIO_IDLE \<equiv> 0 :: nat"
abbreviation (input) "SCHED_PRIO_NORMAL \<equiv> 1 :: nat"
abbreviation (input) "SCHED_PRIO_REALTIME \<equiv> 3 :: nat"
abbreviation (input) "SCHED_DOMAIN_MAX_MEMBERS \<equiv> 8 :: nat"

section \<open>Threads\<close>

datatype queue = RunQ nat nat | DlQ nat | SleepQ

datatype sched_policy = SCHED_POLICY_NORMAL | SCHED_POLICY_DEADLINE

record sched_dl_entity =
  dl_runtime :: u64
  dl_deadline :: u64
  dl_period :: u64
  dl_abs_deadline :: u64
  dl_remaining :: u64
  dl_throttled :: bool
  dl_active :: bool
  dl_replenish_callout :: nat

record thread =
  t_state :: td_state
  t_prio :: nat
  t_base_prio :: nat
  t_quantum :: u64
  t_affinity :: "nat option"
  t_last_cpu :: "nat option"
  t_switch_in_ticks :: u64
  t_wakeup_ticks :: u64
  t_load_avg :: u64
  t_domain :: "nat option"
  t_link :: "queue option"
  t_sleep_callout :: nat
  t_quantum_callout :: nat
  t_policy :: sched_policy
  t_dl :: sched_dl_entity
  t_cleanup_queued :: bool
  t_proc :: "nat option"
  t_join_state :: td_join_state

section \<open>Domains\<close>

datatype sched_domain_state = DOMAIN_ACTIVE | DOMAIN_DEPLETED

datatype criticality = SCHED_DOMAIN_CRIT_LO | SCHED_DOMAIN_CRIT_HI

datatype mc_escalation_state = MC_NORMAL | MC_ESCALATED

text \<open>The used part of \<^verbatim>\<open>members\<close> is a list.\<close>

record sched_domain =
  dom_quantum_ticks :: u64
  dom_period_ticks :: u64
  dom_consumed_ticks :: u64
  dom_next_refill :: u64
  dom_state :: sched_domain_state
  dom_refill_callout :: nat
  dom_members :: "nat list"
  dom_criticality :: criticality
  dom_mc_state :: mc_escalation_state
  dom_mc_peer :: "nat option"

section \<open>Harts and the whole state\<close>

record hart =
  h_curthread :: "nat option"
  h_online :: bool
  h_idle :: bool
  h_rt_active :: bool
  h_rt_deadline :: u64
  h_deferred_free :: "nat option"
  h_load :: u64

record sched =
  sd_thread :: "nat \<Rightarrow> thread"
  sd_hart :: "nat \<Rightarrow> hart"
  sd_queue :: "queue \<Rightarrow> nat list"
  sd_bitmap :: "nat \<Rightarrow> u32"
  sd_dl_count :: "nat \<Rightarrow> u32"
  sd_dl_total_util :: u64
  sd_dl_nr_admitted :: u32
  sd_dl_misses :: u64
  sd_dl_throttles :: u64
  sd_dl_replenishments :: u64
  sd_domain :: "nat \<Rightarrow> sched_domain"
  sd_idle_cpus :: u64
  sd_realtime_cpus :: u64
  sd_co :: callouts
  sd_from_ms :: freq_frac
  sd_from_us :: freq_frac
  sd_clock :: "nat \<Rightarrow> u64"
  sd_joinable :: "nat list"
  sd_detached :: "nat list"
  sd_freed :: "nat list"

definition upd_thread :: "nat \<Rightarrow> (thread \<Rightarrow> thread) \<Rightarrow> 'z sched_scheme \<Rightarrow> 'z sched_scheme" where
  "upd_thread t f st = st\<lparr>sd_thread := (sd_thread st)(t := f (sd_thread st t))\<rparr>"

definition upd_hart :: "nat \<Rightarrow> (hart \<Rightarrow> hart) \<Rightarrow> 'z sched_scheme \<Rightarrow> 'z sched_scheme" where
  "upd_hart c f st = st\<lparr>sd_hart := (sd_hart st)(c := f (sd_hart st c))\<rparr>"

definition upd_domain :: "nat \<Rightarrow> (sched_domain \<Rightarrow> sched_domain) \<Rightarrow> 'z sched_scheme \<Rightarrow> 'z sched_scheme" where
  "upd_domain d f st = st\<lparr>sd_domain := (sd_domain st)(d := f (sd_domain st d))\<rparr>"

definition upd_co :: "(callouts \<Rightarrow> callouts) \<Rightarrow> 'z sched_scheme \<Rightarrow> 'z sched_scheme" where
  "upd_co f st = st\<lparr>sd_co := f (sd_co st)\<rparr>"

section \<open>Clock\<close>

definition time_rdtime :: "'z sched_scheme \<Rightarrow> u64 \<times> 'z sched_scheme" where
  "time_rdtime st = (sd_clock st 0, st\<lparr>sd_clock := \<lambda>i. sd_clock st (Suc i)\<rparr>)"

definition time_ms_to_ticks :: "'z sched_scheme \<Rightarrow> u64 \<Rightarrow> u64" where
  "time_ms_to_ticks st ms = freq_frac_apply (sd_from_ms st) ms"

definition time_usec_to_ticks :: "'z sched_scheme \<Rightarrow> u64 \<Rightarrow> u64" where
  "time_usec_to_ticks st usec = freq_frac_apply (sd_from_us st) usec"

text \<open>A callout of the scheduler is armed with the clock sample that \<^verbatim>\<open>callout_set_ticks\<close> reads.\<close>

definition set_callout :: "nat \<Rightarrow> nat \<Rightarrow> u64 \<Rightarrow> nat \<Rightarrow> nat \<Rightarrow> 'z sched_scheme \<Rightarrow> 'z sched_scheme" where
  "set_callout me c ticks func arg st =
     (let (now, st) = time_rdtime st in upd_co (callout_set_ticks me now c ticks func arg) st)"

definition callout_pending :: "nat \<Rightarrow> 'z sched_scheme \<Rightarrow> bool" where
  "callout_pending c st \<longleftrightarrow> co_armed (callout_of (sd_co st) c)"

definition set_need_resched :: "nat \<Rightarrow> 'z sched_scheme \<Rightarrow> 'z sched_scheme" where
  "set_need_resched cpu = upd_co (upd_pcpu cpu (\<lambda>pc. pc\<lparr>need_resched := True\<rparr>))"

definition set_preempt_deadline :: "nat \<Rightarrow> u64 \<Rightarrow> 'z sched_scheme \<Rightarrow> 'z sched_scheme" where
  "set_preempt_deadline cpu deadline = upd_co (upd_pcpu cpu (\<lambda>pc. pc\<lparr>preempt_deadline := deadline\<rparr>))"

text \<open>The functions that callouts run.\<close>

abbreviation (input) "QUANTUM_CALLOUT_CB \<equiv> 1 :: nat"
abbreviation (input) "SLEEP_CALLOUT_CB \<equiv> 2 :: nat"
abbreviation (input) "DL_REPLENISH_CB \<equiv> 3 :: nat"
abbreviation (input) "SCHED_DOMAIN_REFILL_CB \<equiv> 4 :: nat"

section \<open>Lists and bitmaps\<close>

definition list_add_tail :: "queue \<Rightarrow> nat \<Rightarrow> 'z sched_scheme \<Rightarrow> 'z sched_scheme" where
  "list_add_tail q t st =
     upd_thread t (\<lambda>td. td\<lparr>t_link := Some q\<rparr>) (st\<lparr>sd_queue := (sd_queue st)(q := sd_queue st q @ [t])\<rparr>)"

definition list_del_init :: "nat \<Rightarrow> 'z sched_scheme \<Rightarrow> 'z sched_scheme" where
  "list_del_init t st =
     (case t_link (sd_thread st t) of
        None \<Rightarrow> st
      | Some q \<Rightarrow> upd_thread t (\<lambda>td. td\<lparr>t_link := None\<rparr>) (st\<lparr>sd_queue := (sd_queue st)(q := remove1 t (sd_queue st q))\<rparr>))"

definition bitmap_set :: "nat \<Rightarrow> nat \<Rightarrow> 'z sched_scheme \<Rightarrow> 'z sched_scheme" where
  "bitmap_set cpu p st = st\<lparr>sd_bitmap := (sd_bitmap st)(cpu := sd_bitmap st cpu OR push_bit p 1)\<rparr>"

definition bitmap_clear :: "nat \<Rightarrow> nat \<Rightarrow> 'z sched_scheme \<Rightarrow> 'z sched_scheme" where
  "bitmap_clear cpu p st = st\<lparr>sd_bitmap := (sd_bitmap st)(cpu := sd_bitmap st cpu AND NOT (push_bit p 1))\<rparr>"

text \<open>\<^verbatim>\<open>__builtin_clz\<close>, and the highest bit set.\<close>

definition clz32 :: "u32 \<Rightarrow> nat" where
  "clz32 bm = length (takeWhile (\<lambda>i. \<not> bit bm i) (rev [0..<32]))"

definition top_bit :: "u32 \<Rightarrow> nat" where
  "top_bit bm = 31 - clz32 bm"

definition sched_set_task_state :: "nat \<Rightarrow> td_state \<Rightarrow> 'z sched_scheme \<Rightarrow> 'z sched_scheme" where
  "sched_set_task_state t new_state = upd_thread t (\<lambda>td. td\<lparr>t_state := new_state\<rparr>)"

lemma top_bit_eq:
  assumes "bm \<noteq> 0"
  shows "bit bm (top_bit bm)" "\<And>i. bit bm i \<Longrightarrow> i \<le> top_bit bm"
proof -
  obtain k where k: "bit bm k" using assms bit_eqI [of bm 0] by auto
  let ?P = "\<lambda>i. \<not> bit bm i" and ?xs = "rev [0..<32::nat]"
  define n where "n = length (takeWhile ?P ?xs)"
  have nth: "?xs ! i = 31 - i" if "i < 32" for i using that by (simp add: rev_nth)
  have upper: "n \<le> 31 - i" if i: "bit bm i" for i
  proof (rule ccontr)
    assume "\<not> n \<le> 31 - i"
    then have l: "31 - i < n" by simp
    have "?P (takeWhile ?P ?xs ! (31 - i))" using l unfolding n_def by (metis nth_mem set_takeWhileD)
    moreover have "takeWhile ?P ?xs ! (31 - i) = ?xs ! (31 - i)" using l unfolding n_def by (rule takeWhile_nth)
    moreover have "i < 32" using bit_imp_le_length [OF i] by simp
    ultimately show False using nth [of "31 - i"] i by simp
  qed
  have n: "n < 32" using upper [OF k] by simp
  have top: "top_bit bm = 31 - n" by (simp add: top_bit_def clz32_def n_def)
  have "\<not> ?P (?xs ! n)" using nth_length_takeWhile [of ?P ?xs] n unfolding n_def by simp
  then show "bit bm (top_bit bm)" using nth [OF n] top by simp
  show "i \<le> top_bit bm" if "bit bm i" for i
    using upper [OF that] bit_imp_le_length [OF that] n by (simp add: top)
qed

end
