(* ===== verification/Sched_Dl.thy ===== *)
theory Sched_Dl
  imports Sched_State
begin

text \<open>
  Earliest-deadline-first scheduling (\<^verbatim>\<open>kernel/sched/deadline.c\<close>): admission control, the per-hart deadline queues, the choice of
  the next deadline thread and the charging of its budget. The replenishment callback, which wakes threads, is with the run queues.
\<close>

section \<open>Setting up\<close>

definition sched_dl_init :: "'z sched_scheme \<Rightarrow> 'z sched_scheme" where
  "sched_dl_init st =
     st\<lparr>sd_queue := (\<lambda>q. case q of DlQ c \<Rightarrow> if c < MAX_CPUS then [] else sd_queue st q | _ \<Rightarrow> sd_queue st q),
        sd_dl_count := (\<lambda>c. if c < MAX_CPUS then 0 else sd_dl_count st c),
        sd_dl_total_util := 0, sd_dl_nr_admitted := 0\<rparr>"

definition sched_dl_task_init :: "nat \<Rightarrow> 'z sched_scheme \<Rightarrow> 'z sched_scheme" where
  "sched_dl_task_init t st =
     (let c = dl_replenish_callout (t_dl (sd_thread st t));
          st = upd_thread t (\<lambda>td. td
            \<lparr>t_policy := SCHED_POLICY_NORMAL,
             t_dl := \<lparr>dl_runtime = 0, dl_deadline = 0, dl_period = 0, dl_abs_deadline = 0, dl_remaining = 0, dl_throttled = False,
                      dl_active = False, dl_replenish_callout = c\<rparr>\<rparr>) st
      in upd_co (callout_init c) st)"

definition ns_to_ticks :: "'z sched_scheme \<Rightarrow> u64 \<Rightarrow> u64" where
  "ns_to_ticks st ns = time_usec_to_ticks st (ns div 1000)"

definition dl_deadline_missed :: "nat \<Rightarrow> 'z sched_scheme \<Rightarrow> 'z sched_scheme" where
  "dl_deadline_missed t st = (let (now, st) = time_rdtime st in st\<lparr>sd_dl_misses := sd_dl_misses st + 1\<rparr>)"

section \<open>Admission\<close>

abbreviation (input) "DL_UTIL_SHIFT \<equiv> 20 :: nat"
abbreviation (input) "CONFIG_SCHED_DL_UTIL_THRESHOLD \<equiv> 95 :: u64"

definition dl_admission_ok :: "u64 \<Rightarrow> u64 \<Rightarrow> 'z sched_scheme \<Rightarrow> bool" where
  "dl_admission_ok runtime_ticks period_ticks st =
     (if runtime_ticks \<ge> push_bit (64 - DL_UTIL_SHIFT) 1 then False
      else let new_util = push_bit DL_UTIL_SHIFT runtime_ticks div period_ticks;
               threshold = push_bit DL_UTIL_SHIFT CONFIG_SCHED_DL_UTIL_THRESHOLD div 100
        in sd_dl_total_util st + new_util \<le> threshold)"

definition is_dl :: "nat \<Rightarrow> 'z sched_scheme \<Rightarrow> bool" where
  "is_dl t st \<longleftrightarrow> t_policy (sd_thread st t) = SCHED_POLICY_DEADLINE \<and> dl_active (t_dl (sd_thread st t))"

definition dl_util :: "sched_dl_entity \<Rightarrow> u64" where
  "dl_util dl = push_bit DL_UTIL_SHIFT (dl_runtime dl) div dl_period dl"

definition sched_dl_setattr :: "nat \<Rightarrow> u64 \<Rightarrow> u64 \<Rightarrow> u64 \<Rightarrow> 'z sched_scheme \<Rightarrow> unit result \<times> 'z sched_scheme" where
  "sched_dl_setattr t runtime_ns deadline_ns period_ns st =
     (if runtime_ns = 0 \<or> deadline_ns = 0 \<or> period_ns = 0 then (Inl EINVAL, st)
      else if runtime_ns > deadline_ns \<or> deadline_ns > period_ns then (Inl EINVAL, st)
      else let rt = ns_to_ticks st runtime_ns; dl = ns_to_ticks st deadline_ns; pd = ns_to_ticks st period_ns in
        if rt = 0 \<or> dl = 0 \<or> pd = 0 then (Inl EINVAL, st)
        else let already_dl = is_dl t st;
                 old_util = (if already_dl then dl_util (t_dl (sd_thread st t)) else 0);
                 st = (if already_dl then st\<lparr>sd_dl_total_util := sd_dl_total_util st - old_util\<rparr> else st)
          in if \<not> dl_admission_ok rt pd st
             then (Inl EBUSY, if already_dl then st\<lparr>sd_dl_total_util := sd_dl_total_util st + old_util\<rparr> else st)
             else let new_util = push_bit DL_UTIL_SHIFT rt div pd;
                      st = st\<lparr>sd_dl_total_util := sd_dl_total_util st + new_util\<rparr>;
                      st = (if already_dl then st else st\<lparr>sd_dl_nr_admitted := sd_dl_nr_admitted st + 1\<rparr>);
                      (now, st) = time_rdtime st
               in (Inr (), upd_thread t (\<lambda>td. td
                     \<lparr>t_dl := (t_dl td)\<lparr>dl_runtime := rt, dl_deadline := dl, dl_period := pd, dl_remaining := rt,
                        dl_abs_deadline := now + dl, dl_throttled := False, dl_active := True\<rparr>,
                      t_policy := SCHED_POLICY_DEADLINE\<rparr>) st))"

definition sched_dl_clearattr :: "nat \<Rightarrow> nat \<Rightarrow> 'z sched_scheme \<Rightarrow> 'z sched_scheme" where
  "sched_dl_clearattr me t st =
     (if \<not> is_dl t st then st
      else let old_util = dl_util (t_dl (sd_thread st t));
               st = st\<lparr>sd_dl_total_util := sd_dl_total_util st - old_util, sd_dl_nr_admitted := sd_dl_nr_admitted st - 1\<rparr>;
               st = upd_thread t (\<lambda>td. td\<lparr>t_dl := (t_dl td)\<lparr>dl_active := False\<rparr>, t_policy := SCHED_POLICY_NORMAL\<rparr>) st
        in upd_co (callout_cancel me (dl_replenish_callout (t_dl (sd_thread st t)))) st)"

definition sched_dl_task_destroy :: "nat \<Rightarrow> nat \<Rightarrow> 'z sched_scheme \<Rightarrow> 'z sched_scheme" where
  "sched_dl_task_destroy me t st =
     (let st = sched_dl_clearattr me t st in upd_co (callout_cancel me (dl_replenish_callout (t_dl (sd_thread st t)))) st)"

section \<open>Queues\<close>

definition sched_dl_enqueue :: "nat \<Rightarrow> nat \<Rightarrow> nat \<Rightarrow> 'z sched_scheme \<Rightarrow> 'z sched_scheme" where
  "sched_dl_enqueue me t cpu st =
     (if t_link (sd_thread st t) \<noteq> None then st
      else let st = sched_set_task_state t TD_STATE_READY st;
               st = list_add_tail (DlQ cpu) t st;
               st = st\<lparr>sd_dl_count := (sd_dl_count st)(cpu := sd_dl_count st cpu + 1)\<rparr>;
               st = (case h_curthread (sd_hart st cpu) of
                       None \<Rightarrow> st
                     | Some cur \<Rightarrow>
                         if t_policy (sd_thread st cur) \<noteq> SCHED_POLICY_DEADLINE \<or>
                            dl_abs_deadline (t_dl (sd_thread st t)) < dl_abs_deadline (t_dl (sd_thread st cur))
                         then set_need_resched cpu st else st)
        in if cpu \<noteq> me then upd_co (ipi_send cpu IPI_SCHED) st else st)"

text \<open>The scan for the earliest deadline among the threads that are not throttled.\<close>

fun dl_best :: "(nat \<Rightarrow> sched_dl_entity) \<Rightarrow> nat option \<Rightarrow> nat list \<Rightarrow> nat option" where
  "dl_best dl best [] = best"
| "dl_best dl best (t # ts) =
     (if dl_throttled (dl t) then dl_best dl best ts
      else case best of
          None \<Rightarrow> dl_best dl (Some t) ts
        | Some b \<Rightarrow> dl_best dl (if dl_abs_deadline (dl t) < dl_abs_deadline (dl b) then Some t else best) ts)"

definition sched_dl_pick_next :: "nat \<Rightarrow> 'z sched_scheme \<Rightarrow> nat option \<times> 'z sched_scheme" where
  "sched_dl_pick_next cpu st =
     (if sd_dl_count st cpu = 0 then (None, st)
      else case dl_best (\<lambda>t. t_dl (sd_thread st t)) None (sd_queue st (DlQ cpu)) of
          None \<Rightarrow> (None, st)
        | Some best \<Rightarrow>
            let st = list_del_init best st
            in (Some best, st\<lparr>sd_dl_count := (sd_dl_count st)(cpu := sd_dl_count st cpu - 1)\<rparr>))"

section \<open>Budget\<close>

definition sched_dl_charge :: "nat \<Rightarrow> nat \<Rightarrow> u64 \<Rightarrow> 'z sched_scheme \<Rightarrow> 'z sched_scheme" where
  "sched_dl_charge me t delta_ticks st =
     (let dl = t_dl (sd_thread st t) in
      if \<not> dl_active dl \<or> dl_throttled dl then st
      else let (now, st) = time_rdtime st;
               st = (if now > dl_abs_deadline dl then dl_deadline_missed t st else st)
        in if delta_ticks \<ge> dl_remaining dl
           then let st = upd_thread t (\<lambda>td. td\<lparr>t_dl := (t_dl td)\<lparr>dl_remaining := 0, dl_throttled := True\<rparr>\<rparr>) st;
                    st = st\<lparr>sd_dl_throttles := sd_dl_throttles st + 1\<rparr>;
                    st = (if t_state (sd_thread st t) = TD_STATE_RUNNING
                          then sched_set_task_state t TD_STATE_DL_THROTTLED st else st);
                    period_start = dl_abs_deadline dl - dl_deadline dl;
                    next_replenish = period_start + dl_period dl;
                    delay = (if next_replenish > now then next_replenish - now else 1)
             in set_callout me (dl_replenish_callout dl) delay DL_REPLENISH_CB t st
           else upd_thread t (\<lambda>td. td\<lparr>t_dl := (t_dl td)\<lparr>dl_remaining := dl_remaining dl - delta_ticks\<rparr>\<rparr>) st)"

end
