(* ===== verification/Sched_Queue.thy ===== *)
theory Sched_Queue
  imports Sched_Dl
begin

text \<open>
  The run queues (\<^verbatim>\<open>kernel/sched/core.c\<close>): per hart one list for each priority and a bitmap of the lists in use. Enqueueing, waking,
  choosing the next thread, stealing from other harts, and moving load between them. The section under a run queue's lock is
  atomic, so the second look at a domain's state, which is there for a refill in between, finds what the first one found.
\<close>

section \<open>Load\<close>

abbreviation (input) "LOAD_SCALE \<equiv> 65536 :: u64"

definition sched_update_load_avg :: "nat \<Rightarrow> u64 \<Rightarrow> 'z sched_scheme \<Rightarrow> 'z sched_scheme" where
  "sched_update_load_avg t delta_ticks st =
     (let quantum_ticks = time_ms_to_ticks st 10;
          running = (if quantum_ticks = 0 \<or> delta_ticks \<ge> quantum_ticks then LOAD_SCALE
                     else (delta_ticks * LOAD_SCALE) div quantum_ticks)
      in upd_thread t (\<lambda>td. td\<lparr>t_load_avg := (7 * t_load_avg td + running) div 8\<rparr>) st)"

definition sched_decay_sleeping_load :: "nat \<Rightarrow> 'z sched_scheme \<Rightarrow> 'z sched_scheme" where
  "sched_decay_sleeping_load t st =
     (if t_load_avg (sd_thread st t) = 0 then st
      else let quantum_ticks = time_ms_to_ticks st 10 in
        if quantum_ticks = 0 then st
        else let (now, st) = time_rdtime st;
                 sleep_ticks = (if now > t_switch_in_ticks (sd_thread st t) then now - t_switch_in_ticks (sd_thread st t) else 0);
                 elapsed_quanta = sleep_ticks div quantum_ticks;
                 elapsed_quanta = (if elapsed_quanta > 8 then 8 else elapsed_quanta)
          in upd_thread t (\<lambda>td. td\<lparr>t_load_avg := ((\<lambda>l. (7 * l) div 8) ^^ unat elapsed_quanta) (t_load_avg td)\<rparr>) st)"

section \<open>Enqueueing\<close>

definition sched_deadline_saturate :: "u64 \<Rightarrow> u64 \<Rightarrow> u64" where
  "sched_deadline_saturate now qticks = (if qticks > U64_MAX - 1 - now then U64_MAX - 1 else now + qticks)"

definition sched_select_cpu :: "nat \<Rightarrow> nat \<Rightarrow> 'z sched_scheme \<Rightarrow> nat" where
  "sched_select_cpu me t st =
     (case t_affinity (sd_thread st t) of
        Some aff \<Rightarrow> aff
      | None \<Rightarrow> (case t_last_cpu (sd_thread st t) of
            Some c \<Rightarrow> if h_online (sd_hart st c) then c else me
          | None \<Rightarrow> me))"

definition domain_depleted :: "nat \<Rightarrow> 'z sched_scheme \<Rightarrow> bool" where
  "domain_depleted t st =
     (case t_domain (sd_thread st t) of None \<Rightarrow> False | Some d \<Rightarrow> dom_state (sd_domain st d) = DOMAIN_DEPLETED)"

text \<open>A second thread at the priority of the hart's current thread starts that thread's time slice.\<close>

definition tick_restart :: "nat \<Rightarrow> nat \<Rightarrow> nat \<Rightarrow> nat \<Rightarrow> 'z sched_scheme \<Rightarrow> 'z sched_scheme" where
  "tick_restart me cpu cur prio st =
     (let td = sd_thread st cur in
      if t_quantum td > 0 \<and> t_prio td = prio \<and> \<not> callout_pending (t_quantum_callout td) st
      then let qticks = time_ms_to_ticks st (t_quantum td * 10);
               st = set_callout me (t_quantum_callout td) qticks QUANTUM_CALLOUT_CB cur st
        in if cpu = me
           then let (now, st) = time_rdtime st;
                    st = set_preempt_deadline cpu (sched_deadline_saturate now qticks) st
             in upd_co (upd_pcpu cpu update_pcpu_deadline) st
           else st
      else st)"

text \<open>A remote hart is interrupted, unless it runs a real-time thread and the new one is not urgent.\<close>

definition remote_kick :: "nat \<Rightarrow> nat \<Rightarrow> nat \<Rightarrow> 'z sched_scheme \<Rightarrow> 'z sched_scheme" where
  "remote_kick me t cpu st =
     (let td = sd_thread st t in
      if t_prio td > SCHED_PRIO_IDLE \<and> cpu \<noteq> me
      then let skip = (h_rt_active (sd_hart st cpu) \<and>
                 \<not> (t_policy td = SCHED_POLICY_DEADLINE \<and> dl_abs_deadline (t_dl td) < h_rt_deadline (sd_hart st cpu)) \<and>
                 \<not> t_prio td \<ge> SCHED_PRIO_REALTIME)
        in if skip then st else upd_co (ipi_send cpu IPI_SCHED) st
      else st)"

definition sched_enqueue_cpu_locked :: "nat \<Rightarrow> nat \<Rightarrow> nat \<Rightarrow> 'z sched_scheme \<Rightarrow> 'z sched_scheme" where
  "sched_enqueue_cpu_locked me t cpu st =
     (if t_link (sd_thread st t) \<noteq> None then st
      else if is_dl t st then sched_dl_enqueue me t cpu st
      else if domain_depleted t st then sched_set_task_state t TD_STATE_BLOCKED st
      else let prio = t_prio (sd_thread st t);
               st = sched_set_task_state t TD_STATE_READY st;
               st = list_add_tail (RunQ cpu prio) t st;
               st = bitmap_set cpu prio st;
               st = (case h_curthread (sd_hart st cpu) of
                       None \<Rightarrow> st
                     | Some cur \<Rightarrow>
                         tick_restart me cpu cur prio (if prio > t_prio (sd_thread st cur) then set_need_resched cpu st else st))
        in remote_kick me t cpu st)"

definition sched_enqueue_ready :: "nat \<Rightarrow> nat \<Rightarrow> 'z sched_scheme \<Rightarrow> 'z sched_scheme" where
  "sched_enqueue_ready me t st =
     (let st = sched_decay_sleeping_load t st in sched_enqueue_cpu_locked me t (sched_select_cpu me t st) st)"

definition sched_note_wakeup :: "nat \<Rightarrow> 'z sched_scheme \<Rightarrow> 'z sched_scheme" where
  "sched_note_wakeup t st = (let (now, st) = time_rdtime st in upd_thread t (\<lambda>td. td\<lparr>t_wakeup_ticks := now\<rparr>) st)"

definition sched_wake_ready :: "nat \<Rightarrow> nat \<Rightarrow> 'z sched_scheme \<Rightarrow> 'z sched_scheme" where
  "sched_wake_ready me t st = sched_enqueue_ready me t (sched_note_wakeup t (sched_set_task_state t TD_STATE_READY st))"

section \<open>Picking\<close>

definition sched_dequeue_task_locked :: "nat \<Rightarrow> nat \<Rightarrow> 'z sched_scheme \<Rightarrow> 'z sched_scheme" where
  "sched_dequeue_task_locked t cpu st =
     (let st = list_del_init t st; prio = t_prio (sd_thread st t)
      in if sd_queue st (RunQ cpu prio) = [] then bitmap_clear cpu prio st else st)"

text \<open>The loop over a bitmap from its highest bit down: the first level where \<open>sel\<close> finds a thread.\<close>

lemma clear_top_less: "(bm :: u32) \<noteq> 0 \<Longrightarrow> unat (bm AND NOT (2 ^ top_bit bm)) < unat bm"
proof -
  assume "bm \<noteq> 0"
  then have "bit bm (top_bit bm)" by (rule top_bit_eq)
  then have "bm AND NOT (2 ^ top_bit bm) \<noteq> bm"
    by (metis bit_and_iff bit_not_iff bit_exp_iff bit_imp_possible_bit possible_bit_def)
  moreover have "bm AND NOT (2 ^ top_bit bm) \<le> bm" by (rule word_and_le2)
  ultimately have "bm AND NOT (2 ^ top_bit bm) < bm" by (simp add: order_less_le)
  then show ?thesis by (simp only: word_less_nat_alt)
qed

function runq_scan :: "(nat \<Rightarrow> nat option) \<Rightarrow> u32 \<Rightarrow> (nat \<times> nat) option" where
  "runq_scan sel bm =
     (if bm = 0 then None
      else let p = top_bit bm in
        case sel p of Some t \<Rightarrow> Some (p, t) | None \<Rightarrow> runq_scan sel (bm AND NOT (push_bit p 1)))"
  by pat_completeness auto
termination
  by (relation "measure (\<lambda>(sel, bm). unat bm)") (simp_all add: clear_top_less)

declare runq_scan.simps [simp del]

definition sched_pick_from_cpu_locked :: "nat \<Rightarrow> 'z sched_scheme \<Rightarrow> nat option \<times> 'z sched_scheme" where
  "sched_pick_from_cpu_locked cpu st =
     (case sched_dl_pick_next cpu st of
        (Some dl_next, st) \<Rightarrow> (Some dl_next, st)
      | (None, st) \<Rightarrow>
          (case runq_scan (\<lambda>p. list_head_of (sd_queue st (RunQ cpu p))) (sd_bitmap st cpu) of
             Some (p, t) \<Rightarrow> (Some t, sched_dequeue_task_locked t cpu st)
           | None \<Rightarrow> (None, st)))"

text \<open>The first thread of a list that is not pinned.\<close>

definition first_migratable :: "'z sched_scheme \<Rightarrow> nat list \<Rightarrow> nat option" where
  "first_migratable st ts = find (\<lambda>t. t_affinity (sd_thread st t) = None) ts"

text \<open>\<open>locks i\<close> says whether the lock of hart \<open>i\<close> can be taken without waiting.\<close>

fun sched_steal :: "(nat \<Rightarrow> bool) \<Rightarrow> nat \<Rightarrow> nat list \<Rightarrow> 'z sched_scheme \<Rightarrow> nat option \<times> 'z sched_scheme" where
  "sched_steal locks cpuid [] st = (None, st)"
| "sched_steal locks cpuid (i # is') st =
     (if i = cpuid \<or> \<not> h_online (sd_hart st i) \<or> \<not> locks i then sched_steal locks cpuid is' st
      else case runq_scan (\<lambda>p. first_migratable st (sd_queue st (RunQ i p))) (sd_bitmap st i AND NOT 1) of
          None \<Rightarrow> sched_steal locks cpuid is' st
        | Some (p, t) \<Rightarrow>
            let st = list_del_init t st
            in (Some t, if sd_queue st (RunQ i p) = [] then bitmap_clear i p st else st))"

text \<open>\<open>None\<close> is the panic when nothing is runnable.\<close>

definition sched_pick_next_local :: "(nat \<Rightarrow> bool) \<Rightarrow> nat \<Rightarrow> 'z sched_scheme \<Rightarrow> nat option \<times> 'z sched_scheme" where
  "sched_pick_next_local locks cpuid st =
     (let (picked, st) = sched_pick_from_cpu_locked cpuid st in
      if (case picked of None \<Rightarrow> False | Some t \<Rightarrow> t_prio (sd_thread st t) > SCHED_PRIO_IDLE) then (picked, st)
      else case sched_steal locks cpuid [0..<MAX_CPUS] st of
          (None, st) \<Rightarrow> (picked, st)
        | (Some stolen, st) \<Rightarrow>
            (Some stolen, case picked of
                None \<Rightarrow> st
              | Some idle_fallback \<Rightarrow>
                  let prio = t_prio (sd_thread st idle_fallback)
                  in bitmap_set cpuid prio (list_add_tail (RunQ cpuid prio) idle_fallback st)))"

section \<open>Load balancing\<close>

definition sched_hart_load_locked :: "nat \<Rightarrow> 'z sched_scheme \<Rightarrow> u64" where
  "sched_hart_load_locked cpu st =
     (let load = fold (\<lambda>p load. fold (\<lambda>t load. load + t_load_avg (sd_thread st t)) (sd_queue st (RunQ cpu p)) load)
                   (rev [0..<CONFIG_SCHED_NPRIO]) 0
      in case h_curthread (sd_hart st cpu) of None \<Rightarrow> load | Some cur \<Rightarrow> load + t_load_avg (sd_thread st cur))"

text \<open>The loop over the harts: busiest and idlest hart with their loads.\<close>

fun balance_scan ::
    "(nat \<Rightarrow> bool) \<Rightarrow> nat list \<Rightarrow> nat \<times> u64 \<times> nat \<times> u64 \<Rightarrow> 'z sched_scheme \<Rightarrow> (nat \<times> u64 \<times> nat \<times> u64) \<times> 'z sched_scheme" where
  "balance_scan locks [] acc st = (acc, st)"
| "balance_scan locks (i # is') (busiest, max_load, idlest, min_load) st =
     (if \<not> h_online (sd_hart st i) \<or> \<not> locks i then balance_scan locks is' (busiest, max_load, idlest, min_load) st
      else let load = sched_hart_load_locked i st;
               st = upd_hart i (\<lambda>h. h\<lparr>h_load := load\<rparr>) st;
               (busiest, max_load) = (if load > max_load then (i, load) else (busiest, max_load));
               (idlest, min_load) = (if load < min_load then (i, load) else (idlest, min_load))
        in balance_scan locks is' (busiest, max_load, idlest, min_load) st)"

text \<open>The thread whose move helps most without turning the imbalance round.\<close>

definition balance_victim :: "nat \<Rightarrow> u64 \<Rightarrow> u64 \<Rightarrow> 'z sched_scheme \<Rightarrow> nat option" where
  "balance_victim busiest max_load min_load st =
     fst (fold (\<lambda>t (victim, victim_load).
         let load = t_load_avg (sd_thread st t) in
         if t_affinity (sd_thread st t) = None \<and> load > victim_load \<and> max_load - load \<ge> min_load + load
         then (Some t, load) else (victim, victim_load))
       (concat (map (\<lambda>p. sd_queue st (RunQ busiest p)) [SCHED_PRIO_NORMAL..<CONFIG_SCHED_NPRIO])) (None, 0))"

text \<open>One round of the balancer after its sleep.\<close>

definition sched_load_balance :: "(nat \<Rightarrow> bool) \<Rightarrow> nat \<Rightarrow> nat \<Rightarrow> 'z sched_scheme \<Rightarrow> 'z sched_scheme" where
  "sched_load_balance locks me ncpus st =
     (if ncpus < 2 then st
      else let ((busiest, max_load, idlest, min_load), st) = balance_scan locks [0..<ncpus] (0, 0, 0, U64_MAX) st in
        if max_load < LOAD_SCALE \<or> max_load < min_load + LOAD_SCALE div 2 \<or> busiest = idlest then st
        else case balance_victim busiest max_load min_load st of
            None \<Rightarrow> st
          | Some victim \<Rightarrow> sched_enqueue_cpu_locked me victim idlest (sched_dequeue_task_locked victim busiest st))"

end
