(* ===== verification/Sched_Domain.thy ===== *)
theory Sched_Domain
  imports Sched_Queue
begin

text \<open>
  Processor budgets: scheduling domains (\<^verbatim>\<open>kernel/sched/core.c\<close>), their mixed-criticality pairs (\<^verbatim>\<open>kernel/sched/mixed_crit.c\<close>) and the
  replenishment of deadline threads (\<^verbatim>\<open>kernel/sched/deadline.c\<close>).
\<close>

section \<open>Mixed criticality\<close>

definition sched_mc_init_pair :: "nat \<Rightarrow> nat \<Rightarrow> 'z sched_scheme \<Rightarrow> 'z sched_scheme" where
  "sched_mc_init_pair hi lo st =
     upd_domain lo (\<lambda>d. d\<lparr>dom_criticality := SCHED_DOMAIN_CRIT_LO, dom_mc_state := MC_NORMAL, dom_mc_peer := Some hi\<rparr>)
       (upd_domain hi (\<lambda>d. d\<lparr>dom_criticality := SCHED_DOMAIN_CRIT_HI, dom_mc_state := MC_NORMAL, dom_mc_peer := Some lo\<rparr>) st)"

definition sched_mc_check_escalation :: "nat \<Rightarrow> 'z sched_scheme \<Rightarrow> 'z sched_scheme" where
  "sched_mc_check_escalation hi st =
     (let d = sd_domain st hi in
      if dom_mc_state d \<noteq> MC_NORMAL then st
      else if dom_consumed_ticks d \<le> dom_quantum_ticks d then st
      else case dom_mc_peer d of
          None \<Rightarrow> st
        | Some lo \<Rightarrow> upd_domain lo (\<lambda>d. d\<lparr>dom_mc_state := MC_ESCALATED, dom_state := DOMAIN_DEPLETED\<rparr>)
            (upd_domain hi (\<lambda>d. d\<lparr>dom_mc_state := MC_ESCALATED\<rparr>) st))"

definition sched_mc_check_recovery :: "nat \<Rightarrow> 'z sched_scheme \<Rightarrow> 'z sched_scheme" where
  "sched_mc_check_recovery hi st =
     (let d = sd_domain st hi in
      if dom_mc_state d \<noteq> MC_ESCALATED then st
      else case dom_mc_peer d of
          None \<Rightarrow> st
        | Some lo \<Rightarrow> upd_domain lo (\<lambda>d. d\<lparr>dom_mc_state := MC_NORMAL\<rparr>)
            (upd_domain hi (\<lambda>d. d\<lparr>dom_mc_state := MC_NORMAL\<rparr>)
              (upd_domain lo (\<lambda>d. d\<lparr>dom_state := DOMAIN_ACTIVE, dom_consumed_ticks := 0\<rparr>) st)))"

section \<open>Domains\<close>

text \<open>Removal by moving the last member into the gap.\<close>

fun remove_member :: "nat \<Rightarrow> nat list \<Rightarrow> nat list" where
  "remove_member t [] = []"
| "remove_member t (m # ms) =
     (if m = t then (case ms of [] \<Rightarrow> [] | _ \<Rightarrow> last ms # butlast ms) else m # remove_member t ms)"

definition domain_remove_member :: "nat \<Rightarrow> nat \<Rightarrow> 'z sched_scheme \<Rightarrow> 'z sched_scheme" where
  "domain_remove_member d t = upd_domain d (\<lambda>dom. dom\<lparr>dom_members := remove_member t (dom_members dom)\<rparr>)"

definition sched_domain_init :: "nat \<Rightarrow> nat \<Rightarrow> u64 \<Rightarrow> u64 \<Rightarrow> 'z sched_scheme \<Rightarrow> 'z sched_scheme" where
  "sched_domain_init me d quantum_ticks period_ticks st =
     (let c = dom_refill_callout (sd_domain st d);
          (now, st) = time_rdtime st;
          st = upd_domain d (\<lambda>_. \<lparr>dom_quantum_ticks = quantum_ticks, dom_period_ticks = period_ticks, dom_consumed_ticks = 0,
                 dom_next_refill = now + period_ticks, dom_state = DOMAIN_ACTIVE, dom_refill_callout = c, dom_members = [],
                 dom_criticality = SCHED_DOMAIN_CRIT_LO, dom_mc_state = MC_NORMAL, dom_mc_peer = None\<rparr>) st;
          st = upd_co (callout_init c) st
      in set_callout me c period_ticks SCHED_DOMAIN_REFILL_CB d st)"

text \<open>The result says whether the thread was attached.\<close>

definition sched_domain_attach :: "nat \<Rightarrow> nat \<Rightarrow> 'z sched_scheme \<Rightarrow> bool \<times> 'z sched_scheme" where
  "sched_domain_attach d t st =
     (let dom = t_domain (sd_thread st t) in
      if dom \<noteq> Some d \<and> length (dom_members (sd_domain st d)) \<ge> SCHED_DOMAIN_MAX_MEMBERS then (False, st)
      else let st = (case dom of None \<Rightarrow> st | Some old \<Rightarrow> domain_remove_member old t st);
               st = upd_domain d (\<lambda>dom. dom\<lparr>dom_members := dom_members dom @ [t]\<rparr>) st
        in (True, upd_thread t (\<lambda>td. td\<lparr>t_domain := Some d\<rparr>) st))"

definition sched_domain_detach :: "nat \<Rightarrow> nat \<Rightarrow> 'z sched_scheme \<Rightarrow> 'z sched_scheme" where
  "sched_domain_detach me t st =
     (case t_domain (sd_thread st t) of
        None \<Rightarrow> st
      | Some d \<Rightarrow>
          let st = domain_remove_member d t st;
              st = upd_thread t (\<lambda>td. td\<lparr>t_domain := None\<rparr>) st
          in if t_state (sd_thread st t) = TD_STATE_BLOCKED \<and> t_link (sd_thread st t) = None
             then sched_enqueue_ready me t (sched_note_wakeup t (sched_set_task_state t TD_STATE_READY st))
             else st)"

definition refill_member :: "nat \<Rightarrow> nat \<Rightarrow> nat \<Rightarrow> 'z sched_scheme \<Rightarrow> 'z sched_scheme" where
  "refill_member me d t st =
     (if t_state (sd_thread st t) \<noteq> TD_STATE_BLOCKED \<or> t_domain (sd_thread st t) \<noteq> Some d \<or> t_link (sd_thread st t) \<noteq> None then st
      else sched_enqueue_ready me t (sched_set_task_state t TD_STATE_READY st))"

definition sched_domain_refill_cb :: "nat \<Rightarrow> nat \<Rightarrow> 'z sched_scheme \<Rightarrow> 'z sched_scheme" where
  "sched_domain_refill_cb me d st =
     (let st = upd_domain d (\<lambda>dom. dom\<lparr>dom_consumed_ticks := 0, dom_state := DOMAIN_ACTIVE,
                 dom_next_refill := dom_next_refill dom + dom_period_ticks dom\<rparr>) st;
          st = (if dom_criticality (sd_domain st d) = SCHED_DOMAIN_CRIT_HI then sched_mc_check_recovery d st else st);
          st = set_callout me (dom_refill_callout (sd_domain st d)) (dom_period_ticks (sd_domain st d)) SCHED_DOMAIN_REFILL_CB d st
      in fold (refill_member me d) (dom_members (sd_domain st d)) st)"

section \<open>Replenishment\<close>

definition dl_replenish_cb :: "nat \<Rightarrow> nat \<Rightarrow> 'z sched_scheme \<Rightarrow> 'z sched_scheme" where
  "dl_replenish_cb me t st =
     (let st = upd_thread t (\<lambda>td. td\<lparr>t_dl := (t_dl td)
                 \<lparr>dl_remaining := dl_runtime (t_dl td), dl_abs_deadline := dl_abs_deadline (t_dl td) + dl_period (t_dl td)\<rparr>\<rparr>) st;
          (now, st) = time_rdtime st;
          st = (if now > dl_abs_deadline (t_dl (sd_thread st t))
                then upd_thread t (\<lambda>td. td\<lparr>t_dl := (t_dl td)\<lparr>dl_abs_deadline := now + dl_deadline (t_dl td)\<rparr>\<rparr>) (dl_deadline_missed t st)
                else st);
          st = upd_thread t (\<lambda>td. td\<lparr>t_dl := (t_dl td)\<lparr>dl_throttled := False\<rparr>\<rparr>) st;
          st = st\<lparr>sd_dl_replenishments := sd_dl_replenishments st + 1\<rparr>
      in if t_state (sd_thread st t) = TD_STATE_DL_THROTTLED then sched_wake_ready me t st
         else if t_state (sd_thread st t) = TD_STATE_READY
         then (case t_last_cpu (sd_thread st t) of
                 None \<Rightarrow> st
               | Some cpu \<Rightarrow>
                   if cpu < MAX_CPUS
                   then let st = set_need_resched cpu st in if cpu \<noteq> me then upd_co (ipi_send cpu IPI_SCHED) st else st
                   else st)
         else st)"

end
