(* ===== verification/Sched_Core.thy ===== *)
theory Sched_Core
  imports Sched_Domain
begin

text \<open>
  The scheduler proper (\<^verbatim>\<open>kernel/sched/core.c\<close>): the switch from one thread to the next, sleeping, creation and destruction of
  threads, start-up, and the place in the trap handler (\<^verbatim>\<open>arch/riscv64/trap.c\<close>) that calls it.
\<close>

section \<open>Sleeping\<close>

definition quantum_callout_cb :: "nat \<Rightarrow> 'z sched_scheme \<Rightarrow> 'z sched_scheme" where
  "quantum_callout_cb me = set_need_resched me"

definition sleep_callout_cb :: "nat \<Rightarrow> nat \<Rightarrow> 'z sched_scheme \<Rightarrow> 'z sched_scheme" where
  "sleep_callout_cb me t st =
     (if t_state (sd_thread st t) \<noteq> TD_STATE_SLEEPING then st
      else sched_enqueue_ready me t (sched_note_wakeup t (sched_set_task_state t TD_STATE_READY (list_del_init t st))))"

definition sched_wake_sleeping :: "nat \<Rightarrow> nat \<Rightarrow> 'z sched_scheme \<Rightarrow> 'z sched_scheme" where
  "sched_wake_sleeping me t st =
     (if t_state (sd_thread st t) \<noteq> TD_STATE_SLEEPING then st
      else let st = sched_note_wakeup t (sched_set_task_state t TD_STATE_READY (list_del_init t st));
               st = upd_co (callout_cancel me (t_sleep_callout (sd_thread st t))) st
        in sched_enqueue_ready me t st)"

text \<open>For the thread \<open>t\<close> that runs on the hart, up to the trap that switches away.\<close>

definition sleep_ms :: "nat \<Rightarrow> nat \<Rightarrow> u64 \<Rightarrow> 'z sched_scheme \<Rightarrow> 'z sched_scheme" where
  "sleep_ms me t ms st =
     (let st = upd_co (callout_cancel me (t_quantum_callout (sd_thread st t))) st;
          st = set_preempt_deadline me U64_MAX st
      in if ms = 0 then sched_set_task_state t TD_STATE_YIELDING st
         else let st = sched_set_task_state t TD_STATE_SLEEPING st;
                  st = list_add_tail SleepQ t st
           in set_callout me (t_sleep_callout (sd_thread st t)) (time_ms_to_ticks st ms) SLEEP_CALLOUT_CB t st)"

section \<open>Creation and destruction\<close>

definition sched_default_quantum :: "nat \<Rightarrow> u64" where
  "sched_default_quantum prio = (if prio = 0 then 0 else if prio = 1 then 1 else if prio = 2 then 2 else if prio = 3 then 5 else 0)"

definition sched_task_alloc_init :: "nat \<Rightarrow> 'z sched_scheme \<Rightarrow> 'z sched_scheme" where
  "sched_task_alloc_init t st =
     (let st = upd_thread t (\<lambda>td. td
            \<lparr>t_state := TD_STATE_READY, t_prio := 0, t_base_prio := 0, t_quantum := 0, t_affinity := None, t_last_cpu := None,
             t_switch_in_ticks := 0, t_wakeup_ticks := 0, t_load_avg := 0, t_domain := None, t_link := None,
             t_cleanup_queued := False, t_proc := None, t_join_state := TD_JOIN_FREE\<rparr>) st;
          st = upd_co (callout_init (t_quantum_callout (sd_thread st t)) \<circ> callout_init (t_sleep_callout (sd_thread st t))) st
      in sched_dl_task_init t st)"

definition sched_task_enqueue :: "nat \<Rightarrow> nat \<Rightarrow> nat \<Rightarrow> 'z sched_scheme \<Rightarrow> 'z sched_scheme" where
  "sched_task_enqueue me t prio st =
     (let st = upd_thread t (\<lambda>td. td
            \<lparr>t_prio := prio, t_base_prio := prio, t_state := TD_STATE_READY,
             t_quantum := (if sched_default_quantum prio = 0 then 1 else sched_default_quantum prio)\<rparr>) st
      in sched_enqueue_ready me t st)"

text \<open>\<open>memory\<close> is the thread structure the allocator returns.\<close>

definition sched_create_impl_ex :: "nat option \<Rightarrow> nat \<Rightarrow> nat \<Rightarrow> nat option \<Rightarrow> 'z sched_scheme \<Rightarrow> unit result \<times> 'z sched_scheme" where
  "sched_create_impl_ex memory me prio affinity st =
     (case memory of
        None \<Rightarrow> (Inl ENOMEM, st)
      | Some t \<Rightarrow>
          let st = sched_task_alloc_init t st;
              st = upd_thread t (\<lambda>td. td\<lparr>t_affinity := affinity\<rparr>) st
          in (Inr (), sched_task_enqueue me t prio st))"

definition sched_task_finish :: "nat \<Rightarrow> nat \<Rightarrow> 'z sched_scheme \<Rightarrow> 'z sched_scheme" where
  "sched_task_finish me t st =
     (let st = sched_domain_detach me t st;
          st = upd_co (callout_cancel me (t_quantum_callout (sd_thread st t))) st;
          st = set_preempt_deadline me U64_MAX st
      in sched_set_task_state t TD_STATE_TERMINATING st)"

definition sched_stage_deferred_free :: "nat \<Rightarrow> nat \<Rightarrow> 'z sched_scheme \<Rightarrow> 'z sched_scheme" where
  "sched_stage_deferred_free t cpuid st =
     (if t_cleanup_queued (sd_thread st t) then st
      else upd_hart cpuid (\<lambda>h. h\<lparr>h_deferred_free := Some t\<rparr>) (upd_thread t (\<lambda>td. td\<lparr>t_cleanup_queued := True\<rparr>) st))"

definition sched_task_cancel_runtime :: "nat \<Rightarrow> nat \<Rightarrow> 'z sched_scheme \<Rightarrow> 'z sched_scheme" where
  "sched_task_cancel_runtime me t st =
     sched_dl_task_destroy me t (upd_co (callout_cancel me (t_quantum_callout (sd_thread st t)) \<circ>
       callout_cancel me (t_sleep_callout (sd_thread st t))) st)"

definition sched_task_finalize_free :: "nat \<Rightarrow> 'z sched_scheme \<Rightarrow> 'z sched_scheme" where
  "sched_task_finalize_free t st = st\<lparr>sd_freed := t # sd_freed st\<rparr>"

definition sched_destroy_dead_task :: "nat \<Rightarrow> nat \<Rightarrow> 'z sched_scheme \<Rightarrow> 'z sched_scheme" where
  "sched_destroy_dead_task me t st =
     (let st = sched_task_cancel_runtime me t st in
      if t_proc (sd_thread st t) \<noteq> None \<and> t_join_state (sd_thread st t) = TD_JOIN_JOINABLE
      then upd_thread t (\<lambda>td. td\<lparr>t_join_state := TD_JOIN_EXITED\<rparr>) (st\<lparr>sd_joinable := t # sd_joinable st\<rparr>)
      else let st = (if t_proc (sd_thread st t) \<noteq> None \<and> t_join_state (sd_thread st t) = TD_JOIN_DETACHED
                     then st\<lparr>sd_detached := t # sd_detached st\<rparr> else st)
        in sched_task_finalize_free t st)"

definition sched_reap_user_thread :: "nat \<Rightarrow> nat \<Rightarrow> 'z sched_scheme \<Rightarrow> 'z sched_scheme" where
  "sched_reap_user_thread me t st = sched_task_finalize_free t (sched_task_cancel_runtime me t st)"

section \<open>The switch\<close>

text \<open>Charging the outgoing thread's deadline budget and its domain.\<close>

definition sched_charge :: "nat \<Rightarrow> nat \<Rightarrow> 'z sched_scheme \<Rightarrow> 'z sched_scheme" where
  "sched_charge me old st =
     (let (ctxsw_start, st) = time_rdtime st;
          st = (if is_dl old st then sched_dl_charge me old (ctxsw_start - t_switch_in_ticks (sd_thread st old)) st else st)
      in case t_domain (sd_thread st old) of
          None \<Rightarrow> st
        | Some d \<Rightarrow>
            let budget_delta = ctxsw_start - t_switch_in_ticks (sd_thread st old);
                st = upd_domain d (\<lambda>dom. dom\<lparr>dom_consumed_ticks := dom_consumed_ticks dom + budget_delta\<rparr>) st;
                dom = sd_domain st d
            in if dom_state dom = DOMAIN_ACTIVE \<and> dom_consumed_ticks dom \<ge> dom_quantum_ticks dom
               then let st = upd_domain d (\<lambda>dom. dom\<lparr>dom_state := DOMAIN_DEPLETED\<rparr>) st
                 in if dom_criticality dom = SCHED_DOMAIN_CRIT_HI then sched_mc_check_escalation d st else st
               else st)"

text \<open>Putting the outgoing thread back on the run queue, if it is still runnable.\<close>

definition sched_switch_out :: "nat \<Rightarrow> nat \<Rightarrow> 'z sched_scheme \<Rightarrow> 'z sched_scheme" where
  "sched_switch_out me old st =
     (if t_state (sd_thread st old) = TD_STATE_YIELDING \<or> t_state (sd_thread st old) = TD_STATE_READY
      then let st = sched_set_task_state old TD_STATE_READY st
        in if domain_depleted old st then sched_set_task_state old TD_STATE_BLOCKED st else sched_enqueue_cpu_locked me old me st
      else st)"

definition sched_needs_free :: "nat \<Rightarrow> 'z sched_scheme \<Rightarrow> bool" where
  "sched_needs_free old st \<longleftrightarrow> t_state (sd_thread st old) = TD_STATE_TERMINATING \<and> \<not> t_cleanup_queued (sd_thread st old)"

text \<open>The part up to the choice of the next thread. \<open>release\<close> is what a terminating thread lets go of: its block hook, mutexes and resources.\<close>

definition sched_pick_phase ::
    "(nat \<Rightarrow> bool) \<Rightarrow> (nat \<Rightarrow> 'z sched_scheme \<Rightarrow> 'z sched_scheme) \<Rightarrow> nat \<Rightarrow> nat \<Rightarrow> 'z sched_scheme \<Rightarrow> nat option \<times> 'z sched_scheme" where
  "sched_pick_phase locks release me old st =
     (let st = sched_switch_out me old (sched_charge me old st);
          st = (if sched_needs_free old st then release old st else st)
      in sched_pick_next_local locks me st)"

text \<open>The time slice: only when another thread waits at the same priority.\<close>

definition sched_arm_quantum :: "nat \<Rightarrow> nat \<Rightarrow> 'z sched_scheme \<Rightarrow> 'z sched_scheme" where
  "sched_arm_quantum me t st =
     (let td = sd_thread st t;
          st = (if t_quantum td > 0 \<and> sd_bitmap st me AND push_bit (t_prio td) 1 \<noteq> 0
                then let qticks = time_ms_to_ticks st (t_quantum td * 10);
                         st = set_callout me (t_quantum_callout td) qticks QUANTUM_CALLOUT_CB t st;
                         (now, st) = time_rdtime st
                  in set_preempt_deadline me (sched_deadline_saturate now qticks) st
                else set_preempt_deadline me U64_MAX st)
      in upd_co (upd_pcpu me update_pcpu_deadline) st)"

text \<open>What other harts read about this one: whether it runs a real-time thread, and whether it is idle.\<close>

definition sched_publish :: "nat \<Rightarrow> nat \<Rightarrow> 'z sched_scheme \<Rightarrow> 'z sched_scheme" where
  "sched_publish me t st =
     (let td = sd_thread st t;
          rt = (t_policy td = SCHED_POLICY_DEADLINE \<or> t_prio td \<ge> SCHED_PRIO_REALTIME);
          idle = (t_prio td = SCHED_PRIO_IDLE);
          st = upd_hart me (\<lambda>h. h
            \<lparr>h_rt_active := rt,
             h_rt_deadline := (if t_policy td = SCHED_POLICY_DEADLINE then dl_abs_deadline (t_dl td) else U64_MAX),
             h_idle := idle\<rparr>) st
      in st\<lparr>sd_realtime_cpus := (if rt then sd_realtime_cpus st OR push_bit me 1 else sd_realtime_cpus st AND NOT (push_bit me 1)),
            sd_idle_cpus := (if idle then sd_idle_cpus st OR push_bit me 1 else sd_idle_cpus st AND NOT (push_bit me 1))\<rparr>)"

definition sched_free_deferred :: "nat \<Rightarrow> 'z sched_scheme \<Rightarrow> 'z sched_scheme" where
  "sched_free_deferred me st =
     (case h_deferred_free (sd_hart st me) of
        None \<Rightarrow> st
      | Some dead \<Rightarrow> sched_destroy_dead_task me dead (upd_hart me (\<lambda>h. h\<lparr>h_deferred_free := None\<rparr>) st))"

text \<open>The part after the run queue lock is released.\<close>

definition sched_commit_phase :: "nat \<Rightarrow> nat \<Rightarrow> bool \<Rightarrow> nat \<Rightarrow> 'z sched_scheme \<Rightarrow> 'z sched_scheme" where
  "sched_commit_phase me old old_needs_free t st =
     (let st = sched_free_deferred me st;
          (now_ticks, st) = time_rdtime st;
          st = sched_update_load_avg old (now_ticks - t_switch_in_ticks (sd_thread st old)) st;
          st = upd_thread t (\<lambda>td. td\<lparr>t_wakeup_ticks := 0, t_switch_in_ticks := now_ticks\<rparr>) st;
          st = sched_arm_quantum me t st;
          st = (if old_needs_free then sched_stage_deferred_free old me st else st);
          st = upd_hart me (\<lambda>h. h\<lparr>h_curthread := Some t\<rparr>) st;
          st = sched_set_task_state t TD_STATE_RUNNING st;
          st = upd_thread t (\<lambda>td. td\<lparr>t_last_cpu := Some me\<rparr>) st
      in sched_publish me t st)"

text \<open>\<open>None\<close> is the panic when nothing is runnable. Whether the outgoing thread is to be freed is decided before it is released.\<close>

definition sched_schedule ::
    "(nat \<Rightarrow> bool) \<Rightarrow> (nat \<Rightarrow> 'z sched_scheme \<Rightarrow> 'z sched_scheme) \<Rightarrow> nat \<Rightarrow> nat \<Rightarrow> 'z sched_scheme \<Rightarrow> (nat \<times> 'z sched_scheme) option" where
  "sched_schedule locks release me old st =
     (let needs_free = sched_needs_free old (sched_switch_out me old (sched_charge me old st))
      in case sched_pick_phase locks release me old st of
          (None, st) \<Rightarrow> None
        | (Some t, st) \<Rightarrow> Some (t, sched_commit_phase me old needs_free t st))"

section \<open>The decision at the end of a trap\<close>

definition schedule_decision ::
    "(nat \<Rightarrow> bool) \<Rightarrow> (nat \<Rightarrow> 'z sched_scheme \<Rightarrow> 'z sched_scheme) \<Rightarrow> nat \<Rightarrow> 'z sched_scheme \<Rightarrow> 'z sched_scheme option" where
  "schedule_decision locks release me st =
     (let resched = need_resched (pcpu_array (sd_co st) me);
          st = upd_co (upd_pcpu me (\<lambda>pc. pc\<lparr>need_resched := False\<rparr>)) st
      in case h_curthread (sd_hart st me) of
          None \<Rightarrow> Some st
        | Some td \<Rightarrow>
            let st = (if t_state (sd_thread st td) = TD_STATE_RUNNING \<and> resched then sched_set_task_state td TD_STATE_READY st else st)
            in if t_state (sd_thread st td) = TD_STATE_RUNNING then Some st
               else map_option snd (sched_schedule locks release me td st))"

section \<open>Start-up\<close>

text \<open>The main thread and the idle threads; \<open>td\<close> gives the addresses of a thread's callouts.\<close>

definition sched_init_idle :: "nat \<Rightarrow> nat \<Rightarrow> nat \<Rightarrow> 'z sched_scheme \<Rightarrow> 'z sched_scheme" where
  "sched_init_idle t cpuid prio st =
     (let td = sd_thread st t;
          st = upd_thread t (\<lambda>td.
            \<lparr>t_state = TD_STATE_READY, t_prio = prio, t_base_prio = prio, t_quantum = sched_default_quantum prio,
             t_affinity = Some cpuid, t_last_cpu = Some cpuid, t_switch_in_ticks = 0, t_wakeup_ticks = 0, t_load_avg = 0,
             t_domain = None, t_link = None, t_sleep_callout = t_sleep_callout td, t_quantum_callout = t_quantum_callout td,
             t_policy = SCHED_POLICY_NORMAL,
             t_dl = \<lparr>dl_runtime = 0, dl_deadline = 0, dl_period = 0, dl_abs_deadline = 0, dl_remaining = 0, dl_throttled = False,
                     dl_active = False, dl_replenish_callout = dl_replenish_callout (t_dl td)\<rparr>,
             t_cleanup_queued = False, t_proc = None, t_join_state = TD_JOIN_FREE\<rparr>) st
      in upd_co (callout_init (t_quantum_callout td) \<circ> callout_init (t_sleep_callout td)) st)"

definition sched_init :: "nat \<Rightarrow> nat \<Rightarrow> 'z sched_scheme \<Rightarrow> 'z sched_scheme" where
  "sched_init main idle st =
     (let td = sd_thread st main;
          (now, st) = time_rdtime st;
          st = upd_thread main (\<lambda>td.
            \<lparr>t_state = TD_STATE_RUNNING, t_prio = SCHED_PRIO_IDLE, t_base_prio = SCHED_PRIO_IDLE,
             t_quantum = sched_default_quantum SCHED_PRIO_IDLE,
             t_affinity = Some 0, t_last_cpu = Some 0, t_switch_in_ticks = now, t_wakeup_ticks = 0, t_load_avg = 0,
             t_domain = None, t_link = None, t_sleep_callout = t_sleep_callout td, t_quantum_callout = t_quantum_callout td,
             t_policy = SCHED_POLICY_NORMAL,
             t_dl = \<lparr>dl_runtime = 0, dl_deadline = 0, dl_period = 0, dl_abs_deadline = 0, dl_remaining = 0, dl_throttled = False,
                     dl_active = False, dl_replenish_callout = dl_replenish_callout (t_dl td)\<rparr>,
             t_cleanup_queued = False, t_proc = None, t_join_state = TD_JOIN_FREE\<rparr>) st;
          st = upd_co (callout_init (t_quantum_callout td) \<circ> callout_init (t_sleep_callout td)) st;
          st = upd_hart 0 (\<lambda>h. h\<lparr>h_curthread := Some main\<rparr>) st;
          st = st\<lparr>sd_queue := (\<lambda>q. case q of
                 SleepQ \<Rightarrow> []
               | RunQ c p \<Rightarrow> if c < MAX_CPUS \<and> p < CONFIG_SCHED_NPRIO then [] else sd_queue st q
               | DlQ c \<Rightarrow> sd_queue st q),
               sd_bitmap := (\<lambda>c. if c < MAX_CPUS then 0 else sd_bitmap st c)\<rparr>;
          st = sched_dl_init st;
          st = sched_init_idle idle 0 SCHED_PRIO_IDLE st
      in sched_enqueue_cpu_locked 0 idle 0 st)"

definition sched_enter_secondary :: "nat \<Rightarrow> nat \<Rightarrow> 'z sched_scheme \<Rightarrow> 'z sched_scheme" where
  "sched_enter_secondary me idle st =
     (let st = sched_init_idle idle me SCHED_PRIO_IDLE st;
          st = sched_set_task_state idle TD_STATE_RUNNING st;
          st = upd_hart me (\<lambda>h. h\<lparr>h_curthread := Some idle\<rparr>) st;
          (now, st) = time_rdtime st;
          st = upd_thread idle (\<lambda>td. td\<lparr>t_switch_in_ticks := now\<rparr>) st;
          st = upd_hart me (\<lambda>h. h\<lparr>h_idle := True\<rparr>) st
      in st\<lparr>sd_idle_cpus := sd_idle_cpus st OR push_bit me 1\<rparr>)"

section \<open>The checks of a debug build\<close>

text \<open>Whether all assertions of \<^verbatim>\<open>sched_check_invariants\<close> hold.\<close>

definition expected_bitmap :: "nat \<Rightarrow> 'z sched_scheme \<Rightarrow> u32" where
  "expected_bitmap cpuid st =
     fold (\<lambda>p bm. if sd_queue st (RunQ cpuid p) \<noteq> [] then bm OR push_bit p 1 else bm) [0..<CONFIG_SCHED_NPRIO] 0"

definition sched_check_invariants :: "nat \<Rightarrow> nat \<Rightarrow> 'z sched_scheme \<Rightarrow> bool" where
  "sched_check_invariants t cpuid st \<longleftrightarrow>
     t_state (sd_thread st t) = TD_STATE_RUNNING \<and>
     list_all (\<lambda>i. i = cpuid \<or> \<not> h_online (sd_hart st i) \<or> h_curthread (sd_hart st i) \<noteq> Some t) [0..<MAX_CPUS] \<and>
     list_all (\<lambda>p. list_all (\<lambda>t. t_state (sd_thread st t) = TD_STATE_READY) (sd_queue st (RunQ cpuid p))) [0..<CONFIG_SCHED_NPRIO] \<and>
     sd_bitmap st cpuid = expected_bitmap cpuid st"

section \<open>The state at boot\<close>

text \<open>A concrete state before \<^verbatim>\<open>sched_init\<close>, with two harts.\<close>

definition boot_thread :: "nat \<Rightarrow> thread" where
  "boot_thread t =
     \<lparr>t_state = TD_STATE_TERMINATING, t_prio = 0, t_base_prio = 0, t_quantum = 0, t_affinity = None, t_last_cpu = None,
      t_switch_in_ticks = 0, t_wakeup_ticks = 0, t_load_avg = 0, t_domain = None, t_link = None, t_sleep_callout = 3 * t,
      t_quantum_callout = 3 * t + 1, t_policy = SCHED_POLICY_NORMAL,
      t_dl = \<lparr>dl_runtime = 0, dl_deadline = 0, dl_period = 0, dl_abs_deadline = 0, dl_remaining = 0, dl_throttled = False,
              dl_active = False, dl_replenish_callout = 3 * t + 2\<rparr>,
      t_cleanup_queued = False, t_proc = None, t_join_state = TD_JOIN_FREE\<rparr>"

definition boot_state :: sched where
  "boot_state =
     \<lparr>sd_thread = boot_thread,
      sd_hart = (\<lambda>c. \<lparr>h_curthread = None, h_online = c < 2, h_idle = False, h_rt_active = False, h_rt_deadline = 0,
                     h_deferred_free = None, h_load = 0\<rparr>),
      sd_queue = (\<lambda>_. []), sd_bitmap = (\<lambda>_. 0), sd_dl_count = (\<lambda>_. 0), sd_dl_total_util = 0, sd_dl_nr_admitted = 0,
      sd_dl_misses = 0, sd_dl_throttles = 0, sd_dl_replenishments = 0,
      sd_domain = (\<lambda>_. \<lparr>dom_quantum_ticks = 0, dom_period_ticks = 0, dom_consumed_ticks = 0, dom_next_refill = 0,
                       dom_state = DOMAIN_ACTIVE, dom_refill_callout = 0, dom_members = [], dom_criticality = SCHED_DOMAIN_CRIT_LO,
                       dom_mc_state = MC_NORMAL, dom_mc_peer = None\<rparr>),
      sd_idle_cpus = 0, sd_realtime_cpus = 0, sd_co = idle_callouts, sd_from_ms = \<lparr>ff_mul = 0, ff_shift = 0\<rparr>,
      sd_from_us = \<lparr>ff_mul = 10, ff_shift = 0\<rparr>, sd_clock = (\<lambda>_. 0), sd_joinable = [], sd_detached = [], sd_freed = []\<rparr>"

end
