(* ===== verification/Sched_View.thy ===== *)
theory Sched_View
  imports Sched_Core
begin

text \<open>
  What the queues look like, apart from everything else: state, link and priority of the threads, the lists, the bitmaps, the
  counts of deadline threads and the current thread of each hart. Each operation of the scheduler acts on this view by setting a state and by putting a thread on a list or
  taking it off; the rest of its work leaves the view alone.
\<close>

section \<open>The view\<close>

record core =
  k_state :: "nat \<Rightarrow> td_state"
  k_link :: "nat \<Rightarrow> queue option"
  k_prio :: "nat \<Rightarrow> nat"
  k_queue :: "queue \<Rightarrow> nat list"
  k_bitmap :: "nat \<Rightarrow> u32"
  k_count :: "nat \<Rightarrow> u32"
  k_cur :: "nat \<Rightarrow> nat option"

definition core_of :: "'z sched_scheme \<Rightarrow> core" where
  "core_of st =
     \<lparr>k_state = (\<lambda>t. t_state (sd_thread st t)), k_link = (\<lambda>t. t_link (sd_thread st t)), k_prio = (\<lambda>t. t_prio (sd_thread st t)),
      k_queue = sd_queue st, k_bitmap = sd_bitmap st, k_count = sd_dl_count st,
      k_cur = (\<lambda>c. h_curthread (sd_hart st c))\<rparr>"

lemma core_of_simps [simp]:
  "k_state (core_of st) t = t_state (sd_thread st t)" "k_link (core_of st) t = t_link (sd_thread st t)"
  "k_prio (core_of st) t = t_prio (sd_thread st t)" "k_queue (core_of st) = sd_queue st"
  "k_bitmap (core_of st) = sd_bitmap st" "k_count (core_of st) = sd_dl_count st"
  "k_cur (core_of st) c = h_curthread (sd_hart st c)"
  by (simp_all add: core_of_def)

definition k_set :: "nat \<Rightarrow> td_state \<Rightarrow> core \<Rightarrow> core" where
  "k_set t s k = k\<lparr>k_state := (k_state k)(t := s)\<rparr>"

definition k_add :: "queue \<Rightarrow> nat \<Rightarrow> core \<Rightarrow> core" where
  "k_add q t k =
     k\<lparr>k_link := (k_link k)(t := Some q), k_queue := (k_queue k)(q := k_queue k q @ [t]),
       k_bitmap := (case q of RunQ c p \<Rightarrow> (k_bitmap k)(c := k_bitmap k c OR push_bit p 1) | _ \<Rightarrow> k_bitmap k),
       k_count := (case q of DlQ c \<Rightarrow> (k_count k)(c := k_count k c + 1) | _ \<Rightarrow> k_count k)\<rparr>"

definition k_del :: "nat \<Rightarrow> core \<Rightarrow> core" where
  "k_del t k =
     (case k_link k t of
        None \<Rightarrow> k
      | Some q \<Rightarrow>
          k\<lparr>k_link := (k_link k)(t := None), k_queue := (k_queue k)(q := remove1 t (k_queue k q)),
            k_bitmap := (case q of
                RunQ c p \<Rightarrow> if remove1 t (k_queue k q) = [] then (k_bitmap k)(c := k_bitmap k c AND NOT (push_bit p 1)) else k_bitmap k
              | _ \<Rightarrow> k_bitmap k),
            k_count := (case q of DlQ c \<Rightarrow> (k_count k)(c := k_count k c - 1) | _ \<Rightarrow> k_count k)\<rparr>)"

section \<open>Work that leaves the view alone\<close>

named_theorems core \<open>the view after an operation\<close>

lemma core_upd_thread [core]:
  "(\<And>td. t_state (f td) = t_state td \<and> t_link (f td) = t_link td \<and> t_prio (f td) = t_prio td) \<Longrightarrow> core_of (upd_thread t f st) = core_of st"
  by (simp add: core_of_def upd_thread_def fun_eq_iff)

lemma core_upd_hart [core]: "(\<And>h. h_curthread (f h) = h_curthread h) \<Longrightarrow> core_of (upd_hart c f st) = core_of st"
  by (simp add: core_of_def upd_hart_def fun_eq_iff)

lemma core_others [core]:
  "core_of (upd_domain d g st) = core_of st" "core_of (upd_co w st) = core_of st"
  "core_of (set_need_resched c st) = core_of st" "core_of (set_preempt_deadline c x st) = core_of st"
  "core_of (set_callout me c ticks func arg st) = core_of st" "core_of (snd (time_rdtime st)) = core_of st"
  "core_of (st\<lparr>sd_clock := ck\<rparr>) = core_of st" "core_of (st\<lparr>sd_dl_total_util := u\<rparr>) = core_of st"
  "core_of (st\<lparr>sd_dl_nr_admitted := n\<rparr>) = core_of st" "core_of (st\<lparr>sd_dl_misses := u\<rparr>) = core_of st"
  "core_of (st\<lparr>sd_dl_throttles := u\<rparr>) = core_of st" "core_of (st\<lparr>sd_dl_replenishments := u\<rparr>) = core_of st"
  "core_of (st\<lparr>sd_realtime_cpus := u\<rparr>) = core_of st" "core_of (st\<lparr>sd_idle_cpus := u\<rparr>) = core_of st"
  "core_of (st\<lparr>sd_joinable := ts\<rparr>) = core_of st" "core_of (st\<lparr>sd_detached := ts\<rparr>) = core_of st" "core_of (st\<lparr>sd_freed := ts\<rparr>) = core_of st"
  by (simp_all add: core_of_def upd_domain_def upd_co_def set_need_resched_def set_preempt_deadline_def set_callout_def
      time_rdtime_def)

lemma core_set [core]: "core_of (sched_set_task_state t s st) = k_set t s (core_of st)"
  by (simp add: core_of_def sched_set_task_state_def upd_thread_def k_set_def fun_eq_iff)

lemma core_helpers [core]:
  "core_of (sched_update_load_avg t delta st) = core_of st" "core_of (sched_decay_sleeping_load t st) = core_of st"
  "core_of (sched_note_wakeup t st) = core_of st" "core_of (tick_restart me c cur prio st) = core_of st"
  "core_of (remote_kick me t c st) = core_of st" "core_of (dl_deadline_missed t st) = core_of st"
  by (simp_all add: sched_update_load_avg_def sched_decay_sleeping_load_def sched_note_wakeup_def tick_restart_def remote_kick_def
      dl_deadline_missed_def time_rdtime_def Let_def core)

section \<open>Enqueueing\<close>

lemma core_dlq_add:
  "core_of ((list_add_tail (DlQ c) t st)\<lparr>sd_dl_count := (sd_dl_count (list_add_tail (DlQ c) t st))(c := sd_dl_count (list_add_tail (DlQ c) t st) c + 1)\<rparr>) =
     k_add (DlQ c) t (core_of st)"
  by (simp add: core_of_def list_add_tail_def upd_thread_def k_add_def fun_eq_iff)

lemma core_dl_enqueue [core]:
  "core_of (sched_dl_enqueue me t c st) =
     (if t_link (sd_thread st t) \<noteq> None then core_of st else k_add (DlQ c) t (k_set t TD_STATE_READY (core_of st)))"
  by (simp add: sched_dl_enqueue_def Let_def core core_dlq_add split: option.split)

lemma core_runq_add:
  "core_of (bitmap_set c p (list_add_tail (RunQ c p) t st)) = k_add (RunQ c p) t (core_of st)"
  by (simp add: core_of_def list_add_tail_def bitmap_set_def upd_thread_def k_add_def fun_eq_iff)

definition k_enqueue :: "bool \<Rightarrow> bool \<Rightarrow> nat \<Rightarrow> nat \<Rightarrow> core \<Rightarrow> core" where
  "k_enqueue deadline depleted c t k =
     (if k_link k t \<noteq> None then k
      else if deadline then k_add (DlQ c) t (k_set t TD_STATE_READY k)
      else if depleted then k_set t TD_STATE_BLOCKED k
      else k_add (RunQ c (k_prio k t)) t (k_set t TD_STATE_READY k))"

lemma core_enqueue [core]:
  "core_of (sched_enqueue_cpu_locked me t c st) = k_enqueue (is_dl t st) (domain_depleted t st) c t (core_of st)"
  by (simp add: sched_enqueue_cpu_locked_def k_enqueue_def Let_def core core_runq_add split: option.split)

lemma decay_thread:
  "t_affinity (sd_thread (sched_decay_sleeping_load t st) u) = t_affinity (sd_thread st u)"
  "t_last_cpu (sd_thread (sched_decay_sleeping_load t st) u) = t_last_cpu (sd_thread st u)"
  "t_domain (sd_thread (sched_decay_sleeping_load t st) u) = t_domain (sd_thread st u)"
  "t_policy (sd_thread (sched_decay_sleeping_load t st) u) = t_policy (sd_thread st u)"
  "t_dl (sd_thread (sched_decay_sleeping_load t st) u) = t_dl (sd_thread st u)"
  "sd_hart (sched_decay_sleeping_load t st) = sd_hart st" "sd_domain (sched_decay_sleeping_load t st) = sd_domain st"
  by (simp_all add: sched_decay_sleeping_load_def time_rdtime_def upd_thread_def Let_def)

lemma core_enqueue_ready [core]:
  "core_of (sched_enqueue_ready me t st) = k_enqueue (is_dl t st) (domain_depleted t st) (sched_select_cpu me t st) t (core_of st)"
  by (simp add: sched_enqueue_ready_def Let_def core is_dl_def domain_depleted_def sched_select_cpu_def decay_thread cong: option.case_cong)

section \<open>Taking threads off lists\<close>

lemma core_sleepq_del: "t_link (sd_thread st t) = Some SleepQ \<Longrightarrow> core_of (list_del_init t st) = k_del t (core_of st)"
  by (simp add: core_of_def list_del_init_def upd_thread_def k_del_def fun_eq_iff)

lemma core_runq_del:
  "t_link (sd_thread st t) = Some (RunQ c p) \<Longrightarrow>
     core_of (if sd_queue (list_del_init t st) (RunQ c p) = [] then bitmap_clear c p (list_del_init t st) else list_del_init t st) =
       k_del t (core_of st)"
  by (simp add: core_of_def list_del_init_def bitmap_clear_def upd_thread_def k_del_def fun_eq_iff)

lemma list_del_prio [simp]: "t_prio (sd_thread (list_del_init t st) u) = t_prio (sd_thread st u)"
  by (simp add: list_del_init_def upd_thread_def split: option.split)

lemma core_dequeue:
  "t_link (sd_thread st t) = Some (RunQ c (t_prio (sd_thread st t))) \<Longrightarrow> core_of (sched_dequeue_task_locked t c st) = k_del t (core_of st)"
  using core_runq_del [of st t c "t_prio (sd_thread st t)"] by (simp add: sched_dequeue_task_locked_def Let_def split: if_splits)

lemma dl_best_in: "dl_best dl best ts = Some b \<Longrightarrow> b \<in> set ts \<or> best = Some b"
  by (induction dl best ts rule: dl_best.induct) (auto split: if_splits option.splits)

lemma core_dlq_del:
  "t_link (sd_thread st t) = Some (DlQ c) \<Longrightarrow>
     core_of ((list_del_init t st)\<lparr>sd_dl_count := (sd_dl_count (list_del_init t st))(c := sd_dl_count (list_del_init t st) c - 1)\<rparr>) =
       k_del t (core_of st)"
  by (simp add: core_of_def list_del_init_def upd_thread_def k_del_def fun_eq_iff)

section \<open>The rest of the switch\<close>

lemma core_mc [core]:
  "core_of (sched_mc_check_escalation d st) = core_of st" "core_of (sched_mc_check_recovery d st) = core_of st"
  "core_of (domain_remove_member d t st) = core_of st"
  by (simp_all add: sched_mc_check_escalation_def sched_mc_check_recovery_def domain_remove_member_def Let_def core split: option.split)

lemma core_dl_ops [core]:
  "core_of (sched_dl_clearattr me t st) = core_of st" "core_of (sched_dl_task_destroy me t st) = core_of st"
  "core_of (snd (sched_dl_setattr t runtime deadline period st)) = core_of st"
  by (simp_all add: sched_dl_clearattr_def sched_dl_task_destroy_def sched_dl_setattr_def time_rdtime_def Let_def core)

lemma sd_thread_upd: "sd_thread (upd_thread t f st) = (sd_thread st)(t := f (sd_thread st t))"
  by (simp add: upd_thread_def)

lemma core_dl_charge: "t_state (sd_thread st t) \<noteq> TD_STATE_RUNNING \<Longrightarrow> core_of (sched_dl_charge me t delta st) = core_of st"
  by (simp add: sched_dl_charge_def time_rdtime_def Let_def core sd_thread_upd dl_deadline_missed_def)

lemma core_charge: "t_state (sd_thread st t) \<noteq> TD_STATE_RUNNING \<Longrightarrow> core_of (sched_charge me t st) = core_of st"
  by (simp add: sched_charge_def time_rdtime_def Let_def core core_dl_charge split: option.split)

lemma core_destroy [core]:
  "core_of (sched_task_cancel_runtime me t st) = core_of st" "core_of (sched_destroy_dead_task me t st) = core_of st"
  "core_of (sched_free_deferred me st) = core_of st" "core_of (sched_stage_deferred_free t c st) = core_of st"
  by (simp_all add: sched_task_cancel_runtime_def sched_destroy_dead_task_def sched_task_finalize_free_def sched_free_deferred_def
      sched_stage_deferred_free_def Let_def core split: option.split)

lemma core_arm_publish [core]:
  "core_of (sched_arm_quantum me t st) = core_of st" "core_of (sched_publish me t st) = core_of st"
  by (simp_all add: sched_arm_quantum_def sched_publish_def time_rdtime_def Let_def core)

lemma core_cur [core]: "core_of (upd_hart c (\<lambda>h. h\<lparr>h_curthread := x\<rparr>) st) = (core_of st)\<lparr>k_cur := (k_cur (core_of st))(c := x)\<rparr>"
  by (simp add: core_of_def upd_hart_def fun_eq_iff)

lemma core_commit:
  "core_of (sched_commit_phase me old nf t st) = (k_set t TD_STATE_RUNNING (core_of st))\<lparr>k_cur := (k_cur (core_of st))(me := Some t)\<rparr>"
  by (simp add: sched_commit_phase_def time_rdtime_def Let_def core) (simp add: k_set_def)

end
