(* ===== verification/Sched_Inv.thy ===== *)
theory Sched_Inv
  imports Sched_View
begin

text \<open>
  The invariant of the scheduler's queues, and that setting a state, putting a thread on a list, taking it off and switching a hart
  to it keep it. \<open>on c\<close> is the thread hart \<open>c\<close> executes or has chosen to execute. Between two of these steps a thread may be
  in transit: neither on a list nor on a hart while it is ready; \<open>E\<close> holds the threads in transit.
\<close>

definition lists_ok :: "core \<Rightarrow> bool" where
  "lists_ok k \<longleftrightarrow> (\<forall>q. distinct (k_queue k q) \<and> (\<forall>t. t \<in> set (k_queue k q) \<longleftrightarrow> k_link k t = Some q))"

definition bitmap_ok :: "core \<Rightarrow> bool" where
  "bitmap_ok k \<longleftrightarrow> (\<forall>c p. bit (k_bitmap k c) p \<longleftrightarrow> k_queue k (RunQ c p) \<noteq> []) \<and> (\<forall>c. k_count k c = of_nat (length (k_queue k (DlQ c))))"

text \<open>The state a thread has on a list.\<close>

definition fits :: "queue \<Rightarrow> nat \<Rightarrow> core \<Rightarrow> bool" where
  "fits q t k \<longleftrightarrow> (case q of
       RunQ c p \<Rightarrow> k_state k t = TD_STATE_READY \<and> k_prio k t = p
     | DlQ c \<Rightarrow> k_state k t = TD_STATE_READY
     | SleepQ \<Rightarrow> k_state k t = TD_STATE_SLEEPING)"

definition linked_ok :: "core \<Rightarrow> bool" where
  "linked_ok k \<longleftrightarrow> (\<forall>t q. k_link k t = Some q \<longrightarrow> fits q t k) \<and> (\<forall>t. k_prio k t < CONFIG_SCHED_NPRIO)"

definition harts_ok :: "(nat \<Rightarrow> nat option) \<Rightarrow> core \<Rightarrow> bool" where
  "harts_ok on k \<longleftrightarrow> (\<forall>c c' t. on c = Some t \<and> on c' = Some t \<longrightarrow> c = c') \<and>
     (\<forall>c t. on c = Some t \<longrightarrow> k_link k t = None \<or> k_link k t = Some SleepQ)"

definition settled :: "(nat \<Rightarrow> nat option) \<Rightarrow> core \<Rightarrow> nat \<Rightarrow> bool" where
  "settled on k t \<longleftrightarrow>
     (k_state k t = TD_STATE_READY \<longrightarrow> k_link k t \<noteq> None \<or> Some t \<in> range on) \<and>
     (k_state k t \<in> {TD_STATE_RUNNING, TD_STATE_YIELDING} \<longrightarrow> Some t \<in> range on) \<and>
     (k_state k t = TD_STATE_SLEEPING \<longrightarrow> k_link k t = Some SleepQ)"

definition sched_ok :: "nat set \<Rightarrow> (nat \<Rightarrow> nat option) \<Rightarrow> core \<Rightarrow> bool" where
  "sched_ok E on k \<longleftrightarrow> lists_ok k \<and> bitmap_ok k \<and> linked_ok k \<and> harts_ok on k \<and> (\<forall>t. t \<notin> E \<longrightarrow> settled on k t)"

lemma fits_cong: "k_state k t = k_state k' t \<Longrightarrow> k_prio k t = k_prio k' t \<Longrightarrow> fits q t k = fits q t k'"
  by (simp add: fits_def cong: queue.case_cong)

section \<open>Lists\<close>

lemma lists_add: "lists_ok k \<Longrightarrow> k_link k t = None \<Longrightarrow> lists_ok (k_add q t k)"
  by (auto simp: lists_ok_def k_add_def)

lemma lists_del: "lists_ok k \<Longrightarrow> lists_ok (k_del t k)"
  by (auto simp: lists_ok_def k_del_def split: option.split)

lemma bit_or_push: "p < 32 \<Longrightarrow> bit ((w :: u32) OR push_bit p 1) i \<longleftrightarrow> bit w i \<or> i = p"
  by (auto simp: bit_simps)

lemma bit_and_not_push: "bit ((w :: u32) AND NOT (push_bit p 1)) i \<longleftrightarrow> bit w i \<and> i \<noteq> p"
  by (auto simp: bit_simps dest: bit_imp_le_length)

lemma bitmap_add:
  assumes "bitmap_ok k" "\<And>c p. q = RunQ c p \<Longrightarrow> p < 32"
  shows "bitmap_ok (k_add q t k)"
  using assms by (cases q) (auto simp: bitmap_ok_def k_add_def bit_or_push simp del: push_bit_of_1)

lemma bitmap_del:
  assumes "bitmap_ok k" "lists_ok k"
  shows "bitmap_ok (k_del t k)"
proof (cases "k_link k t")
  case (Some q)
  then have t: "t \<in> set (k_queue k q)" using assms(2) by (auto simp: lists_ok_def)
  then have "k_queue k q \<noteq> []" by auto
  moreover have "length (k_queue k q) = Suc (length (remove1 t (k_queue k q)))"
    using t \<open>k_queue k q \<noteq> []\<close> by (simp add: length_remove1)
  then have "of_nat (length (k_queue k q)) - 1 = (of_nat (length (remove1 t (k_queue k q))) :: u32)" by simp
  ultimately show ?thesis using assms(1) Some
    by (cases q) (auto simp: bitmap_ok_def k_del_def bit_and_not_push simp del: push_bit_of_1)
qed (use assms in \<open>simp add: k_del_def\<close>)

lemma k_add_fields [simp]:
  "k_state (k_add q t k) = k_state k" "k_prio (k_add q t k) = k_prio k" "k_link (k_add q t k) = (k_link k)(t := Some q)"
  by (simp_all add: k_add_def)

lemma k_del_fields [simp]:
  "k_state (k_del t k) = k_state k" "k_prio (k_del t k) = k_prio k" "k_link (k_del t k) = (k_link k)(t := None)"
  by (auto simp: k_del_def split: option.split)

lemma k_set_fields [simp]:
  "k_state (k_set t s k) = (k_state k)(t := s)" "k_prio (k_set t s k) = k_prio k" "k_link (k_set t s k) = k_link k"
  "k_queue (k_set t s k) = k_queue k" "k_bitmap (k_set t s k) = k_bitmap k" "k_count (k_set t s k) = k_count k"
  by (simp_all add: k_set_def)

section \<open>Steps\<close>

lemma on_range: "on c = Some t \<Longrightarrow> Some t \<in> range on"
  by (metis rangeI)

lemma ok_mono: "sched_ok E on k \<Longrightarrow> E \<subseteq> E' \<Longrightarrow> sched_ok E' on k"
  by (auto simp: sched_ok_def)

lemma ok_settle: "sched_ok (insert t E) on k \<Longrightarrow> settled on k t \<Longrightarrow> sched_ok E on k"
  by (auto simp: sched_ok_def)

lemma ok_set:
  assumes ok: "sched_ok E on k" and free: "k_link k t = None"
  shows "sched_ok (insert t E) on (k_set t s k)"
proof -
  have "fits q u (k_set t s k)" if "k_link k u = Some q" for u q
    using ok free that fits_cong [of k u "k_set t s k" q] by (cases "u = t") (auto simp: sched_ok_def linked_ok_def)
  then have "linked_ok (k_set t s k)" using ok by (simp add: sched_ok_def linked_ok_def)
  moreover have "lists_ok (k_set t s k)" "bitmap_ok (k_set t s k)" "harts_ok on (k_set t s k)"
    using ok by (simp_all add: sched_ok_def lists_ok_def bitmap_ok_def harts_ok_def)
  moreover have "settled on (k_set t s k) u" if "u \<notin> insert t E" for u
    using ok that by (simp add: sched_ok_def settled_def)
  ultimately show ?thesis by (simp add: sched_ok_def)
qed

lemma ok_add:
  assumes ok: "sched_ok E on k" and free: "k_link k t = None" and fits: "fits q t k"
    and off: "Some t \<in> range on \<Longrightarrow> q = SleepQ"
  shows "sched_ok (E - {t}) on (k_add q t k)"
proof -
  have "k_prio k t < 4" using ok by (simp add: sched_ok_def linked_ok_def)
  then have "bitmap_ok (k_add q t k)" using ok fits by (auto intro!: bitmap_add simp: sched_ok_def fits_def)
  moreover have "lists_ok (k_add q t k)" using ok free by (auto intro: lists_add simp: sched_ok_def)
  moreover have "linked_ok (k_add q t k)"
    using ok fits fits_cong [of "k_add q t k" _ k] by (auto simp: sched_ok_def linked_ok_def)
  moreover have "q = SleepQ" if "on c = Some t" for c using off that on_range [of on c t] by simp
  then have "harts_ok on (k_add q t k)" using ok by (auto simp: sched_ok_def harts_ok_def)
  moreover have "settled on (k_add q t k) u" if "u \<notin> E - {t}" for u
    using ok fits that by (cases "u = t"; cases q) (auto simp: sched_ok_def settled_def fits_def)
  ultimately show ?thesis by (auto simp: sched_ok_def)
qed

lemma ok_del:
  assumes "sched_ok E on k"
  shows "sched_ok (insert t E) on (k_del t k)"
proof -
  have "bitmap_ok (k_del t k)" "lists_ok (k_del t k)" using assms by (auto intro: bitmap_del lists_del simp: sched_ok_def)
  moreover have "linked_ok (k_del t k)" using assms fits_cong [of "k_del t k" _ k] by (auto simp: sched_ok_def linked_ok_def)
  moreover have "harts_ok on (k_del t k)" using assms by (auto simp: sched_ok_def harts_ok_def)
  ultimately show ?thesis using assms by (auto simp: sched_ok_def settled_def)
qed

text \<open>A hart leaves its thread, and takes up another one.\<close>

lemma ok_leave:
  assumes ok: "sched_ok E on k" and old: "on c = Some old"
  shows "sched_ok (insert old E) (on(c := None)) k \<and> Some old \<notin> range (on(c := None))"
proof -
  have "harts_ok (on(c := None)) k" using ok unfolding sched_ok_def harts_ok_def by (auto split: if_splits)
  moreover have "settled (on(c := None)) k u" if "u \<notin> insert old E" for u
  proof -
    have "settled on k u" using ok that by (auto simp: sched_ok_def)
    moreover have "Some u \<in> range (on(c := None))" if "Some u \<in> range on"
    proof -
      from that obtain c' where "Some u = on c'" by (rule rangeE)
      then have "on c' = Some u" by simp
      moreover have "c' \<noteq> c" using calculation old \<open>u \<notin> insert old E\<close> by auto
      ultimately show ?thesis using on_range [of "on(c := None)" c' u] by simp
    qed
    ultimately show ?thesis by (auto simp: settled_def)
  qed
  moreover have "on c' = Some old \<Longrightarrow> c' = c" for c' using ok old by (auto simp: sched_ok_def harts_ok_def)
  then have "Some old \<notin> range (on(c := None))" by (auto split: if_splits)
  ultimately show ?thesis using ok by (auto simp: sched_ok_def)
qed

lemma ok_enter:
  assumes ok: "sched_ok (insert t E) on k" and free: "on c = None" "k_link k t = None" and off: "Some t \<notin> range on"
    and state: "k_state k t \<noteq> TD_STATE_SLEEPING"
  shows "sched_ok E (on(c := Some t)) k"
proof -
  have "on c' \<noteq> Some t" for c' using off on_range [of on c' t] by auto
  then have "harts_ok (on(c := Some t)) k" using ok free(2) unfolding sched_ok_def harts_ok_def by (auto split: if_splits)
  moreover have "settled (on(c := Some t)) k u" if "u \<notin> E" for u
  proof (cases "u = t")
    case True
    then show ?thesis using state on_range [of "on(c := Some t)" c t] by (simp add: settled_def)
  next
    case False
    then have "settled on k u" using ok that by (simp add: sched_ok_def)
    moreover have "Some u \<in> range (on(c := Some t))" if "Some u \<in> range on"
    proof -
      from that obtain c' where "Some u = on c'" by (rule rangeE)
      then have "on c' = Some u" by simp
      moreover have "c' \<noteq> c" using calculation free(1) by auto
      ultimately show ?thesis using on_range [of "on(c := Some t)" c' u] by simp
    qed
    ultimately show ?thesis by (auto simp: settled_def)
  qed
  ultimately show ?thesis using ok by (simp add: sched_ok_def)
qed

text \<open>Enqueueing a ready thread that is on no hart, or one that leaves its hart.\<close>

lemma ok_enqueue:
  assumes ok: "sched_ok (insert t E) on k" and off: "Some t \<notin> range on" and state: "k_state k t = TD_STATE_READY"
  shows "sched_ok E on (k_enqueue deadline depleted c t k)"
proof (cases "k_link k t")
  case None
  have ready: "sched_ok (insert t E) on (k_set t s k)" for s using ok_set [OF ok None, of s] by simp
  have "sched_ok E on (k_add q t (k_set t TD_STATE_READY k))" if "fits q t (k_set t TD_STATE_READY k)" for q
  proof -
    have "sched_ok (insert t E - {t}) on (k_add q t (k_set t TD_STATE_READY k))"
      by (rule ok_add [OF ready]) (use None off that in simp_all)
    then show ?thesis by (rule ok_mono) auto
  qed
  moreover have "sched_ok E on (k_set t TD_STATE_BLOCKED k)"
    by (rule ok_settle [OF ready]) (simp add: settled_def)
  ultimately show ?thesis using None by (simp add: k_enqueue_def fits_def)
next
  case (Some q)
  have "sched_ok E on k"
    by (rule ok_settle [OF ok]) (use Some state in \<open>simp add: settled_def\<close>)
  then show ?thesis using Some by (simp add: k_enqueue_def)
qed

end
