(* ===== verification/Sched_Pick.thy ===== *)
theory Sched_Pick
  imports Sched_Inv
begin

text \<open>The choice of the next thread: what it takes off the lists, and that it takes the most urgent thread.\<close>

section \<open>The scan of a bitmap\<close>

lemma runq_scan_spec:
  "case runq_scan sel bm of
     None \<Rightarrow> \<forall>p. bit bm p \<longrightarrow> sel p = None
   | Some (p, t) \<Rightarrow> bit bm p \<and> sel p = Some t \<and> (\<forall>p'. bit bm p' \<longrightarrow> p < p' \<longrightarrow> sel p' = None)"
proof (induction sel bm rule: runq_scan.induct)
  case (1 sel bm)
  show ?case
  proof (cases "bm = 0")
    case True
    then show ?thesis by (simp add: runq_scan.simps [of sel 0])
  next
    case False
    let ?p = "top_bit bm" and ?bm = "bm AND NOT (push_bit (top_bit bm) 1)"
    note top = top_bit_eq [OF False]
    have rest: "bit ?bm p \<longleftrightarrow> bit bm p \<and> p \<noteq> ?p" for p by (rule bit_and_not_push)
    show ?thesis
    proof (cases "sel ?p")
      case None
      then have "runq_scan sel bm = runq_scan sel ?bm" using False by (simp add: runq_scan.simps [of sel bm] Let_def)
      then show ?thesis using "1.IH" [OF False refl None] None rest
        by (auto split: option.splits simp del: push_bit_of_1)
    next
      case (Some t)
      then have "runq_scan sel bm = Some (?p, t)" using False by (simp add: runq_scan.simps [of sel bm] Let_def)
      moreover have "\<not> (bit bm p \<and> ?p < p)" for p using top(2) [of p] by auto
      ultimately show ?thesis using Some top(1) by simp
    qed
  qed
qed

section \<open>What is taken off the lists\<close>

definition queued :: "nat \<Rightarrow> core \<Rightarrow> bool" where
  "queued t k \<longleftrightarrow> (\<exists>c p. k_link k t = Some (RunQ c p)) \<or> (\<exists>c. k_link k t = Some (DlQ c))"

lemma head_linked:
  assumes "sched_ok E on (core_of st)" "list_head_of (sd_queue st q) = Some t"
  shows "t_link (sd_thread st t) = Some q"
  using assms by (auto simp: sched_ok_def lists_ok_def list_head_of_def split: list.splits) (metis list.set_intros(1))

lemma runq_prio:
  assumes "sched_ok E on (core_of st)" "t_link (sd_thread st t) = Some (RunQ c p)"
  shows "t_prio (sd_thread st t) = p"
  using assms by (auto simp: sched_ok_def linked_ok_def fits_def split: queue.splits)

lemma dl_pick_core:
  assumes "sched_ok E on (core_of st)"
  shows "case sched_dl_pick_next c st of
      (None, st') \<Rightarrow> st' = st
    | (Some t, st') \<Rightarrow> t_link (sd_thread st t) = Some (DlQ c) \<and> core_of st' = k_del t (core_of st)"
proof -
  have "t_link (sd_thread st b) = Some (DlQ c)" if "dl_best dl None (sd_queue st (DlQ c)) = Some b" for dl b
    using dl_best_in [OF that] assms by (auto simp: sched_ok_def lists_ok_def)
  then show ?thesis by (auto simp: sched_dl_pick_next_def Let_def core_dlq_del split: option.split)
qed

lemma pick_from_core:
  assumes "sched_ok E on (core_of st)"
  shows "case sched_pick_from_cpu_locked c st of
      (None, st') \<Rightarrow> st' = st
    | (Some t, st') \<Rightarrow> queued t (core_of st) \<and> core_of st' = k_del t (core_of st)"
proof (cases "sched_dl_pick_next c st")
  case (Pair best st')
  show ?thesis
  proof (cases best)
    case None
    then have st': "st' = st" using dl_pick_core [OF assms, of c] Pair by simp
    let ?sel = "\<lambda>p. list_head_of (sd_queue st (RunQ c p))"
    show ?thesis
    proof (cases "runq_scan ?sel (sd_bitmap st c)")
      case (Some pt)
      obtain p t where pt: "pt = (p, t)" by (cases pt)
      have "t_link (sd_thread st t) = Some (RunQ c p)"
        using runq_scan_spec [where sel = ?sel and bm = "sd_bitmap st c"] Some pt head_linked [OF assms] by simp
      moreover have "t_prio (sd_thread st t) = p" using runq_prio [OF assms] calculation .
      ultimately show ?thesis using Pair None st' Some pt
        by (simp add: sched_pick_from_cpu_locked_def core_dequeue queued_def)
    qed (simp add: sched_pick_from_cpu_locked_def Pair None st')
  next
    case (Some t)
    then show ?thesis using dl_pick_core [OF assms, of c] Pair by (simp add: sched_pick_from_cpu_locked_def queued_def)
  qed
qed

lemma steal_core:
  assumes "sched_ok E on (core_of st)"
  shows "case sched_steal locks c is' st of
      (None, st') \<Rightarrow> st' = st
    | (Some t, st') \<Rightarrow> queued t (core_of st) \<and> core_of st' = k_del t (core_of st)"
proof (induction is')
  case (Cons i is')
  let ?sel = "\<lambda>p. first_migratable st (sd_queue st (RunQ i p))"
  show ?case
  proof (cases "i = c \<or> \<not> h_online (sd_hart st i) \<or> \<not> locks i \<or> runq_scan ?sel (sd_bitmap st i AND NOT 1) = None")
    case True
    then have "sched_steal locks c (i # is') st = sched_steal locks c is' st" by auto
    then show ?thesis using Cons by simp
  next
    case False
    then obtain p t where pt: "runq_scan ?sel (sd_bitmap st i AND NOT 1) = Some (p, t)" by auto
    then have "first_migratable st (sd_queue st (RunQ i p)) = Some t" using runq_scan_spec [where sel = ?sel and bm = "sd_bitmap st i AND NOT 1"] by simp
    then have "t \<in> set (sd_queue st (RunQ i p))" by (auto simp: first_migratable_def find_Some_iff)
    then have link: "t_link (sd_thread st t) = Some (RunQ i p)" using assms by (auto simp: sched_ok_def lists_ok_def)
    let ?st = "if sd_queue (list_del_init t st) (RunQ i p) = [] then bitmap_clear i p (list_del_init t st) else list_del_init t st"
    have "\<not> (i = c \<or> \<not> h_online (sd_hart st i) \<or> \<not> locks i)" using False by blast
    then have eq: "sched_steal locks c (i # is') st = (Some t, ?st)"
      by (simp only: sched_steal.simps(2) if_False pt option.case prod.case Let_def)
    have "queued t (core_of st)" using link by (simp add: queued_def)
    then show ?thesis using core_runq_del [OF link] by (simp only: eq prod.case option.case simp_thms)
  qed
qed simp

text \<open>A thread on a run queue or deadline queue is on no hart.\<close>

lemma queued_off: "sched_ok E on k \<Longrightarrow> queued t k \<Longrightarrow> Some t \<notin> range on \<and> k_state k t = TD_STATE_READY"
proof -
  assume ok: "sched_ok E on k" and q: "queued t k"
  have "k_link k t = None \<or> k_link k t = Some SleepQ" if "on c = Some t" for c
    using ok that by (simp add: sched_ok_def harts_ok_def)
  then have "on c \<noteq> Some t" for c using q by (auto simp: queued_def)
  then have "Some t \<notin> range on" by (metis rangeE)
  moreover have "k_state k t = TD_STATE_READY" using ok q by (auto simp: sched_ok_def linked_ok_def queued_def fits_def split: queue.splits)
  ultimately show ?thesis by simp
qed

lemma k_cur_same: "k_cur (k_set t s k) = k_cur k" "k_cur (k_add q t k) = k_cur k" "k_cur (k_del t k) = k_cur k"
  by (simp_all add: k_set_def k_add_def k_del_def split: option.split)

lemma queued_del: "queued t (k_del u k) \<Longrightarrow> t \<noteq> u \<and> queued t k"
  by (auto simp: queued_def split: if_splits)

lemma pick_next_ok:
  assumes ok: "sched_ok E on (core_of st)" and pick: "sched_pick_next_local locks c st = (Some t, st')"
  shows "sched_ok (insert t E) on (core_of st') \<and> t_link (sd_thread st' t) = None \<and> Some t \<notin> range on \<and>
    t_state (sd_thread st' t) = TD_STATE_READY \<and> k_cur (core_of st') = k_cur (core_of st) \<and> (\<forall>u. t_state (sd_thread st' u) = t_state (sd_thread st u))"
proof -
  obtain picked st1 where from_cpu: "sched_pick_from_cpu_locked c st = (picked, st1)" by (cases "sched_pick_from_cpu_locked c st")
  obtain stolen st2 where steal: "sched_steal locks c [0..<MAX_CPUS] st1 = (stolen, st2)"
    by (cases "sched_steal locks c [0..<MAX_CPUS] st1")
  have simple: ?thesis if "queued t (core_of st)" "core_of st' = k_del t (core_of st)"
  proof -
    have "k_link (core_of st') t = None" "k_state (core_of st') t = TD_STATE_READY"
      using queued_off [OF ok that(1)] by (simp_all only: that(2) k_del_fields) simp
    then have "t_link (sd_thread st' t) = None" "t_state (sd_thread st' t) = TD_STATE_READY" by simp_all
    moreover have "k_cur (core_of st') = k_cur (core_of st)" by (simp only: that(2) k_cur_same)
    moreover have "t_state (sd_thread st' u) = t_state (sd_thread st u)" for u
      using core_of_simps(1) [of st' u] by (simp add: that(2))
    moreover have "sched_ok (insert t E) on (core_of st')" unfolding that(2) by (rule ok_del [OF ok])
    ultimately show ?thesis using queued_off [OF ok that(1)] by simp
  qed
  consider "picked = Some t" "st' = st1 \<or> stolen = None \<and> st' = st2"
    | "picked = None" "stolen = Some t" "st' = st2"
    | f where "picked = Some f" "stolen = Some t"
        "st' = bitmap_set c (t_prio (sd_thread st2 f)) (list_add_tail (RunQ c (t_prio (sd_thread st2 f))) f st2)"
    using pick from_cpu steal unfolding sched_pick_next_local_def by (auto simp: Let_def split: option.splits if_splits prod.splits)
  then show ?thesis
  proof cases
    case 1
    then have "queued t (core_of st)" "core_of st1 = k_del t (core_of st)" using pick_from_core [OF ok, of c] from_cpu by simp_all
    moreover have "stolen = None \<Longrightarrow> st2 = st1"
      using steal_core [of "insert t E" on st1 locks c "[0..<MAX_CPUS]"] steal ok_del [OF ok, of t] calculation(2) by simp
    ultimately show ?thesis using 1 simple by auto
  next
    case 2
    then have "st1 = st" using pick_from_core [OF ok, of c] from_cpu by simp
    then have "queued t (core_of st)" "core_of st2 = k_del t (core_of st)"
      using 2 steal_core [OF ok, of locks c "[0..<MAX_CPUS]"] steal by simp_all
    then show ?thesis unfolding 2(3) by (rule simple [unfolded 2(3)])
  next
    case 3
    then have f: "queued f (core_of st)" "core_of st1 = k_del f (core_of st)" using pick_from_core [OF ok, of c] from_cpu by simp_all
    have ok1: "sched_ok (insert f E) on (core_of st1)" using ok_del [OF ok, of f] f(2) by simp
    have t: "queued t (core_of st1)" "core_of st2 = k_del t (core_of st1)"
      using 3 steal_core [OF ok1, of locks c "[0..<MAX_CPUS]"] steal by simp_all
    have ok2: "sched_ok (insert t (insert f E)) on (core_of st2)" using ok_del [OF ok1, of t] t(2) by simp
    have tf: "t \<noteq> f" "queued t (core_of st)" using queued_del [of t f "core_of st"] t(1) f(2) by auto
    have fst2: "k_link (core_of st2) f = None" "k_state (core_of st2) f = TD_STATE_READY" "Some f \<notin> range on"
      using tf(1) t(2) f(2) queued_off [OF ok f(1)] by simp_all
    have core: "core_of st' = k_add (RunQ c (k_prio (core_of st2) f)) f (core_of st2)" using 3 core_runq_add by simp
    have "sched_ok (insert t (insert f E) - {f}) on (core_of st')"
      unfolding core by (rule ok_add [OF ok2]) (use fst2 in \<open>simp_all add: fits_def\<close>)
    then have "sched_ok (insert t E) on (core_of st')" by (rule ok_mono) auto
    moreover have "k_link (core_of st') t = None" "k_state (core_of st') t = TD_STATE_READY"
      using tf(1) queued_off [OF ok tf(2)] by (simp_all only: core k_add_fields t(2) f(2) k_del_fields) simp_all
    then have "t_link (sd_thread st' t) = None" "t_state (sd_thread st' t) = TD_STATE_READY" by simp_all
    moreover have "k_cur (core_of st') = k_cur (core_of st)" unfolding core t(2) f(2) by (simp only: k_cur_same)
    moreover have "t_state (sd_thread st' u) = t_state (sd_thread st u)" for u
      using core_of_simps(1) [of st' u] by (simp add: core t(2) f(2))
    ultimately show ?thesis using queued_off [OF ok tf(2)] by simp
  qed
qed

section \<open>The most urgent thread\<close>

lemma dl_best_spec:
  "case dl_best dl best ts of
     None \<Rightarrow> best = None \<and> (\<forall>t \<in> set ts. dl_throttled (dl t))
   | Some b \<Rightarrow> (best = Some b \<or> b \<in> set ts \<and> \<not> dl_throttled (dl b)) \<and>
       (\<forall>t \<in> set ts. dl_throttled (dl t) \<or> dl_abs_deadline (dl b) \<le> dl_abs_deadline (dl t)) \<and>
       (\<forall>b0. best = Some b0 \<longrightarrow> dl_abs_deadline (dl b) \<le> dl_abs_deadline (dl b0))"
proof (induction dl best ts rule: dl_best.induct)
  case (1 dl best)
  then show ?case by (cases best) auto
next
  case (2 dl best t ts)
  show ?case
  proof (cases "dl_throttled (dl t)")
    case True
    then show ?thesis using "2.IH"(1) by (auto split: option.splits)
  next
    case False
    show ?thesis
    proof (cases best)
      case None
      then show ?thesis using False "2.IH"(2) by (auto split: option.splits)
    next
      case (Some b)
      define b' where "b' = (if dl_abs_deadline (dl t) < dl_abs_deadline (dl b) then t else b)"
      have pick: "(if dl_abs_deadline (dl t) < dl_abs_deadline (dl b) then Some t else best) = Some b'" using Some by (simp add: b'_def)
      have step: "dl_best dl best (t # ts) = dl_best dl (Some b') ts" using False Some by (simp add: b'_def)
      have b': "b' = t \<or> b' = b" "dl_abs_deadline (dl b') \<le> dl_abs_deadline (dl t)" "dl_abs_deadline (dl b') \<le> dl_abs_deadline (dl b)"
        by (auto simp: b'_def)
      show ?thesis using "2.IH"(3) [OF False Some] b' False Some unfolding pick step
        by (cases "dl_best dl (Some b') ts") (auto intro: order_trans)
    qed
  qed
qed

definition dl_ready :: "nat \<Rightarrow> 'z sched_scheme \<Rightarrow> nat list" where
  "dl_ready c st = filter (\<lambda>t. \<not> dl_throttled (t_dl (sd_thread st t))) (sd_queue st (DlQ c))"

lemma dl_pick_urgent:
  assumes ok: "sched_ok E on (core_of st)" and few: "length (sd_queue st (DlQ c)) < 2 ^ 32"
  shows "case sched_dl_pick_next c st of
      (None, _) \<Rightarrow> dl_ready c st = []
    | (Some t, _) \<Rightarrow> t \<in> set (dl_ready c st) \<and>
        (\<forall>u \<in> set (dl_ready c st). dl_abs_deadline (t_dl (sd_thread st t)) \<le> dl_abs_deadline (t_dl (sd_thread st u)))"
proof -
  have "sd_dl_count st c = of_nat (length (sd_queue st (DlQ c)))" using ok by (simp add: sched_ok_def bitmap_ok_def)
  then have "unat (sd_dl_count st c) = length (sd_queue st (DlQ c))" using few by (simp add: unsigned_of_nat take_bit_nat_eq_self)
  then have "sd_dl_count st c = 0 \<Longrightarrow> sd_queue st (DlQ c) = []" by auto
  then show ?thesis using dl_best_spec [where dl = "\<lambda>t. t_dl (sd_thread st t)" and best = None and ts = "sd_queue st (DlQ c)"]
    by (auto simp: sched_dl_pick_next_def dl_ready_def Let_def split: option.splits)
qed

lemma pick_from_urgent:
  assumes ok: "sched_ok E on (core_of st)" and few: "length (sd_queue st (DlQ c)) < 2 ^ 32"
  shows "case sched_pick_from_cpu_locked c st of
      (None, _) \<Rightarrow> dl_ready c st = [] \<and> (\<forall>p. sd_queue st (RunQ c p) = [])
    | (Some t, _) \<Rightarrow>
        if dl_ready c st \<noteq> []
        then t \<in> set (dl_ready c st) \<and>
          (\<forall>u \<in> set (dl_ready c st). dl_abs_deadline (t_dl (sd_thread st t)) \<le> dl_abs_deadline (t_dl (sd_thread st u)))
        else \<exists>p ts. sd_queue st (RunQ c p) = t # ts \<and> (\<forall>p'>p. sd_queue st (RunQ c p') = [])"
proof (cases "sched_dl_pick_next c st")
  case (Pair best st')
  show ?thesis
  proof (cases best)
    case None
    then have st': "st' = st" "dl_ready c st = []" using dl_pick_core [OF ok, of c] dl_pick_urgent [OF ok few] Pair by simp_all
    let ?sel = "\<lambda>p. list_head_of (sd_queue st (RunQ c p))"
    have bit: "bit (sd_bitmap st c) p \<longleftrightarrow> sd_queue st (RunQ c p) \<noteq> []" for p using ok by (simp add: sched_ok_def bitmap_ok_def)
    have head: "?sel p = None \<longleftrightarrow> sd_queue st (RunQ c p) = []" "?sel p = Some t \<longleftrightarrow> (\<exists>ts. sd_queue st (RunQ c p) = t # ts)" for p t
      by (auto simp: list_head_of_def split: list.splits)
    show ?thesis using runq_scan_spec [where sel = ?sel and bm = "sd_bitmap st c"] Pair None st'
      by (auto simp: sched_pick_from_cpu_locked_def bit head split: option.splits)
  next
    case (Some t)
    then show ?thesis using dl_pick_urgent [OF ok few] Pair by (auto simp: sched_pick_from_cpu_locked_def)
  qed
qed

text \<open>A steal that finds nothing saw only pinned threads.\<close>

lemma steal_complete:
  assumes ok: "sched_ok E on (core_of st)" and none: "sched_steal locks c is' st = (None, st')"
    and i: "i \<in> set is'" "i \<noteq> c" "h_online (sd_hart st i)" "locks i" and t: "t \<in> set (sd_queue st (RunQ i p))" "0 < p"
  shows "t_affinity (sd_thread st t) \<noteq> None"
  using none i(1)
proof (induction is')
  case (Cons j js)
  let ?sel = "\<lambda>p. first_migratable st (sd_queue st (RunQ j p))"
  show ?case
  proof (cases "j = i")
    case True
    then have "runq_scan ?sel (sd_bitmap st j AND NOT 1) = None"
      using Cons.prems(1) i(2,3,4) by (cases "runq_scan ?sel (sd_bitmap st j AND NOT 1)") (auto simp: Let_def)
    then have "bit (sd_bitmap st j AND NOT 1) p \<longrightarrow> ?sel p = None"
      using runq_scan_spec [where sel = ?sel and bm = "sd_bitmap st j AND NOT 1"] by simp
    moreover have "sd_queue st (RunQ j p) \<noteq> []" using t(1) True by auto
    then have "bit (sd_bitmap st j) p" using ok by (simp add: sched_ok_def bitmap_ok_def)
    then have "bit (sd_bitmap st j AND NOT (push_bit 0 1)) p" using t(2) bit_and_not_push [of "sd_bitmap st j" 0 p] by simp
    ultimately show ?thesis using t(1) True by (auto simp: first_migratable_def find_None_iff)
  next
    case False
    have "sched_steal locks c js st = (None, st')"
      using Cons.prems(1) by (auto simp: Let_def split: if_splits option.splits)
    then show ?thesis using Cons False by simp
  qed
qed simp

end
