(* ===== verification/Sched_Run.thy ===== *)
theory Sched_Run
  imports Sched_Pick
begin

text \<open>
  Runs of the scheduler on several harts. A hart that switches has two steps, the section under its run queue lock and the rest; the
  other harts act in between. A run obeys four rules about what the rest of the kernel does: a thread is woken only once its hart has
  switched away from it, no thread changes its priority while it is queued, no thread is killed by another one, and a thread that
  terminates holds no mutex or resource. \<open>Sched_Correct\<close> shows what happens when the first and the third are broken.
\<close>

section \<open>Steps\<close>

text \<open>\<open>sw c\<close>: the hart is between the two steps, with the thread it leaves, the one it takes up, and whether the former is to be freed.\<close>

type_synonym switching = "nat \<Rightarrow> (nat \<times> nat \<times> bool) option"

definition on_hart :: "core \<Rightarrow> switching \<Rightarrow> nat \<Rightarrow> nat option" where
  "on_hart k sw c = (case sw c of None \<Rightarrow> k_cur k c | Some (old, new, nf) \<Rightarrow> Some new)"

abbreviation off_hart :: "nat \<Rightarrow> sched \<Rightarrow> switching \<Rightarrow> bool" where
  "off_hart t st sw \<equiv> Some t \<notin> range (on_hart (core_of st) sw)"

abbreviation runs :: "nat \<Rightarrow> nat \<Rightarrow> sched \<Rightarrow> switching \<Rightarrow> bool" where
  "runs me t st sw \<equiv> sw me = None \<and> h_curthread (sd_hart st me) = Some t \<and> t_state (sd_thread st t) = TD_STATE_RUNNING"

inductive sched_step :: "sched \<times> switching \<Rightarrow> sched \<times> switching \<Rightarrow> bool" where
  boot: "sw me = None \<Longrightarrow> h_curthread (sd_hart st me) = None \<Longrightarrow> t_link (sd_thread st t) = None \<Longrightarrow> off_hart t st sw \<Longrightarrow>
    sched_step (st, sw) (sched_enter_secondary me t st, sw)"
| create: "t_link (sd_thread st t) = None \<Longrightarrow> off_hart t st sw \<Longrightarrow> prio < CONFIG_SCHED_NPRIO \<Longrightarrow>
    sched_step (st, sw) (snd (sched_create_impl_ex (Some t) me prio affinity st), sw)"
| block: "runs me t st sw \<Longrightarrow> s = TD_STATE_BLOCKED \<or> s = TD_STATE_SEM_WAIT \<Longrightarrow> sched_step (st, sw) (sched_set_task_state t s st, sw)"
| unblock: "sw me = None \<Longrightarrow> h_curthread (sd_hart st me) = Some t \<Longrightarrow>
    t_state (sd_thread st t) = TD_STATE_BLOCKED \<or> t_state (sd_thread st t) = TD_STATE_SEM_WAIT \<Longrightarrow>
    sched_step (st, sw) (sched_set_task_state t TD_STATE_RUNNING st, sw)"
| sleep: "runs me t st sw \<Longrightarrow> sched_step (st, sw) (sleep_ms me t ms st, sw)"
| finish: "runs me t st sw \<Longrightarrow> sched_step (st, sw) (sched_task_finish me t st, sw)"
| preempt: "runs me t st sw \<Longrightarrow> sched_step (st, sw) (sched_set_task_state t TD_STATE_READY st, sw)"
| switch: "sw me = None \<Longrightarrow> h_curthread (sd_hart st me) = Some old \<Longrightarrow> t_state (sd_thread st old) \<noteq> TD_STATE_RUNNING \<Longrightarrow>
    sched_pick_phase locks (\<lambda>_ st. st) me old st = (Some t, st') \<Longrightarrow>
    sched_step (st, sw) (st', sw(me := Some (old, t, sched_needs_free old (sched_switch_out me old (sched_charge me old st)))))"
| commit: "sw me = Some (old, t, nf) \<Longrightarrow> sched_step (st, sw) (sched_commit_phase me old nf t st, sw(me := None))"
| wake: "t_state (sd_thread st t) = TD_STATE_BLOCKED \<or> t_state (sd_thread st t) = TD_STATE_SEM_WAIT \<Longrightarrow> off_hart t st sw \<Longrightarrow>
    sched_step (st, sw) (sched_wake_ready me t st, sw)"
| sleep_over: "off_hart t st sw \<Longrightarrow> sched_step (st, sw) (sleep_callout_cb me t st, sw)"
| wake_sleeping: "off_hart t st sw \<Longrightarrow> sched_step (st, sw) (sched_wake_sleeping me t st, sw)"
| attach: "runs me t st sw \<Longrightarrow> sched_step (st, sw) (snd (sched_domain_attach d t st), sw)"
| refill: "(\<And>t. t \<in> set (dom_members (sd_domain st d)) \<Longrightarrow> t_state (sd_thread st t) = TD_STATE_BLOCKED \<Longrightarrow> off_hart t st sw) \<Longrightarrow>
    sched_step (st, sw) (sched_domain_refill_cb me d st, sw)"
| dl_set: "runs me t st sw \<Longrightarrow> sched_step (st, sw) (snd (sched_dl_setattr t runtime deadline period st), sw)"
| dl_clear: "sched_step (st, sw) (sched_dl_clearattr me t st, sw)"
| replenish: "(t_state (sd_thread st t) = TD_STATE_DL_THROTTLED \<Longrightarrow> off_hart t st sw) \<Longrightarrow> sched_step (st, sw) (dl_replenish_cb me t st, sw)"
| balance: "sched_step (st, sw) (sched_load_balance locks me ncpus st, sw)"
| timers: "sched_step (st, sw) (upd_co f st, sw)"
| clock: "sched_step (st, sw) (st\<lparr>sd_clock := ck\<rparr>, sw)"

text \<open>Before \<^verbatim>\<open>sched_init\<close> nothing is queued and no hart has a thread.\<close>

definition blank :: "sched \<Rightarrow> bool" where
  "blank st \<longleftrightarrow> (\<forall>t. t_link (sd_thread st t) = None \<and> t_prio (sd_thread st t) = 0 \<and> t_state (sd_thread st t) = TD_STATE_TERMINATING) \<and>
     (\<forall>q. sd_queue st q = []) \<and> (\<forall>c. sd_bitmap st c = 0 \<and> sd_dl_count st c = 0 \<and> h_curthread (sd_hart st c) = None)"

inductive sched_run :: "sched \<times> switching \<Rightarrow> bool" where
  run_init: "blank st \<Longrightarrow> main \<noteq> idle \<Longrightarrow> sched_run (sched_init main idle st, \<lambda>_. None)"
| run_step: "sched_run s \<Longrightarrow> sched_step s s' \<Longrightarrow> sched_run s'"

section \<open>Every step keeps the queues in order\<close>

definition queues_ok :: "sched \<times> switching \<Rightarrow> bool" where
  "queues_ok s = (case s of (st, sw) \<Rightarrow> sched_ok {} (on_hart (core_of st) sw) (core_of st))"

lemma on_hart_cong: "k_cur k = k_cur k' \<Longrightarrow> on_hart k sw = on_hart k' sw"
  by (rule ext) (simp add: on_hart_def split: option.split)

lemma on_hart_same [simp]:
  "on_hart (k_set t s k) = on_hart k" "on_hart (k_add q t k) = on_hart k" "on_hart (k_del t k) = on_hart k"
  "on_hart (k_enqueue deadline depleted c t k) = on_hart k"
  by (rule ext, rule on_hart_cong, simp add: k_cur_same k_enqueue_def)+

text \<open>A step leaves the threads on harts alone.\<close>

definition keeps :: "(nat \<Rightarrow> nat option) \<Rightarrow> core \<Rightarrow> core \<Rightarrow> bool" where
  "keeps on k k' \<longleftrightarrow> k_cur k' = k_cur k \<and> (\<forall>u. Some u \<in> range on \<longrightarrow> k_state k' u = k_state k u)"

lemma keeps_refl: "keeps on k k"
  by (simp add: keeps_def)

lemma keeps_trans: "keeps on k k' \<Longrightarrow> keeps on k' k'' \<Longrightarrow> keeps on k k''"
  by (simp add: keeps_def)

lemma keeps_enqueue: "Some t \<notin> range on \<Longrightarrow> keeps on k k' \<Longrightarrow> keeps on k (k_enqueue deadline depleted c t k')"
  by (auto simp: keeps_def k_enqueue_def k_cur_same)

lemma keeps_off: "Some t \<notin> range on \<Longrightarrow> keeps on k (k_set t s k)" "keeps on k (k_del t k)"
  "keeps on k (k\<lparr>k_prio := prio\<rparr>)"
  by (auto simp: keeps_def k_cur_same)

lemma runs_on: "sw me = None \<Longrightarrow> h_curthread (sd_hart st me) = Some t \<Longrightarrow> on_hart (core_of st) sw me = Some t"
  by (simp add: on_hart_def)

text \<open>A thread that is running or blocked on a hart is on no list.\<close>

lemma on_unlinked:
  assumes "sched_ok E on k" "on c = Some t" "k_state k t \<noteq> TD_STATE_SLEEPING"
  shows "k_link k t = None"
proof -
  have "k_link k t = None \<or> k_link k t = Some SleepQ" using assms(1,2) by (simp add: sched_ok_def harts_ok_def)
  moreover have "fits SleepQ t k" if "k_link k t = Some SleepQ" using assms(1) that by (simp add: sched_ok_def linked_ok_def)
  then have "k_link k t \<noteq> Some SleepQ" using assms(3) by (auto simp: fits_def)
  ultimately show ?thesis by simp
qed

lemma idle_unlinked:
  assumes "sched_ok E on k" "k_state k t \<notin> {TD_STATE_READY, TD_STATE_SLEEPING}"
  shows "k_link k t = None"
proof (cases "k_link k t")
  case (Some q)
  then have "fits q t k" using assms(1) by (simp add: sched_ok_def linked_ok_def)
  then show ?thesis using assms(2) by (auto simp: fits_def split: queue.splits)
qed

lemma ok_set_on:
  assumes ok: "sched_ok E on k" and on: "on c = Some t" and unlinked: "k_link k t = None" and s: "s \<noteq> TD_STATE_SLEEPING"
  shows "sched_ok E on (k_set t s k)"
  by (rule ok_settle [OF ok_set [OF ok unlinked]]) (use s on_range [of on c t] on in \<open>simp add: settled_def\<close>)

text \<open>Waking: the thread becomes ready and is enqueued.\<close>

lemma ok_wake:
  assumes ok: "sched_ok E on k" and off: "Some t \<notin> range on" and unlinked: "k_link k t = None"
  shows "sched_ok E on (k_enqueue deadline depleted c t (k_set t TD_STATE_READY k))"
  by (rule ok_enqueue [OF ok_set [OF ok unlinked] off]) simp

lemma good_wake:
  assumes ok: "sched_ok E on k" and off: "Some t \<notin> range on" and unlinked: "k_link k t = None"
  shows "sched_ok E on (k_enqueue deadline depleted c t (k_set t TD_STATE_READY k)) \<and>
    keeps on k (k_enqueue deadline depleted c t (k_set t TD_STATE_READY k))"
  using ok_wake [OF ok off unlinked] off by (simp add: keeps_enqueue keeps_off)

lemma core_wake_ready: "core_of (sched_wake_ready me t st) =
    k_enqueue (is_dl t (sched_note_wakeup t (sched_set_task_state t TD_STATE_READY st)))
      (domain_depleted t (sched_note_wakeup t (sched_set_task_state t TD_STATE_READY st)))
      (sched_select_cpu me t (sched_note_wakeup t (sched_set_task_state t TD_STATE_READY st))) t (k_set t TD_STATE_READY (core_of st))"
  by (simp add: sched_wake_ready_def core)

lemma core_domain_attach [core]: "core_of (snd (sched_domain_attach d t st)) = core_of st"
  by (simp add: sched_domain_attach_def Let_def core split: option.split)

lemma member_thread: "sd_thread (domain_remove_member d t st) = sd_thread st"
  by (simp add: domain_remove_member_def upd_domain_def)

lemma core_detach_running:
  "t_state (sd_thread st t) = TD_STATE_RUNNING \<Longrightarrow> core_of (sched_domain_detach me t st) = core_of st"
  by (simp add: sched_domain_detach_def Let_def core sd_thread_upd member_thread split: option.split)

lemma core_finish:
  "t_state (sd_thread st t) = TD_STATE_RUNNING \<Longrightarrow> core_of (sched_task_finish me t st) = k_set t TD_STATE_TERMINATING (core_of st)"
  by (simp add: sched_task_finish_def Let_def core core_detach_running)

lemma core_list_add_sleep: "core_of (list_add_tail SleepQ t st) = k_add SleepQ t (core_of st)"
  by (simp add: core_of_def list_add_tail_def upd_thread_def k_add_def fun_eq_iff)

lemma core_sleep_ms:
  "core_of (sleep_ms me t ms st) =
     (if ms = 0 then k_set t TD_STATE_YIELDING (core_of st) else k_add SleepQ t (k_set t TD_STATE_SLEEPING (core_of st)))"
  by (simp add: sleep_ms_def Let_def core core_list_add_sleep)

lemma core_cur_same:
  assumes "k_cur (core_of st') = k_cur (core_of st)" "sched_ok {} (on_hart (core_of st) sw) (core_of st')"
  shows "queues_ok (st', sw)"
  using assms on_hart_cong [OF assms(1), of sw] by (simp add: queues_ok_def)

lemma ok_sleep:
  assumes ok: "sched_ok E on k" and on: "on c = Some t" and state: "k_state k t = TD_STATE_RUNNING"
  shows "sched_ok E on (k_add SleepQ t (k_set t TD_STATE_SLEEPING k))"
proof -
  have unlinked: "k_link k t = None" using on_unlinked [OF ok on] state by simp
  have "sched_ok (insert t E - {t}) on (k_add SleepQ t (k_set t TD_STATE_SLEEPING k))"
    by (rule ok_add [OF ok_set [OF ok unlinked]]) (use unlinked in \<open>simp_all add: fits_def\<close>)
  then show ?thesis by (rule ok_mono) auto
qed

text \<open>A sleeper that is woken leaves the list of sleepers first.\<close>

lemma ok_wake_sleeper:
  assumes ok: "sched_ok E on k" and off: "Some t \<notin> range on"
  shows "sched_ok E on (k_enqueue deadline depleted c t (k_set t TD_STATE_READY (k_del t k)))"
proof -
  have "sched_ok (insert t E) on (k_set t TD_STATE_READY (k_del t k))"
    using ok_set [OF ok_del [OF ok, of t], of t TD_STATE_READY] by simp
  then show ?thesis by (rule ok_enqueue [OF _ off]) simp
qed

lemma good_wake_sleeper:
  assumes ok: "sched_ok E on k" and off: "Some t \<notin> range on"
  shows "sched_ok E on (k_enqueue deadline depleted c t (k_set t TD_STATE_READY (k_del t k))) \<and>
    keeps on k (k_enqueue deadline depleted c t (k_set t TD_STATE_READY (k_del t k)))"
  using ok_wake_sleeper [OF ok off] off by (simp add: keeps_enqueue keeps_trans [OF keeps_off(2) keeps_off(1)])

lemma sleeper_linked:
  assumes "sched_ok {} on (core_of st)" "t_state (sd_thread st t) = TD_STATE_SLEEPING"
  shows "t_link (sd_thread st t) = Some SleepQ"
  using assms by (simp add: sched_ok_def settled_def)

lemma sleep_callout_ok:
  assumes ok: "sched_ok {} on (core_of st)" and off: "Some t \<notin> range on"
  shows "sched_ok {} on (core_of (sleep_callout_cb me t st)) \<and> keeps on (core_of st) (core_of (sleep_callout_cb me t st))"
  using ok good_wake_sleeper [OF ok off] sleeper_linked [OF ok, of t] by (simp add: sleep_callout_cb_def core core_sleepq_del keeps_refl)

lemma wake_sleeping_ok:
  assumes ok: "sched_ok {} on (core_of st)" and off: "Some t \<notin> range on"
  shows "sched_ok {} on (core_of (sched_wake_sleeping me t st)) \<and> keeps on (core_of st) (core_of (sched_wake_sleeping me t st))"
  using ok good_wake_sleeper [OF ok off] sleeper_linked [OF ok, of t]
  by (simp add: sched_wake_sleeping_def Let_def core core_sleepq_del keeps_refl)

lemma k_cur_enqueue: "k_cur (k_enqueue deadline depleted c t k) = k_cur k"
  by (simp add: k_enqueue_def k_cur_same)

text \<open>A refilled domain: its blocked members are made ready one after the other.\<close>

lemma refill_member_ok:
  assumes ok: "sched_ok {} on (core_of st)" and off: "t_state (sd_thread st t) = TD_STATE_BLOCKED \<Longrightarrow> Some t \<notin> range on"
  shows "sched_ok {} on (core_of (refill_member me d t st)) \<and> keeps on (core_of st) (core_of (refill_member me d t st))"
proof (cases "t_state (sd_thread st t) \<noteq> TD_STATE_BLOCKED \<or> t_domain (sd_thread st t) \<noteq> Some d \<or> t_link (sd_thread st t) \<noteq> None")
  case False
  then show ?thesis using good_wake [OF ok off] by (simp add: refill_member_def core)
qed (use ok in \<open>simp add: refill_member_def keeps_refl\<close>)

lemma k_enqueue_state: "u \<noteq> t \<Longrightarrow> k_state (k_enqueue deadline depleted c t k) u = k_state k u"
  by (simp add: k_enqueue_def)

lemma refill_member_blocked:
  "t_state (sd_thread (refill_member me d t st) u) = TD_STATE_BLOCKED \<Longrightarrow> t_state (sd_thread st u) = TD_STATE_BLOCKED"
proof (rule ccontr)
  assume a: "t_state (sd_thread (refill_member me d t st) u) = TD_STATE_BLOCKED" and b: "t_state (sd_thread st u) \<noteq> TD_STATE_BLOCKED"
  then have "u \<noteq> t \<or> refill_member me d t st = st" by (auto simp: refill_member_def)
  moreover have "k_state (core_of (refill_member me d t st)) u = k_state (core_of st) u" if "u \<noteq> t"
    using that by (simp add: refill_member_def core k_enqueue_state del: core_of_simps)
  ultimately have "k_state (core_of (refill_member me d t st)) u = k_state (core_of st) u" by metis
  then show False using a b by simp
qed

lemma refill_fold_ok:
  assumes "sched_ok {} on (core_of st)" "\<And>t. t \<in> set ts \<Longrightarrow> t_state (sd_thread st t) = TD_STATE_BLOCKED \<Longrightarrow> Some t \<notin> range on"
  shows "sched_ok {} on (core_of (fold (refill_member me d) ts st)) \<and> keeps on (core_of st) (core_of (fold (refill_member me d) ts st))"
  using assms
proof (induction ts arbitrary: st)
  case (Cons t ts)
  note step = refill_member_ok [OF Cons.prems(1), of t me d, OF Cons.prems(2)]
  have "sched_ok {} on (core_of (fold (refill_member me d) ts (refill_member me d t st))) \<and>
      keeps on (core_of (refill_member me d t st)) (core_of (fold (refill_member me d) ts (refill_member me d t st)))"
    by (rule Cons.IH) (use step Cons.prems(2) refill_member_blocked [of me d t st] in auto)
  then show ?case using step keeps_trans by auto
qed (simp add: keeps_refl)

lemma mc_recovery_members: "dom_members (sd_domain (sched_mc_check_recovery d st) d') = dom_members (sd_domain st d')"
  by (simp add: sched_mc_check_recovery_def upd_domain_def Let_def split: option.split)

lemma refill_ok:
  assumes "sched_ok {} on (core_of st)"
    "\<And>t. t \<in> set (dom_members (sd_domain st d)) \<Longrightarrow> t_state (sd_thread st t) = TD_STATE_BLOCKED \<Longrightarrow> Some t \<notin> range on"
  shows "sched_ok {} on (core_of (sched_domain_refill_cb me d st)) \<and> keeps on (core_of st) (core_of (sched_domain_refill_cb me d st))"
proof -
  define st1 where "st1 = upd_domain d (\<lambda>dom. dom\<lparr>dom_consumed_ticks := 0, dom_state := DOMAIN_ACTIVE,
    dom_next_refill := dom_next_refill dom + dom_period_ticks dom\<rparr>) st"
  define st2 where "st2 = (if dom_criticality (sd_domain st1 d) = SCHED_DOMAIN_CRIT_HI then sched_mc_check_recovery d st1 else st1)"
  define st3 where "st3 = set_callout me (dom_refill_callout (sd_domain st2 d)) (dom_period_ticks (sd_domain st2 d)) SCHED_DOMAIN_REFILL_CB d st2"
  have cores: "core_of st3 = core_of st" by (simp add: st3_def st2_def st1_def core)
  have "sd_domain st3 = sd_domain st2" by (simp add: st3_def set_callout_def time_rdtime_def upd_co_def)
  moreover have "dom_members (sd_domain st2 d) = dom_members (sd_domain st1 d)" by (simp add: st2_def mc_recovery_members)
  moreover have "dom_members (sd_domain st1 d) = dom_members (sd_domain st d)" by (simp add: st1_def upd_domain_def)
  ultimately have members: "dom_members (sd_domain st3 d) = dom_members (sd_domain st d)" by simp
  have states: "t_state (sd_thread st3 t) = t_state (sd_thread st t)" for t using core_of_simps(1) [of st3 t] cores by simp
  have "sched_domain_refill_cb me d st = fold (refill_member me d) (dom_members (sd_domain st3 d)) st3"
    by (simp add: sched_domain_refill_cb_def Let_def st3_def st2_def st1_def)
  then show ?thesis using refill_fold_ok [of on st3 "dom_members (sd_domain st d)" me d] assms cores members states by simp
qed

section \<open>Replenishment and balancing\<close>

lemma wake_ok:
  assumes ok: "sched_ok {} on (core_of st)" and off: "Some t \<notin> range on"
    and state: "t_state (sd_thread st t) \<notin> {TD_STATE_READY, TD_STATE_SLEEPING}"
  shows "sched_ok {} on (core_of (sched_wake_ready me t st)) \<and> keeps on (core_of st) (core_of (sched_wake_ready me t st))"
proof -
  have "k_link (core_of st) t = None" by (rule idle_unlinked [OF ok]) (use state in simp)
  then show ?thesis using good_wake [OF ok off] by (simp add: core_wake_ready)
qed

lemma replenish_ok:
  assumes ok: "sched_ok {} on (core_of st)" and off: "t_state (sd_thread st t) = TD_STATE_DL_THROTTLED \<Longrightarrow> Some t \<notin> range on"
  shows "sched_ok {} on (core_of (dl_replenish_cb me t st)) \<and> keeps on (core_of st) (core_of (dl_replenish_cb me t st))"
proof -
  define st1 where "st1 = upd_thread t (\<lambda>td. td\<lparr>t_dl := (t_dl td)
    \<lparr>dl_remaining := dl_runtime (t_dl td), dl_abs_deadline := dl_abs_deadline (t_dl td) + dl_period (t_dl td)\<rparr>\<rparr>) st"
  define st2 where "st2 = snd (time_rdtime st1)"
  define now where "now = fst (time_rdtime st1)"
  define st3 where "st3 = (if now > dl_abs_deadline (t_dl (sd_thread st2 t))
    then upd_thread t (\<lambda>td. td\<lparr>t_dl := (t_dl td)\<lparr>dl_abs_deadline := now + dl_deadline (t_dl td)\<rparr>\<rparr>) (dl_deadline_missed t st2)
    else st2)"
  define st4 where "st4 = (upd_thread t (\<lambda>td. td\<lparr>t_dl := (t_dl td)\<lparr>dl_throttled := False\<rparr>\<rparr>) st3)"
  define st5 where "st5 = st4\<lparr>sd_dl_replenishments := sd_dl_replenishments st4 + 1\<rparr>"
  have cores: "core_of st5 = core_of st" by (simp add: st5_def st4_def st3_def st2_def st1_def core)
  have state: "t_state (sd_thread st5 t) = t_state (sd_thread st t)" using core_of_simps(1) [of st5 t] cores by simp
  have cb: "dl_replenish_cb me t st =
      (if t_state (sd_thread st5 t) = TD_STATE_DL_THROTTLED then sched_wake_ready me t st5
       else if t_state (sd_thread st5 t) = TD_STATE_READY
       then (case t_last_cpu (sd_thread st5 t) of
               None \<Rightarrow> st5
             | Some cpu \<Rightarrow>
                 if cpu < MAX_CPUS
                 then let st = set_need_resched cpu st5 in if cpu \<noteq> me then upd_co (ipi_send cpu IPI_SCHED) st else st
                 else st5)
       else st5)"
    unfolding dl_replenish_cb_def Let_def case_prod_beta
    by (simp only: st5_def [symmetric] st4_def [symmetric] st3_def [symmetric] st2_def [symmetric] now_def [symmetric] st1_def [symmetric])
  show ?thesis
  proof (cases "t_state (sd_thread st5 t) = TD_STATE_DL_THROTTLED")
    case True
    then show ?thesis using wake_ok [of on st5 t me] ok off cores state by (simp add: cb)
  next
    case False
    then have "core_of (dl_replenish_cb me t st) = core_of st5" by (simp add: cb core Let_def split: option.split)
    then show ?thesis using ok cores by (simp add: keeps_refl)
  qed
qed

lemma core_balance_scan: "core_of (snd (balance_scan locks is' acc st)) = core_of st"
proof (induction is' arbitrary: acc st)
  case (Cons i is')
  obtain busiest max_load idlest min_load where "acc = (busiest, max_load, idlest, min_load)" by (metis prod.collapse)
  then show ?case by (simp add: Cons.IH Let_def core)
qed simp

lemma victim_fold:
  "fst (fold (\<lambda>t (victim, victim_load).
       let load = t_load_avg (sd_thread st t) in
       if t_affinity (sd_thread st t) = None \<and> load > victim_load \<and> max_load - load \<ge> min_load + load
       then (Some t, load) else (victim, victim_load)) ts acc) = Some u \<Longrightarrow> u \<in> set ts \<or> fst acc = Some u"
proof (induction ts arbitrary: acc)
  case (Cons t ts)
  then show ?case by (cases acc) (fastforce simp: Let_def split: if_splits)
qed simp

lemma victim_queued:
  assumes "sched_ok E on (core_of st)" "balance_victim busiest max_load min_load st = Some t"
  shows "\<exists>p. t_link (sd_thread st t) = Some (RunQ busiest p)"
  using victim_fold [OF assms(2) [unfolded balance_victim_def]] assms(1) by (auto simp: sched_ok_def lists_ok_def)

lemma balance_ok:
  assumes ok: "sched_ok {} on (core_of st)"
  shows "sched_ok {} on (core_of (sched_load_balance locks me ncpus st)) \<and> keeps on (core_of st) (core_of (sched_load_balance locks me ncpus st))"
proof -
  obtain busiest max_load idlest min_load st1 where scan: "balance_scan locks [0..<ncpus] (0, 0, 0, U64_MAX) st = ((busiest, max_load, idlest, min_load), st1)"
    by (metis prod.collapse)
  then have core1: "core_of st1 = core_of st" using core_balance_scan [of locks "[0..<ncpus]" "(0, 0, 0, U64_MAX)" st] by simp
  have ok1: "sched_ok {} on (core_of st1)" using ok core1 by simp
  show ?thesis
  proof (cases "ncpus < 2 \<or> max_load < LOAD_SCALE \<or> max_load < min_load + LOAD_SCALE div 2 \<or> busiest = idlest \<or>
      balance_victim busiest max_load min_load st1 = None")
    case True
    then have "sched_load_balance locks me ncpus st \<in> {st, st1}" by (auto simp: sched_load_balance_def scan)
    then show ?thesis using ok core1 by (auto simp: keeps_refl)
  next
    case False
    then obtain t where t: "balance_victim busiest max_load min_load st1 = Some t" by auto
    obtain p where link: "t_link (sd_thread st1 t) = Some (RunQ busiest p)" using victim_queued [OF ok1 t] by auto
    then have core2: "core_of (sched_dequeue_task_locked t busiest st1) = k_del t (core_of st1)" using runq_prio [OF ok1 link] by (simp add: core_dequeue)
    have q: "queued t (core_of st1)" using link by (simp add: queued_def)
    have "sched_ok {} on (k_enqueue deadline depleted c t (k_del t (core_of st1)))" for deadline depleted c
      by (rule ok_enqueue [OF ok_del [OF ok1]]) (use queued_off [OF ok1 q] in simp_all)
    moreover have "keeps on (core_of st1) (k_enqueue deadline depleted c t (k_del t (core_of st1)))" for deadline depleted c
      using queued_off [OF ok1 q] by (simp add: keeps_enqueue keeps_off)
    moreover have "sched_load_balance locks me ncpus st = sched_enqueue_cpu_locked me t idlest (sched_dequeue_task_locked t busiest st1)"
      using False t by (simp add: sched_load_balance_def scan)
    ultimately show ?thesis using core1 core2 by (simp add: core)
  qed
qed

section \<open>Creation and start-up\<close>

lemma ok_prio:
  assumes ok: "sched_ok E on k" and unlinked: "k_link k t = None" and p: "p < CONFIG_SCHED_NPRIO"
  shows "sched_ok E on (k\<lparr>k_prio := (k_prio k)(t := p)\<rparr>)"
proof -
  let ?k = "k\<lparr>k_prio := (k_prio k)(t := p)\<rparr>"
  have "fits q u ?k" if "k_link k u = Some q" for u q
    using ok unlinked that fits_cong [of k u ?k q] by (cases "u = t") (auto simp: sched_ok_def linked_ok_def)
  then have "linked_ok ?k" using ok p by (simp add: sched_ok_def linked_ok_def)
  then show ?thesis using ok by (simp add: sched_ok_def lists_ok_def bitmap_ok_def harts_ok_def settled_def)
qed

lemma core_new_thread:
  assumes "t_link (sd_thread st t) = None" "\<And>td. t_link (f td) = None" "\<And>td. t_state (f td) = s" "\<And>td. t_prio (f td) = p"
  shows "core_of (upd_thread t f st) = (k_set t s (core_of st))\<lparr>k_prio := (k_prio (core_of st))(t := p)\<rparr>"
  using assms by (simp add: core_of_def upd_thread_def k_set_def fun_eq_iff)

lemma core_dl_task_init [core]: "core_of (sched_dl_task_init t st) = core_of st"
  by (simp add: sched_dl_task_init_def Let_def core)

lemma core_create:
  assumes "t_link (sd_thread st t) = None"
  shows "\<exists>deadline depleted c. core_of (snd (sched_create_impl_ex (Some t) me prio affinity st)) =
    k_enqueue deadline depleted c t ((k_set t TD_STATE_READY (core_of st))\<lparr>k_prio := (k_prio (core_of st))(t := prio)\<rparr>)"
proof -
  define st1 where "st1 = upd_thread t (\<lambda>td. td\<lparr>t_affinity := affinity\<rparr>) (sched_task_alloc_init t st)"
  have core1: "core_of st1 = (k_set t TD_STATE_READY (core_of st))\<lparr>k_prio := (k_prio (core_of st))(t := 0)\<rparr>"
    using assms by (simp add: st1_def sched_task_alloc_init_def Let_def core core_new_thread [where s = TD_STATE_READY and p = 0])
  then have "k_link (core_of st1) t = None" using assms by simp
  then have "t_link (sd_thread st1 t) = None" by simp
  then have "core_of (upd_thread t (\<lambda>td. td
        \<lparr>t_prio := prio, t_base_prio := prio, t_state := TD_STATE_READY,
         t_quantum := (if sched_default_quantum prio = 0 then 1 else sched_default_quantum prio)\<rparr>) st1) =
      (k_set t TD_STATE_READY (core_of st1))\<lparr>k_prio := (k_prio (core_of st1))(t := prio)\<rparr>"
    by (simp add: core_of_def upd_thread_def k_set_def fun_eq_iff)
  also have "\<dots> = (k_set t TD_STATE_READY (core_of st))\<lparr>k_prio := (k_prio (core_of st))(t := prio)\<rparr>"
    unfolding core1 by (simp add: k_set_def)
  finally show ?thesis
    by (simp add: sched_create_impl_ex_def sched_task_enqueue_def Let_def core st1_def [symmetric]) blast
qed

lemma create_ok:
  assumes ok: "sched_ok {} on (core_of st)" and free: "t_link (sd_thread st t) = None" "Some t \<notin> range on" and p: "prio < CONFIG_SCHED_NPRIO"
  shows "sched_ok {} on (core_of (snd (sched_create_impl_ex (Some t) me prio affinity st))) \<and>
    keeps on (core_of st) (core_of (snd (sched_create_impl_ex (Some t) me prio affinity st)))"
proof -
  let ?k = "(k_set t TD_STATE_READY (core_of st))\<lparr>k_prio := (k_prio (k_set t TD_STATE_READY (core_of st)))(t := prio)\<rparr>"
  have "sched_ok {t} on ?k" by (rule ok_prio [OF ok_set [OF ok]]) (use free p in simp_all)
  then have "sched_ok {} on (k_enqueue deadline depleted c t ?k)" for deadline depleted c
    by (rule ok_enqueue) (use free in simp_all)
  moreover have "keeps on (core_of st) (k_enqueue deadline depleted c t ?k)" for deadline depleted c
    using free(2) by (simp add: keeps_enqueue keeps_trans [OF keeps_off(1) keeps_off(3)])
  ultimately show ?thesis using core_create [OF free(1), of me prio affinity] by auto
qed

lemma core_boot:
  assumes "t_link (sd_thread st t) = None"
  shows "core_of (sched_enter_secondary me t st) =
    ((k_set t TD_STATE_RUNNING (core_of st))\<lparr>k_prio := (k_prio (core_of st))(t := 0)\<rparr>)\<lparr>k_cur := (k_cur (core_of st))(me := Some t)\<rparr>"
  using assms
  by (simp add: sched_enter_secondary_def sched_init_idle_def time_rdtime_def Let_def core core_new_thread [where s = TD_STATE_READY and p = 0])
    (simp add: k_set_def)

lemma sched_ok_cur: "sched_ok E on (k\<lparr>k_cur := cur\<rparr>) = sched_ok E on k"
  by (simp add: sched_ok_def lists_ok_def bitmap_ok_def linked_ok_def harts_ok_def settled_def fits_def cong: queue.case_cong)

lemma boot_ok:
  assumes ok: "sched_ok {} (on_hart (core_of st) sw) (core_of st)" and hart: "sw me = None" "h_curthread (sd_hart st me) = None"
    and free: "t_link (sd_thread st t) = None" "off_hart t st sw"
  shows "queues_ok (sched_enter_secondary me t st, sw)"
proof -
  let ?k = "(k_set t TD_STATE_RUNNING (core_of st))\<lparr>k_prio := (k_prio (k_set t TD_STATE_RUNNING (core_of st)))(t := 0)\<rparr>"
  let ?on = "on_hart (core_of st) sw"
  have "sched_ok {t} ?on ?k" by (rule ok_prio [OF ok_set [OF ok]]) (use free in simp_all)
  then have "sched_ok {} (?on(me := Some t)) ?k"
    by (rule ok_enter) (use hart free in \<open>simp_all add: on_hart_def\<close>)
  moreover have "on_hart (core_of (sched_enter_secondary me t st)) sw = ?on(me := Some t)"
    using hart by (simp add: core_boot [OF free(1)] on_hart_def fun_eq_iff split: option.split)
  ultimately show ?thesis by (simp add: queues_ok_def core_boot [OF free(1)] sched_ok_cur)
qed

lemma core_init:
  assumes blank: "blank st" and distinct: "main \<noteq> idle"
  shows "core_of (sched_init main idle st) =
    (k_enqueue False False 0 idle (k_set idle TD_STATE_READY (k_set main TD_STATE_RUNNING (core_of st))))
      \<lparr>k_cur := (k_cur (core_of st))(0 := Some main)\<rparr>"
proof -
  let ?old = "core_of st"
  have idle: "\<not> is_dl idle (sched_init_idle idle 0 0 s)" "\<not> domain_depleted idle (sched_init_idle idle 0 0 s)" for s :: sched
    by (simp_all add: sched_init_idle_def is_dl_def domain_depleted_def upd_thread_def upd_co_def Let_def)
  have core_idle: "core_of (sched_init_idle idle 0 0 s) = (k_set idle TD_STATE_READY (core_of s))\<lparr>k_prio := (k_prio (core_of s))(idle := 0)\<rparr>"
    if "t_link (sd_thread s idle) = None" for s :: sched
    using that by (simp add: sched_init_idle_def Let_def core core_new_thread [where s = TD_STATE_READY and p = 0])
  obtain s where s: "sched_init main idle st = sched_enqueue_cpu_locked 0 idle 0 (sched_init_idle idle 0 0 s)"
      "core_of s = (k_set main TD_STATE_RUNNING ?old)\<lparr>k_cur := (k_cur ?old)(0 := Some main)\<rparr>"
  proof
    show "sched_init main idle st = sched_enqueue_cpu_locked 0 idle 0 (sched_init_idle idle 0 0 (sched_dl_init
       (let td = sd_thread st main;
          (now, st) = time_rdtime st;
          st = upd_thread main (\<lambda>td.
            \<lparr>t_state = TD_STATE_RUNNING, t_prio = SCHED_PRIO_IDLE, t_base_prio = SCHED_PRIO_IDLE,
             t_quantum = sched_default_quantum SCHED_PRIO_IDLE,
             t_affinity = Some 0, t_last_cpu = Some 0, t_switch_in_ticks = now, t_wakeup_ticks = 0, t_load_avg = 0,
             t_domain = None, t_link = None, t_sleep_callout = t_sleep_callout td, t_quantum_callout = t_quantum_callout td,
             t_policy = SCHED_POLICY_NORMAL,
             t_dl = \<lparr>dl_runtime = 0, dl_deadline = 0, dl_period = 0, dl_abs_deadline = 0, dl_remaining = 0, dl_throttled = False,
                     dl_active = False, dl_replenish_callout = dl_replenish_callout (t_dl td)\<rparr>,
             t_cleanup_queued = False, t_proc = None, t_join_state = TD_JOIN_FREE\<rparr>) st;
          st = upd_co (callout_init (t_quantum_callout td) \<circ> callout_init (t_sleep_callout td)) st;
          st = upd_hart 0 (\<lambda>h. h\<lparr>h_curthread := Some main\<rparr>) st
        in st\<lparr>sd_queue := (\<lambda>q. case q of
                 SleepQ \<Rightarrow> []
               | RunQ c p \<Rightarrow> if c < MAX_CPUS \<and> p < CONFIG_SCHED_NPRIO then [] else sd_queue st q
               | DlQ c \<Rightarrow> sd_queue st q),
               sd_bitmap := (\<lambda>c. if c < MAX_CPUS then 0 else sd_bitmap st c)\<rparr>)))"
      by (simp add: sched_init_def Let_def case_prod_beta)
  qed (use blank in \<open>simp add: blank_def core_of_def sched_dl_init_def upd_thread_def upd_hart_def upd_co_def time_rdtime_def k_set_def
        Let_def fun_eq_iff split: queue.split\<close>)
  have link: "t_link (sd_thread s idle) = None"
    using core_of_simps(2) [of s idle] s(2) blank by (simp add: blank_def)
  have prio: "(k_prio ?old)(idle := 0) = k_prio ?old" using blank by (simp add: blank_def fun_eq_iff core_of_def)
  let ?k = "k_set idle TD_STATE_READY (k_set main TD_STATE_RUNNING ?old)"
  have "core_of (sched_init_idle idle 0 0 s) = ?k\<lparr>k_cur := (k_cur ?old)(0 := Some main)\<rparr>"
    unfolding core_idle [OF link] s(2) using prio by (simp add: k_set_def)
  then have "core_of (sched_init main idle st) = (k_enqueue False False 0 idle ?k)\<lparr>k_cur := (k_cur ?old)(0 := Some main)\<rparr>"
    unfolding s(1) core_enqueue using idle by (simp add: k_enqueue_def k_add_def k_set_def)
  then show ?thesis .
qed

lemma init_ok:
  assumes blank: "blank st" and distinct: "main \<noteq> idle"
  shows "queues_ok (sched_init main idle st, \<lambda>_. None)"
proof -
  let ?old = "core_of st" and ?none = "\<lambda>_ :: nat. None :: nat option"
  note core = core_init [OF blank distinct]
  have "sched_ok {} ?none ?old" using blank
    by (simp add: blank_def sched_ok_def lists_ok_def bitmap_ok_def linked_ok_def harts_ok_def settled_def)
  then have "sched_ok {main} ?none (k_set main TD_STATE_RUNNING ?old)" by (rule ok_set) (use blank in \<open>simp add: blank_def\<close>)
  then have "sched_ok {} (?none(0 := Some main)) (k_set main TD_STATE_RUNNING ?old)"
    by (rule ok_enter) (use blank in \<open>simp_all add: blank_def\<close>)
  then have "sched_ok {idle} (?none(0 := Some main)) (k_set idle TD_STATE_READY (k_set main TD_STATE_RUNNING ?old))"
    by (rule ok_set) (use blank in \<open>simp add: blank_def\<close>)
  then have ok: "sched_ok {} (?none(0 := Some main)) (k_enqueue False False 0 idle (k_set idle TD_STATE_READY (k_set main TD_STATE_RUNNING ?old)))"
    by (rule ok_enqueue) (use distinct in auto)
  have "on_hart (core_of (sched_init main idle st)) (\<lambda>_. None) = ?none(0 := Some main)"
    unfolding core using blank by (simp add: on_hart_def fun_eq_iff blank_def k_cur_same k_cur_enqueue)
  then show ?thesis using ok unfolding queues_ok_def prod.case core by (simp add: sched_ok_cur)
qed

section \<open>Switching\<close>

lemma switch_out_ok:
  assumes ok: "sched_ok {} on (core_of st)" and on: "on me = Some old" and state: "t_state (sd_thread st old) \<noteq> TD_STATE_RUNNING"
  shows "sched_ok {} (on(me := None)) (core_of (sched_switch_out me old st)) \<and> k_cur (core_of (sched_switch_out me old st)) = k_cur (core_of st)"
proof -
  let ?on = "on(me := None)"
  have left: "sched_ok {old} ?on (core_of st)" "Some old \<notin> range ?on" using ok_leave [OF ok on] by simp_all
  show ?thesis
  proof (cases "t_state (sd_thread st old) = TD_STATE_YIELDING \<or> t_state (sd_thread st old) = TD_STATE_READY")
    case True
    have unlinked: "k_link (core_of st) old = None" by (rule on_unlinked [OF ok on]) (use True in auto)
    have ready: "sched_ok {old} ?on (k_set old TD_STATE_READY (core_of st))" using ok_set [OF left(1) unlinked, of TD_STATE_READY] by simp
    have "sched_ok {old} ?on (k_set old TD_STATE_BLOCKED (k_set old TD_STATE_READY (core_of st)))"
      using ok_set [OF ready, of old TD_STATE_BLOCKED] unlinked by simp
    then have "sched_ok {} ?on (k_set old TD_STATE_BLOCKED (k_set old TD_STATE_READY (core_of st)))"
      by (rule ok_settle) (simp add: settled_def)
    moreover have "sched_ok {} ?on (k_enqueue deadline depleted me old (k_set old TD_STATE_READY (core_of st)))" for deadline depleted
      by (rule ok_enqueue [OF ready left(2)]) simp
    ultimately show ?thesis using True by (simp add: sched_switch_out_def Let_def core k_cur_enqueue k_cur_same)
  next
    case False
    have "settled on (core_of st) old" using ok by (simp add: sched_ok_def)
    then have "settled ?on (core_of st) old" using False state by (simp add: settled_def)
    then have "sched_ok {} ?on (core_of st)" by (rule ok_settle [OF left(1)])
    then show ?thesis using False by (simp add: sched_switch_out_def)
  qed
qed

lemma switch_ok:
  assumes ok: "sched_ok {} (on_hart (core_of st) sw) (core_of st)" and hart: "sw me = None" "h_curthread (sd_hart st me) = Some old"
    and state: "t_state (sd_thread st old) \<noteq> TD_STATE_RUNNING" and pick: "sched_pick_phase locks (\<lambda>_ st. st) me old st = (Some t, st')"
  shows "queues_ok (st', sw(me := Some (old, t, nf)))"
proof -
  let ?on = "on_hart (core_of st) sw" and ?st = "sched_charge me old st"
  have on: "?on me = Some old" using hart by (simp add: on_hart_def)
  have charged: "core_of ?st = core_of st" by (rule core_charge [OF state])
  have "t_state (sd_thread ?st old) \<noteq> TD_STATE_RUNNING" using state core_of_simps(1) [of ?st old] charged by simp
  then have out: "sched_ok {} (?on(me := None)) (core_of (sched_switch_out me old ?st))"
      "k_cur (core_of (sched_switch_out me old ?st)) = k_cur (core_of st)"
    using switch_out_ok [of ?on ?st me old] ok on charged by simp_all
  have "sched_pick_next_local locks me (sched_switch_out me old ?st) = (Some t, st')"
    using pick by (simp add: sched_pick_phase_def Let_def)
  then have picked: "sched_ok {t} (?on(me := None)) (core_of st')" "t_link (sd_thread st' t) = None" "Some t \<notin> range (?on(me := None))"
      "t_state (sd_thread st' t) = TD_STATE_READY" "k_cur (core_of st') = k_cur (core_of (sched_switch_out me old ?st))"
    using pick_next_ok [OF out(1)] by blast+
  have "sched_ok {} ((?on(me := None))(me := Some t)) (core_of st')"
    by (rule ok_enter [where on = "?on(me := None)"]) (use picked in simp_all)
  moreover have "on_hart (core_of st') (sw(me := Some (old, t, nf))) = ?on(me := Some t)"
    using picked out(2) by (simp add: on_hart_def fun_eq_iff split: option.split)
  ultimately show ?thesis by (simp add: queues_ok_def)
qed

lemma commit_ok:
  assumes ok: "sched_ok {} (on_hart (core_of st) sw) (core_of st)" and sw: "sw me = Some (old, t, nf)"
    and state: "t_state (sd_thread st t) \<noteq> TD_STATE_SLEEPING"
  shows "queues_ok (sched_commit_phase me old nf t st, sw(me := None))"
proof -
  let ?on = "on_hart (core_of st) sw"
  have on: "?on me = Some t" using sw by (simp add: on_hart_def)
  have "k_link (core_of st) t = None" by (rule on_unlinked [OF ok on]) (use state in simp)
  then have "sched_ok {} ?on (k_set t TD_STATE_RUNNING (core_of st))" by (rule ok_set_on [OF ok on]) simp
  moreover have "on_hart (core_of (sched_commit_phase me old nf t st)) (sw(me := None)) = ?on"
    using sw by (simp add: core_commit on_hart_def fun_eq_iff split: option.split)
  ultimately show ?thesis by (simp add: queues_ok_def core_commit sched_ok_cur)
qed

section \<open>Runs\<close>

text \<open>The thread a hart is about to take up is ready.\<close>

definition pending_ok :: "sched \<times> switching \<Rightarrow> bool" where
  "pending_ok s = (case s of (st, sw) \<Rightarrow> \<forall>c old t nf. sw c = Some (old, t, nf) \<longrightarrow> t_state (sd_thread st t) = TD_STATE_READY)"

definition run_ok :: "sched \<times> switching \<Rightarrow> bool" where
  "run_ok s \<longleftrightarrow> queues_ok s \<and> pending_ok s"

lemma pending_on: "sw c = Some (old, t, nf) \<Longrightarrow> Some t \<in> range (on_hart k sw)"
  by (rule on_range [of _ c]) (simp add: on_hart_def)

lemma run_ok_keeps:
  assumes ok: "run_ok (st, sw)" and
    kept: "sched_ok {} (on_hart (core_of st) sw) (core_of st') \<and> keeps (on_hart (core_of st) sw) (core_of st) (core_of st')"
  shows "run_ok (st', sw)"
proof -
  have "on_hart (core_of st') sw = on_hart (core_of st) sw" using kept by (intro on_hart_cong) (simp add: keeps_def)
  moreover have "t_state (sd_thread st' t) = TD_STATE_READY" if "sw c = Some (old, t, nf)" for c old t nf
  proof -
    have "k_state (core_of st') t = k_state (core_of st) t"
      using kept pending_on [of sw c old t nf "core_of st"] that by (simp add: keeps_def)
    moreover have "t_state (sd_thread st t) = TD_STATE_READY" using ok that unfolding run_ok_def pending_ok_def prod.case by blast
    ultimately show ?thesis by simp
  qed
  then have "pending_ok (st', sw)" unfolding pending_ok_def prod.case by blast
  ultimately show ?thesis using kept by (simp add: run_ok_def queues_ok_def)
qed

text \<open>The thread of a hart changes its own state.\<close>

lemma run_ok_own:
  assumes ok: "run_ok (st, sw)" and hart: "sw me = None" "h_curthread (sd_hart st me) = Some t"
    and new: "sched_ok {} (on_hart (core_of st) sw) (core_of st')" "k_cur (core_of st') = k_cur (core_of st)"
      "\<And>u. u \<noteq> t \<Longrightarrow> k_state (core_of st') u = k_state (core_of st) u"
  shows "run_ok (st', sw)"
proof -
  have on: "on_hart (core_of st') sw = on_hart (core_of st) sw" using new(2) by (rule on_hart_cong)
  have "u \<noteq> t" if "sw c = Some (old, u, nf)" for c old u nf
  proof
    assume "u = t"
    then have "on_hart (core_of st) sw c = Some t" "on_hart (core_of st) sw me = Some t" using that hart by (simp_all add: on_hart_def)
    then have "c = me" using ok unfolding run_ok_def queues_ok_def prod.case sched_ok_def harts_ok_def by blast
    then show False using that hart by simp
  qed
  moreover have "t_state (sd_thread st' u) = t_state (sd_thread st u)" if "u \<noteq> t" for u using new(3) [OF that] by simp
  moreover have "t_state (sd_thread st u) = TD_STATE_READY" if "sw c = Some (old, u, nf)" for c old u nf
    using ok that unfolding run_ok_def pending_ok_def prod.case by blast
  ultimately have "pending_ok (st', sw)" unfolding pending_ok_def prod.case by metis
  then show ?thesis using new(1) on by (simp add: run_ok_def queues_ok_def)
qed

lemma run_ok_set:
  assumes ok: "run_ok (st, sw)" and hart: "sw me = None" "h_curthread (sd_hart st me) = Some t"
    and state: "t_state (sd_thread st t) \<noteq> TD_STATE_SLEEPING" "s \<noteq> TD_STATE_SLEEPING" and new: "core_of st' = k_set t s (core_of st)"
  shows "run_ok (st', sw)"
proof (rule run_ok_own [OF ok hart])
  have on: "on_hart (core_of st) sw me = Some t" using hart by (simp add: on_hart_def)
  have q: "sched_ok {} (on_hart (core_of st) sw) (core_of st)" using ok by (simp add: run_ok_def queues_ok_def)
  have "k_link (core_of st) t = None" by (rule on_unlinked [OF q on]) (use state in simp)
  then show "sched_ok {} (on_hart (core_of st) sw) (core_of st')" unfolding new by (rule ok_set_on [OF q on]) (rule state(2))
qed (simp_all only: new k_cur_same k_set_fields fun_upd_apply if_False)

lemma commit_run_ok:
  assumes ok: "run_ok (st, sw)" and sw: "sw me = Some (old, t, nf)"
  shows "run_ok (sched_commit_phase me old nf t st, sw(me := None))"
proof -
  have q: "sched_ok {} (on_hart (core_of st) sw) (core_of st)" using ok by (simp add: run_ok_def queues_ok_def)
  have ready: "t_state (sd_thread st u) = TD_STATE_READY" if "sw c = Some (old', u, nf')" for c old' u nf'
    using ok that unfolding run_ok_def pending_ok_def prod.case by blast
  have "u \<noteq> t" if "sw c = Some (old', u, nf')" "c \<noteq> me" for c old' u nf'
  proof
    assume "u = t"
    then have "on_hart (core_of st) sw c = Some t" "on_hart (core_of st) sw me = Some t" using that sw by (simp_all add: on_hart_def)
    then have "c = me" using q unfolding sched_ok_def harts_ok_def by blast
    then show False using that by simp
  qed
  moreover have "k_state (core_of (sched_commit_phase me old nf t st)) u = k_state (core_of st) u" if "u \<noteq> t" for u
    using that by (simp add: core_commit del: core_of_simps)
  ultimately have "t_state (sd_thread (sched_commit_phase me old nf t st) u) = TD_STATE_READY" if "sw c = Some (old', u, nf')" "c \<noteq> me" for c old' u nf'
    using that ready by (metis core_of_simps(1))
  then have "pending_ok (sched_commit_phase me old nf t st, sw(me := None))" by (auto simp: pending_ok_def split: if_splits)
  then show ?thesis using commit_ok [OF q sw] ready [OF sw] by (simp add: run_ok_def)
qed

lemma switch_out_state: "u \<noteq> old \<Longrightarrow> k_state (core_of (sched_switch_out me old st)) u = k_state (core_of st) u"
  by (simp add: sched_switch_out_def Let_def core k_enqueue_state del: core_of_simps)

lemma switch_pending:
  assumes ok: "run_ok (st, sw)" and hart: "sw me = None" "h_curthread (sd_hart st me) = Some old"
    and state: "t_state (sd_thread st old) \<noteq> TD_STATE_RUNNING" and pick: "sched_pick_phase locks (\<lambda>_ st. st) me old st = (Some t, st')"
  shows "pending_ok (st', sw(me := Some (old, t, nf)))"
proof -
  let ?on = "on_hart (core_of st) sw" and ?st = "sched_charge me old st"
  have q: "sched_ok {} ?on (core_of st)" using ok by (simp add: run_ok_def queues_ok_def)
  have on: "?on me = Some old" using hart by (simp add: on_hart_def)
  have charged: "core_of ?st = core_of st" by (rule core_charge [OF state])
  have "t_state (sd_thread ?st old) \<noteq> TD_STATE_RUNNING" using state core_of_simps(1) [of ?st old] charged by simp
  then have out: "sched_ok {} (?on(me := None)) (core_of (sched_switch_out me old ?st))"
    using switch_out_ok [of ?on ?st me old] q on charged by simp
  have "sched_pick_next_local locks me (sched_switch_out me old ?st) = (Some t, st')"
    using pick by (simp add: sched_pick_phase_def Let_def)
  then have picked: "t_state (sd_thread st' t) = TD_STATE_READY"
      "\<And>u. t_state (sd_thread st' u) = t_state (sd_thread (sched_switch_out me old ?st) u)"
    using pick_next_ok [OF out] by blast+
  have "t_state (sd_thread st' u) = TD_STATE_READY" if u: "sw c = Some (old', u, nf')" for c old' u nf'
  proof -
    have "?on c = Some u" using u by (simp add: on_hart_def)
    moreover have "c \<noteq> me" using u hart by auto
    ultimately have "u \<noteq> old" using q on unfolding sched_ok_def harts_ok_def by blast
    then have "t_state (sd_thread (sched_switch_out me old ?st) u) = t_state (sd_thread st u)"
      using switch_out_state [of u old me ?st] by (simp add: charged)
    then have "t_state (sd_thread st' u) = t_state (sd_thread st u)" using picked(2) by simp
    moreover have "t_state (sd_thread st u) = TD_STATE_READY" using ok u unfolding run_ok_def pending_ok_def prod.case by blast
    ultimately show ?thesis by simp
  qed
  then show ?thesis using picked(1) by (auto simp: pending_ok_def split: if_splits)
qed

lemma switch_run_ok:
  assumes ok: "run_ok (st, sw)" and hart: "sw me = None" "h_curthread (sd_hart st me) = Some old"
    and state: "t_state (sd_thread st old) \<noteq> TD_STATE_RUNNING" and pick: "sched_pick_phase locks (\<lambda>_ st. st) me old st = (Some t, st')"
  shows "run_ok (st', sw(me := Some (old, t, nf)))"
proof -
  have q: "sched_ok {} (on_hart (core_of st) sw) (core_of st)" using ok by (simp add: run_ok_def queues_ok_def)
  show ?thesis using switch_ok [OF q hart state pick] switch_pending [OF ok hart state pick] by (simp add: run_ok_def)
qed

lemma step_ok: "sched_step s s' \<Longrightarrow> run_ok s \<Longrightarrow> run_ok s'"
proof (induction rule: sched_step.induct)
  case (boot sw me st t)
  then have q: "sched_ok {} (on_hart (core_of st) sw) (core_of st)" by (simp add: run_ok_def queues_ok_def)
  have "pending_ok (sched_enter_secondary me t st, sw)"
  proof -
    have "k_state (core_of (sched_enter_secondary me t st)) u = k_state (core_of st) u" if "sw c = Some (old, u, nf)" for c old u nf
      using pending_on [of sw c old u nf "core_of st"] that boot by (auto simp: core_boot simp del: core_of_simps)
    then have "t_state (sd_thread (sched_enter_secondary me t st) u) = t_state (sd_thread st u)" if "sw c = Some (old, u, nf)" for c old u nf
      using that by (metis core_of_simps(1))
    then show ?thesis using boot.prems unfolding run_ok_def pending_ok_def prod.case by metis
  qed
  then show ?case using boot_ok [OF q] boot by (simp add: run_ok_def)
next
  case (create st t sw prio me affinity)
  then show ?case by (intro run_ok_keeps [OF create.prems] create_ok) (simp_all add: run_ok_def queues_ok_def)
next
  case (block me t st sw s)
  show ?case by (rule run_ok_set [of st sw me t s]) (use block in \<open>auto simp: core\<close>)
next
  case (unblock sw me st t)
  show ?case by (rule run_ok_set [of st sw me t TD_STATE_RUNNING]) (use unblock in \<open>auto simp: core\<close>)
next
  case (sleep me t st sw ms)
  have q: "sched_ok {} (on_hart (core_of st) sw) (core_of st)" using sleep by (simp add: run_ok_def queues_ok_def)
  show ?case
  proof (cases "ms = 0")
    case True
    show ?thesis by (rule run_ok_set [of st sw me t TD_STATE_YIELDING]) (use sleep True in \<open>auto simp: core_sleep_ms\<close>)
  next
    case False
    then have c: "core_of (sleep_ms me t ms st) = k_add SleepQ t (k_set t TD_STATE_SLEEPING (core_of st))" by (simp add: core_sleep_ms)
    show ?thesis
    proof (rule run_ok_own [of st sw me t])
      show "sched_ok {} (on_hart (core_of st) sw) (core_of (sleep_ms me t ms st))"
        unfolding c by (rule ok_sleep [OF q, of me]) (use sleep in \<open>simp_all add: on_hart_def\<close>)
    qed (use sleep in \<open>simp_all only: c k_cur_same k_add_fields k_set_fields fun_upd_apply if_False\<close>)
  qed
next
  case (finish me t st sw)
  show ?case by (rule run_ok_set [of st sw me t TD_STATE_TERMINATING]) (use finish in \<open>auto simp: core_finish\<close>)
next
  case (preempt me t st sw)
  show ?case by (rule run_ok_set [of st sw me t TD_STATE_READY]) (use preempt in \<open>auto simp: core\<close>)
next
  case (switch sw me st old locks t st')
  then show ?case using switch_run_ok by blast
next
  case (commit sw me old t nf st)
  then show ?case using commit_run_ok by blast
next
  case (wake st t sw me)
  then show ?case by (intro run_ok_keeps [OF wake.prems] wake_ok) (auto simp: run_ok_def queues_ok_def)
next
  case (sleep_over t st sw me)
  then show ?case by (intro run_ok_keeps [OF sleep_over.prems] sleep_callout_ok) (auto simp: run_ok_def queues_ok_def)
next
  case (wake_sleeping t st sw me)
  then show ?case by (intro run_ok_keeps [OF wake_sleeping.prems] wake_sleeping_ok) (auto simp: run_ok_def queues_ok_def)
next
  case (attach me t st sw d)
  then show ?case by (intro run_ok_keeps [OF attach.prems]) (auto simp: run_ok_def queues_ok_def core keeps_refl)
next
  case (refill st d sw me)
  then show ?case by (intro run_ok_keeps [OF refill.prems] refill_ok) (auto simp: run_ok_def queues_ok_def)
next
  case (dl_set me t st sw runtime deadline period)
  then show ?case by (intro run_ok_keeps [OF dl_set.prems]) (auto simp: run_ok_def queues_ok_def core keeps_refl)
next
  case (dl_clear st sw me t)
  then show ?case by (intro run_ok_keeps [OF dl_clear]) (auto simp: run_ok_def queues_ok_def core keeps_refl)
next
  case (replenish st t sw me)
  then show ?case by (intro run_ok_keeps [OF replenish.prems] replenish_ok) (auto simp: run_ok_def queues_ok_def)
next
  case (balance st sw locks me ncpus)
  then show ?case by (intro run_ok_keeps [OF balance] balance_ok) (auto simp: run_ok_def queues_ok_def)
next
  case (timers st sw f)
  then show ?case by (intro run_ok_keeps [OF timers]) (auto simp: run_ok_def queues_ok_def core keeps_refl)
next
  case (clock st sw ck)
  then show ?case by (intro run_ok_keeps [OF clock]) (auto simp: run_ok_def queues_ok_def core keeps_refl)
qed

lemma sched_run_ok: "sched_run s \<Longrightarrow> run_ok s"
proof (induction rule: sched_run.induct)
  case (run_init st main idle)
  then show ?case using init_ok by (simp add: run_ok_def pending_ok_def)
qed (rule step_ok)

end
