(* ===== verification/Sched_Correct.thy ===== *)
theory Sched_Correct
  imports Sched_Run
begin

text \<open>
  What the scheduler guarantees in every run on several harts, which thread a hart takes up next, when the assertions of a debug
  build hold, and what happens when a thread is woken too early or killed while it is queued.
\<close>

section \<open>Queues and harts in a run\<close>

lemma run_queues:
  assumes "sched_run (st, sw)"
  shows "sched_ok {} (on_hart (core_of st) sw) (core_of st)"
  using sched_run_ok [OF assms] by (simp add: run_ok_def queues_ok_def)

lemma run_pending:
  assumes "sched_run (st, sw)" "sw c = Some (old, t, nf)"
  shows "t_state (sd_thread st t) = TD_STATE_READY"
  using sched_run_ok [OF assms(1)] assms(2) unfolding run_ok_def pending_ok_def prod.case by blast

lemma list_member_link:
  assumes "sched_ok E on (core_of st)" "t \<in> set (sd_queue st q)"
  shows "t_link (sd_thread st t) = Some q"
proof -
  have "\<forall>q t. t \<in> set (k_queue (core_of st) q) \<longleftrightarrow> k_link (core_of st) t = Some q"
    using assms(1) unfolding sched_ok_def lists_ok_def by blast
  then show ?thesis using assms(2) by simp
qed

lemma list_member_fits:
  assumes "sched_ok E on (core_of st)" "t \<in> set (sd_queue st q)"
  shows "fits q t (core_of st)"
  using assms(1) list_member_link [OF assms] by (simp add: sched_ok_def linked_ok_def)

lemma runq_member:
  assumes "sched_ok E on (core_of st)" "t \<in> set (sd_queue st (RunQ c p))"
  shows "t_state (sd_thread st t) = TD_STATE_READY" "t_prio (sd_thread st t) = p"
  using list_member_fits [OF assms] by (simp_all add: fits_def)


definition executes :: "sched \<Rightarrow> switching \<Rightarrow> nat \<Rightarrow> nat \<Rightarrow> bool" where
  "executes st sw c t \<longleftrightarrow> (case sw c of None \<Rightarrow> h_curthread (sd_hart st c) = Some t | Some (old, new, nf) \<Rightarrow> new = t)"

lemma executes_on: "executes st sw c t \<longleftrightarrow> on_hart (core_of st) sw c = Some t"
  by (auto simp: executes_def on_hart_def split: option.split)


lemma single_execution:
  assumes "sched_ok E (on_hart (core_of st) sw) (core_of st)" "executes st sw c t" "executes st sw c' t"
  shows "c = c'"
  using assms unfolding sched_ok_def harts_ok_def executes_on by blast


section \<open>The first state of a run\<close>




section \<open>The next thread\<close>

lemma pick_from_queue:
  assumes ok: "sched_ok E on (core_of st)" and pick: "sched_pick_from_cpu_locked c st = (Some t, st')"
  shows "t_link (sd_thread st t) = Some (DlQ c) \<or> (\<exists>p. t_link (sd_thread st t) = Some (RunQ c p))"
proof (cases "sched_dl_pick_next c st")
  case (Pair best st1)
  show ?thesis
  proof (cases best)
    case None
    then have st1: "st1 = st" using dl_pick_core [OF ok, of c] Pair by simp
    let ?sel = "\<lambda>p. list_head_of (sd_queue st (RunQ c p))"
    obtain p where "runq_scan ?sel (sd_bitmap st c) = Some (p, t)"
      using pick Pair None st1 by (auto simp: sched_pick_from_cpu_locked_def split: option.splits)
    then have "?sel p = Some t" using runq_scan_spec [where sel = ?sel and bm = "sd_bitmap st c"] by simp
    then show ?thesis using head_linked [OF ok] by blast
  next
    case (Some u)
    then show ?thesis using dl_pick_core [OF ok, of c] Pair pick by (simp add: sched_pick_from_cpu_locked_def)
  qed
qed

lemma pick_from_ok:
  assumes ok: "sched_ok E on (core_of st)" and pick: "sched_pick_from_cpu_locked c st = (picked, st')"
  obtains E' where "sched_ok E' on (core_of st')" "\<And>t. picked = Some t \<Longrightarrow> queued t (core_of st)"
    "\<And>t. queued t (core_of st') \<Longrightarrow> queued t (core_of st)"
proof (cases picked)
  case None
  then have "st' = st" using pick_from_core [OF ok, of c] pick by simp
  then show thesis using that [of E] ok None by simp
next
  case (Some u)
  then have u: "queued u (core_of st)" "core_of st' = k_del u (core_of st)" using pick_from_core [OF ok, of c] pick by simp_all
  show thesis
  proof (rule that [of "insert u E"])
    show "sched_ok (insert u E) on (core_of st')" unfolding u(2) by (rule ok_del [OF ok])
    show "queued t (core_of st)" if "picked = Some t" for t using that Some u(1) by simp
    show "queued t (core_of st)" if "queued t (core_of st')" for t using queued_del that unfolding u(2) by blast
  qed
qed

lemma pick_from_other:
  assumes ok: "sched_ok E on (core_of st)" and pick: "sched_pick_from_cpu_locked c st = (picked, st')" and i: "i \<noteq> c"
  shows "sd_queue st' (RunQ i p) = sd_queue st (RunQ i p)"
proof (cases picked)
  case None
  then show ?thesis using pick_from_core [OF ok, of c] pick by simp
next
  case (Some t)
  then have t: "core_of st' = k_del t (core_of st)" using pick_from_core [OF ok, of c] pick by simp
  have "k_link (core_of st) t \<noteq> Some (RunQ i p)" using pick_from_queue [OF ok, of c t st'] pick Some i by auto
  then have "k_queue (core_of st') (RunQ i p) = k_queue (core_of st) (RunQ i p)"
    unfolding t by (auto simp: k_del_def split: option.split)
  then show ?thesis by simp
qed

lemma pick_from_keeps:
  assumes "sched_pick_from_cpu_locked c st = (picked, st')"
  shows "sd_hart st' = sd_hart st" "t_affinity (sd_thread st' t) = t_affinity (sd_thread st t)" "t_prio (sd_thread st' t) = t_prio (sd_thread st t)"
  using assms by (auto simp: sched_pick_from_cpu_locked_def sched_dl_pick_next_def sched_dequeue_task_locked_def list_del_init_def
      upd_thread_def bitmap_clear_def Let_def split: if_splits option.splits)

lemma steal_prio:
  assumes ok: "sched_ok E on (core_of st)"
  shows "sched_steal locks c is' st = (Some t, st') \<Longrightarrow> 0 < t_prio (sd_thread st t) \<and> t_prio (sd_thread st' t) = t_prio (sd_thread st t)"
proof (induction is')
  case (Cons i is')
  let ?sel = "\<lambda>p. first_migratable st (sd_queue st (RunQ i p))"
  show ?case
  proof (cases "sched_steal locks c (i # is') st = sched_steal locks c is' st")
    case True
    then show ?thesis using Cons by simp
  next
    case False
    then obtain p where p: "runq_scan ?sel (sd_bitmap st i AND NOT 1) = Some (p, t)"
        and st': "st' = (if sd_queue (list_del_init t st) (RunQ i p) = [] then bitmap_clear i p (list_del_init t st) else list_del_init t st)"
      using Cons.prems by (auto simp: Let_def split: if_splits option.splits)
    have "bit (sd_bitmap st i AND NOT (push_bit 0 1)) p" "?sel p = Some t"
      using runq_scan_spec [where sel = ?sel and bm = "sd_bitmap st i AND NOT 1"] p by simp_all
    then have "0 < p" "t \<in> set (sd_queue st (RunQ i p))"
      using bit_and_not_push [of "sd_bitmap st i" 0 p] by (auto simp: first_migratable_def find_Some_iff)
    moreover have "t_prio (sd_thread st t) = p" using runq_prio [OF ok list_member_link [OF ok]] calculation(2) by blast
    ultimately show ?thesis by (simp add: st' list_del_init_def upd_thread_def bitmap_clear_def split: option.split)
  qed
qed simp

text \<open>A hart that ends up with an idle thread, or with none, had nothing to steal.\<close>

lemma pick_next_complete:
  assumes ok: "sched_ok E on (core_of st)" and pick: "sched_pick_next_local locks c st = (picked, st')"
    and idle: "\<And>t. picked = Some t \<Longrightarrow> t_prio (sd_thread st t) = SCHED_PRIO_IDLE"
    and i: "i < MAX_CPUS" "i \<noteq> c" "h_online (sd_hart st i)" "locks i" and u: "u \<in> set (sd_queue st (RunQ i p))" "0 < p"
  shows "t_affinity (sd_thread st u) \<noteq> None"
proof -
  obtain own st1 where own: "sched_pick_from_cpu_locked c st = (own, st1)" by (cases "sched_pick_from_cpu_locked c st")
  obtain stolen st2 where steal: "sched_steal locks c [0..<MAX_CPUS] st1 = (stolen, st2)"
    by (cases "sched_steal locks c [0..<MAX_CPUS] st1")
  note keeps = pick_from_keeps [OF own]
  obtain E1 where ok1: "sched_ok E1 on (core_of st1)" by (rule pick_from_ok [OF ok own])
  have busy: "\<not> (case own of None \<Rightarrow> False | Some t \<Rightarrow> t_prio (sd_thread st1 t) > SCHED_PRIO_IDLE)"
  proof
    assume busy: "case own of None \<Rightarrow> False | Some t \<Rightarrow> t_prio (sd_thread st1 t) > SCHED_PRIO_IDLE"
    then have "picked = own" using pick own by (simp add: sched_pick_next_local_def)
    then show False using busy idle keeps(3) by (auto split: option.splits)
  qed
  have "stolen = None"
  proof (rule ccontr)
    assume "stolen \<noteq> None"
    then obtain t where t: "stolen = Some t" by blast
    then have "picked = Some t" using pick own steal busy by (auto simp: sched_pick_next_local_def split: option.splits)
    then show False using idle [of t] steal_prio [OF ok1 steal [unfolded t]] keeps(3) by simp
  qed
  then have none: "sched_steal locks c [0..<MAX_CPUS] st1 = (None, st2)" using steal by simp
  have "t_affinity (sd_thread st1 u) \<noteq> None"
    by (rule steal_complete [OF ok1 none, of i u p]) (use i u keeps(1) pick_from_other [OF ok own i(2)] in simp_all)
  then show ?thesis using keeps(2) by simp
qed

section \<open>Properties\<close>





section \<open>The assertions of a debug build\<close>

lemma expected_bitmap_bit: "bit (expected_bitmap c st) p \<longleftrightarrow> p < CONFIG_SCHED_NPRIO \<and> sd_queue st (RunQ c p) \<noteq> []"
proof -
  have "bit (fold (\<lambda>p bm. if sd_queue st (RunQ c p) \<noteq> [] then bm OR push_bit p 1 else bm) ps (bm :: u32)) i \<longleftrightarrow>
      bit bm i \<or> i \<in> set ps \<and> sd_queue st (RunQ c i) \<noteq> []" if "\<forall>p \<in> set ps. p < 32" for ps bm i
    using that by (induction ps arbitrary: bm) (auto simp: bit_or_push simp del: push_bit_of_1)
  then show ?thesis by (simp add: expected_bitmap_def)
qed

text \<open>
  After a switch the checks of the new thread hold, provided no other hart is between its two steps. A hart that is still has the
  thread it leaves as its \<^verbatim>\<open>curthread\<close>, although it already gave it away.
\<close>

lemma sched_checks_pass:
  assumes run: "sched_run (st, sw)" and sw: "sw c = Some (old, t, nf)" and alone: "\<And>i. i \<noteq> c \<Longrightarrow> sw i = None"
  shows "sched_check_invariants t c (sched_commit_phase c old nf t st)"
proof -
  let ?st = "sched_commit_phase c old nf t st" and ?sw = "sw(c := None)"
  have "sched_run (?st, ?sw)" by (rule run_step [OF run commit]) (rule sw)
  then have ok: "sched_ok {} (on_hart (core_of ?st) ?sw) (core_of ?st)" by (rule run_queues)
  have cur: "k_cur (core_of ?st) c = Some t" "k_state (core_of ?st) t = TD_STATE_RUNNING" by (simp_all only: core_commit) simp_all
  have "h_curthread (sd_hart ?st i) \<noteq> Some t" if "i \<noteq> c" for i
    using single_execution [OF ok, of i t c] cur(1) alone [OF that] that by (auto simp: executes_def)
  moreover have "t_state (sd_thread ?st u) = TD_STATE_READY" if "u \<in> set (sd_queue ?st (RunQ c p))" for u p
    using runq_member(1) [OF ok that] .
  moreover have "sd_bitmap ?st c = expected_bitmap c ?st"
  proof (rule bit_eqI)
    fix p
    have "bit (sd_bitmap ?st c) p \<longleftrightarrow> sd_queue ?st (RunQ c p) \<noteq> []" using ok by (simp add: sched_ok_def bitmap_ok_def)
    moreover have "p < CONFIG_SCHED_NPRIO" if "sd_queue ?st (RunQ c p) \<noteq> []"
    proof -
      obtain u where "u \<in> set (sd_queue ?st (RunQ c p))" using \<open>sd_queue ?st (RunQ c p) \<noteq> []\<close> by (cases "sd_queue ?st (RunQ c p)") auto
      then have "k_prio (core_of ?st) u = p" using runq_member(2) [OF ok] by simp
      moreover have "k_prio (core_of ?st) u < CONFIG_SCHED_NPRIO" using ok by (simp add: sched_ok_def linked_ok_def)
      ultimately show ?thesis by simp
    qed
    ultimately show "bit (sd_bitmap ?st c) p \<longleftrightarrow> bit (expected_bitmap c ?st) p" by (auto simp: expected_bitmap_bit)
  qed
  ultimately show ?thesis using cur(2) by (auto simp: sched_check_invariants_def list_all_iff)
qed

section \<open>Outside the rules of a run\<close>

text \<open>
  A thread marks itself blocked and is woken before its hart has switched away from it. It is then ready on that hart's run queue while it
  still executes there, and an idle hart takes it up as well: after the switch two harts execute it.
\<close>

lemma leaf_same:
  "sd_hart (set_callout me c ticks f x st) = sd_hart st" "sd_thread (set_callout me c ticks f x st) = sd_thread st"
  "sd_hart (set_need_resched c st) = sd_hart st" "sd_thread (set_need_resched c st) = sd_thread st"
  "sd_hart (set_preempt_deadline c d st) = sd_hart st" "sd_thread (set_preempt_deadline c d st) = sd_thread st"
  "sd_hart (snd (time_rdtime st)) = sd_hart st" "sd_thread (snd (time_rdtime st)) = sd_thread st"
  "sd_hart (upd_co f' st) = sd_hart st" "sd_thread (upd_co f' st) = sd_thread st"
  "sd_hart (bitmap_set c p st) = sd_hart st" "sd_thread (bitmap_set c p st) = sd_thread st"
  by (simp_all add: set_need_resched_def set_preempt_deadline_def set_callout_def bitmap_set_def time_rdtime_def upd_co_def upd_hart_def Let_def)

lemma affinity_same:
  "sd_hart (list_add_tail q t st) = sd_hart st" "t_affinity (sd_thread (list_add_tail q t st) u) = t_affinity (sd_thread st u)"
  "sd_hart (sched_set_task_state t s st) = sd_hart st" "t_affinity (sd_thread (sched_set_task_state t s st) u) = t_affinity (sd_thread st u)"
  "sd_hart (tick_restart me c cur p st) = sd_hart st" "sd_thread (tick_restart me c cur p st) = sd_thread st"
  "sd_hart (remote_kick me t c st) = sd_hart st" "sd_thread (remote_kick me t c st) = sd_thread st"
  by (simp_all add: list_add_tail_def sched_set_task_state_def tick_restart_def remote_kick_def upd_thread_def case_prod_beta Let_def leaf_same)

lemma enqueue_same:
  "sd_hart (sched_enqueue_cpu_locked me t c st) = sd_hart st"
  "t_affinity (sd_thread (sched_enqueue_cpu_locked me t c st) u) = t_affinity (sd_thread st u)"
  by (simp_all add: sched_enqueue_cpu_locked_def sched_dl_enqueue_def Let_def leaf_same affinity_same split: option.split)

lemma wake_ready_same:
  "sd_hart (sched_wake_ready me t st) = sd_hart st" "t_affinity (sd_thread (sched_wake_ready me t st) u) = t_affinity (sd_thread st u)"
  by (simp_all add: sched_wake_ready_def sched_enqueue_ready_def sched_note_wakeup_def case_prod_beta Let_def enqueue_same decay_thread
      leaf_same affinity_same upd_thread_def)

lemma pick_next_queued:
  assumes ok: "sched_ok E on (core_of st)" and pick: "sched_pick_next_local locks c st = (Some t, st')"
  shows "queued t (core_of st)"
proof -
  obtain own st1 where own: "sched_pick_from_cpu_locked c st = (own, st1)" by (cases "sched_pick_from_cpu_locked c st")
  obtain stolen st2 where steal: "sched_steal locks c [0..<MAX_CPUS] st1 = (stolen, st2)"
    by (cases "sched_steal locks c [0..<MAX_CPUS] st1")
  obtain E1 where ok1: "sched_ok E1 on (core_of st1)" "own = Some t \<Longrightarrow> queued t (core_of st)"
      "queued t (core_of st1) \<Longrightarrow> queued t (core_of st)" using pick_from_ok [OF ok own] by metis
  have "stolen = Some t \<Longrightarrow> queued t (core_of st1)" using steal_core [OF ok1(1), of locks c "[0..<MAX_CPUS]"] steal by simp
  moreover have "own = Some t \<or> stolen = Some t"
    using pick own steal by (auto simp: sched_pick_next_local_def simp del: sched_steal.simps upt_conv_Cons split: if_splits option.splits)
  ultimately show ?thesis using ok1(2,3) by blast
qed

lemma early_wake_queued:
  assumes t: "t_link (sd_thread st t) = None" "t_affinity (sd_thread st t) = None" "t_last_cpu (sd_thread st t) = Some a"
      "h_online (sd_hart st a)" "\<not> is_dl t st" "t_domain (sd_thread st t) = None"
  shows "core_of (sched_wake_ready me t st) =
    k_add (RunQ a (t_prio (sd_thread st t))) t (k_set t TD_STATE_READY (k_set t TD_STATE_READY (core_of st)))"
proof -
  let ?st = "sched_note_wakeup t (sched_set_task_state t TD_STATE_READY st)"
  have "\<not> is_dl t ?st" "\<not> domain_depleted t ?st" "sched_select_cpu me t ?st = a"
    using t by (simp_all add: is_dl_def domain_depleted_def sched_select_cpu_def sched_note_wakeup_def sched_set_task_state_def
        time_rdtime_def upd_thread_def Let_def)
  then show ?thesis unfolding core_wake_ready using t(1) by (simp add: k_enqueue_def)
qed

lemma early_wake_runs_twice:
  assumes ok: "sched_ok {} on (core_of st)" and a: "on a = Some t" "h_curthread (sd_hart st a) = Some t" "a < MAX_CPUS" "a \<noteq> b"
    and t: "t_link (sd_thread st t) = None" "t_affinity (sd_thread st t) = None" "t_last_cpu (sd_thread st t) = Some a"
      "h_online (sd_hart st a)" "\<not> is_dl t st" "t_domain (sd_thread st t) = None" "0 < t_prio (sd_thread st t)"
    and rest: "\<And>i p. 0 < p \<Longrightarrow> sd_queue st (RunQ i p) = []" "\<And>i. sd_queue st (DlQ i) = []"
    and b: "locks a" "sched_pick_next_local locks b (sched_wake_ready me t st) = (Some u, st')"
  shows "u = t \<and> (\<forall>old nf. h_curthread (sd_hart (sched_commit_phase b old nf u st') b) = Some t) \<and>
    h_curthread (sd_hart (sched_wake_ready me t st) a) = Some t"
proof -
  let ?st = "sched_wake_ready me t st"
  note woken = early_wake_queued [OF t(1-6), of me]
  have left: "sched_ok {t} (on(a := None)) (core_of st)" "Some t \<notin> range (on(a := None))" using ok_leave [OF ok a(1)] by simp_all
  have "sched_ok {t} (on(a := None)) (k_set t TD_STATE_READY (k_set t TD_STATE_READY (core_of st)))"
    using ok_set [OF ok_set [OF left(1), of t TD_STATE_READY], of t TD_STATE_READY] t(1) by simp
  then have "sched_ok {} (on(a := None)) (k_enqueue False False a t (k_set t TD_STATE_READY (k_set t TD_STATE_READY (core_of st))))"
    by (rule ok_enqueue [OF _ left(2)]) simp
  then have ok': "sched_ok {} (on(a := None)) (core_of ?st)" unfolding woken using t(1) by (simp add: k_enqueue_def k_set_def k_add_def)
  have queue: "sd_queue ?st q = (if q = RunQ a (t_prio (sd_thread st t)) then sd_queue st q @ [t] else sd_queue st q)" for q
  proof -
    have "k_queue (core_of ?st) q = (if q = RunQ a (t_prio (sd_thread st t)) then sd_queue st q @ [t] else sd_queue st q)"
      unfolding woken by (simp add: k_add_def)
    then show ?thesis by simp
  qed
  have "queued u (core_of ?st)" by (rule pick_next_queued [OF ok' b(2)])
  then obtain c p where "u \<in> set (sd_queue ?st (RunQ c p)) \<or> u \<in> set (sd_queue ?st (DlQ c))"
    using ok' by (auto simp: queued_def sched_ok_def lists_ok_def)
  then have "u \<in> set (sd_queue ?st (RunQ c p))" using queue rest(2) by simp
  then have "u = t \<or> p = 0" "t_prio (sd_thread ?st u) = p"
    using queue rest(1) [of p c] runq_member(2) [OF ok'] by (auto split: if_splits)
  then have u: "u = t \<or> t_prio (sd_thread ?st u) = SCHED_PRIO_IDLE" by auto
  have "u = t"
  proof (rule ccontr)
    assume "u \<noteq> t"
    then have "t_affinity (sd_thread ?st t) \<noteq> None"
      using pick_next_complete [OF ok' b(2), of a t "t_prio (sd_thread st t)"] u a(3,4) b(1) t(4,7) queue by (simp add: wake_ready_same)
    then show False using t(2) by (simp add: wake_ready_same)
  qed
  moreover have "k_cur (core_of (sched_commit_phase b old nf u st')) b = Some u" for old nf by (simp only: core_commit) simp
  ultimately show ?thesis using a(2) by (simp add: wake_ready_same)
qed

text \<open>
  The choice does not read the state of the threads: one that another thread marked as terminating while it was queued is taken up like
  any other, and then runs again.
\<close>

lemma killed_same:
  fixes st :: sched
  assumes "st' = sched_set_task_state t s st"
  shows "sd_hart st' = sd_hart st" "sd_queue st' = sd_queue st" "sd_bitmap st' = sd_bitmap st" "sd_dl_count st' = sd_dl_count st"
    "t_affinity (sd_thread st' u) = t_affinity (sd_thread st u)" "t_dl (sd_thread st' u) = t_dl (sd_thread st u)"
    "t_prio (sd_thread st' u) = t_prio (sd_thread st u)" "t_link (sd_thread st' u) = t_link (sd_thread st u)"
  using assms by (simp_all add: sched_set_task_state_def upd_thread_def)

lemma killed_thread_picked:
  "fst (sched_pick_from_cpu_locked c (sched_set_task_state t TD_STATE_TERMINATING st)) = fst (sched_pick_from_cpu_locked c st)"
  for st :: sched
  by (simp add: sched_pick_from_cpu_locked_def sched_dl_pick_next_def Let_def killed_same [OF refl] split: option.split)

lemma picked_runs: "t_state (sd_thread (sched_commit_phase c old nf t st) t) = TD_STATE_RUNNING"
proof -
  have "k_state (core_of (sched_commit_phase c old nf t st)) t = TD_STATE_RUNNING" by (simp only: core_commit) simp
  then show ?thesis by simp
qed

end
