(* ===== verification/Sched_Admission.thy ===== *)
theory Sched_Admission
  imports Complex_Main Sched_Core
begin

text \<open>
  Admission control of the deadline scheduler: what the accounting of \<^verbatim>\<open>kernel/sched/deadline.c\<close> says about the admitted threads,
  whatever order parameters are set, cleared, charged and replenished in.
\<close>

named_theorems dl_same

section \<open>Parameters and accounts\<close>

record dl_view =
  v_dl :: "nat \<Rightarrow> bool"
  v_runtime :: "nat \<Rightarrow> u64"
  v_deadline :: "nat \<Rightarrow> u64"
  v_period :: "nat \<Rightarrow> u64"
  v_total :: u64
  v_admitted :: u32
  v_from_us :: freq_frac

definition view :: "'z sched_scheme \<Rightarrow> dl_view" where
  "view st = \<lparr>v_dl = (\<lambda>t. is_dl t st), v_runtime = (\<lambda>t. dl_runtime (t_dl (sd_thread st t))), v_deadline = (\<lambda>t. dl_deadline (t_dl (sd_thread st t))),
     v_period = (\<lambda>t. dl_period (t_dl (sd_thread st t))), v_total = sd_dl_total_util st, v_admitted = sd_dl_nr_admitted st, v_from_us = sd_from_us st\<rparr>"

lemma view_leaf [dl_same]:
  "view (snd (time_rdtime st)) = view st" "view (upd_co f st) = view st" "view (set_need_resched c st) = view st"
  "view (set_preempt_deadline c d st) = view st" "view (bitmap_set c p st) = view st" "view (bitmap_clear c p st) = view st"
  "view (sched_set_task_state t s st) = view st" "view (list_add_tail q t st) = view st" "view (list_del_init t st) = view st"
  "view (st\<lparr>sd_dl_count := n\<rparr>) = view st" "view (st\<lparr>sd_dl_misses := m\<rparr>) = view st" "view (st\<lparr>sd_dl_throttles := m\<rparr>) = view st"
  "view (st\<lparr>sd_dl_replenishments := m\<rparr>) = view st" "view (st\<lparr>sd_clock := ck\<rparr>) = view st"
  by (simp_all add: view_def is_dl_def time_rdtime_def upd_co_def set_need_resched_def set_preempt_deadline_def bitmap_set_def bitmap_clear_def
      sched_set_task_state_def list_add_tail_def list_del_init_def upd_thread_def upd_hart_def fun_eq_iff split: option.split)

lemma view_upd [dl_same]:
  assumes "\<And>td. t_policy (f td) = t_policy td" "\<And>td. dl_active (t_dl (f td)) = dl_active (t_dl td)"
    "\<And>td. dl_runtime (t_dl (f td)) = dl_runtime (t_dl td)" "\<And>td. dl_deadline (t_dl (f td)) = dl_deadline (t_dl td)"
    "\<And>td. dl_period (t_dl (f td)) = dl_period (t_dl td)"
  shows "view (upd_thread t f st) = view st"
  by (simp add: view_def is_dl_def upd_thread_def assms fun_eq_iff)

lemma view_callout [dl_same]: "view (set_callout me c ticks f x st) = view st"
  by (simp add: set_callout_def case_prod_beta dl_same)

lemma view_missed [dl_same]: "view (dl_deadline_missed t st) = view st"
  by (simp add: dl_deadline_missed_def case_prod_beta dl_same)

lemma view_dl_enqueue [dl_same]: "view (sched_dl_enqueue me t c st) = view st"
  by (simp add: sched_dl_enqueue_def Let_def dl_same split: option.split)

lemma view_restart [dl_same]: "view (tick_restart me c cur p st) = view st" "view (remote_kick me t c st) = view st"
  by (simp_all add: tick_restart_def remote_kick_def case_prod_beta Let_def dl_same)

lemma view_enqueue [dl_same]: "view (sched_enqueue_cpu_locked me t c st) = view st"
  by (simp add: sched_enqueue_cpu_locked_def Let_def dl_same split: option.split)

lemma view_wake [dl_same]: "view (sched_wake_ready me t st) = view st"
  by (simp add: sched_wake_ready_def sched_enqueue_ready_def sched_decay_sleeping_load_def sched_note_wakeup_def case_prod_beta Let_def dl_same)

lemma view_replenish [dl_same]: "view (dl_replenish_cb me t st) = view st"
  by (simp add: dl_replenish_cb_def case_prod_beta Let_def dl_same split: option.split)

lemma view_charge [dl_same]: "view (sched_dl_charge me t delta st) = view st"
  by (simp add: sched_dl_charge_def case_prod_beta Let_def dl_same)

lemma view_pick [dl_same]: "view (snd (sched_dl_pick_next c st)) = view st"
  by (simp add: sched_dl_pick_next_def Let_def dl_same split: option.split)

section \<open>Setting and clearing parameters\<close>

definition v_util :: "dl_view \<Rightarrow> nat \<Rightarrow> u64" where
  "v_util v t = push_bit DL_UTIL_SHIFT (v_runtime v t) div v_period v t"

definition v_drop :: "nat \<Rightarrow> dl_view \<Rightarrow> dl_view" where
  "v_drop t v = (if v_dl v t then v\<lparr>v_dl := (v_dl v)(t := False), v_total := v_total v - v_util v t, v_admitted := v_admitted v - 1\<rparr> else v)"

definition v_put :: "nat \<Rightarrow> u64 \<Rightarrow> u64 \<Rightarrow> u64 \<Rightarrow> dl_view \<Rightarrow> dl_view" where
  "v_put t rt dl pd v = v
     \<lparr>v_dl := (v_dl v)(t := True), v_runtime := (v_runtime v)(t := rt), v_deadline := (v_deadline v)(t := dl), v_period := (v_period v)(t := pd),
      v_total := v_total v + push_bit DL_UTIL_SHIFT rt div pd, v_admitted := v_admitted v + 1\<rparr>"

lemma view_clear: "view (sched_dl_clearattr me t st) = v_drop t (view st)"
  by (simp add: sched_dl_clearattr_def Let_def dl_same)
    (simp add: view_def v_drop_def v_util_def dl_util_def is_dl_def upd_thread_def fun_eq_iff)

lemma view_destroy: "view (sched_dl_task_destroy me t st) = v_drop t (view st)"
  by (simp add: sched_dl_task_destroy_def Let_def dl_same view_clear)

lemma view_new: "\<not> is_dl t st \<Longrightarrow> view (sched_dl_task_init t st) = (view st)
    \<lparr>v_runtime := (v_runtime (view st))(t := 0), v_deadline := (v_deadline (view st))(t := 0), v_period := (v_period (view st))(t := 0)\<rparr>"
  by (simp add: sched_dl_task_init_def Let_def dl_same) (simp add: view_def is_dl_def upd_thread_def fun_eq_iff)

text \<open>The parameters in ticks that \<^verbatim>\<open>sched_dl_setattr\<close> accepts.\<close>

definition v_accept :: "nat \<Rightarrow> u64 \<Rightarrow> u64 \<Rightarrow> u64 \<Rightarrow> dl_view \<Rightarrow> bool" where
  "v_accept t rt dl pd v \<longleftrightarrow> 0 < rt \<and> rt \<le> dl \<and> dl \<le> pd \<and> rt < 2 ^ 44 \<and>
     v_total (v_drop t v) + push_bit DL_UTIL_SHIFT rt div pd \<le> 996147"

definition dl_release :: "nat \<Rightarrow> 'z sched_scheme \<Rightarrow> 'z sched_scheme" where
  "dl_release t st = (if is_dl t st then st\<lparr>sd_dl_total_util := sd_dl_total_util st - dl_util (t_dl (sd_thread st t))\<rparr> else st)"

definition dl_admit :: "nat \<Rightarrow> u64 \<Rightarrow> u64 \<Rightarrow> u64 \<Rightarrow> bool \<Rightarrow> 'z sched_scheme \<Rightarrow> 'z sched_scheme" where
  "dl_admit t rt dl pd already st =
     (let st = st\<lparr>sd_dl_total_util := sd_dl_total_util st + push_bit DL_UTIL_SHIFT rt div pd\<rparr>;
          st = (if already then st else st\<lparr>sd_dl_nr_admitted := sd_dl_nr_admitted st + 1\<rparr>)
      in upd_thread t (\<lambda>td. td
           \<lparr>t_dl := (t_dl td)\<lparr>dl_runtime := rt, dl_deadline := dl, dl_period := pd, dl_remaining := rt,
              dl_abs_deadline := fst (time_rdtime st) + dl, dl_throttled := False, dl_active := True\<rparr>,
            t_policy := SCHED_POLICY_DEADLINE\<rparr>) (snd (time_rdtime st)))"

lemma setattr_eq:
  "sched_dl_setattr t runtime deadline period st =
     (let rt = ns_to_ticks st runtime; dl = ns_to_ticks st deadline; pd = ns_to_ticks st period in
      if runtime = 0 \<or> deadline = 0 \<or> period = 0 \<or> runtime > deadline \<or> deadline > period \<or> rt = 0 \<or> dl = 0 \<or> pd = 0 then (Inl EINVAL, st)
      else if \<not> dl_admission_ok rt pd (dl_release t st) then (Inl EBUSY, st)
      else (Inr (), dl_admit t rt dl pd (is_dl t st) (dl_release t st)))"
  by (simp add: sched_dl_setattr_def dl_release_def dl_admit_def Let_def case_prod_beta)

lemma view_release: "view (dl_admit t rt dl pd (is_dl t st) (dl_release t st)) = v_put t rt dl pd (v_drop t (view st))"
  by (simp add: dl_release_def dl_admit_def view_def is_dl_def upd_thread_def time_rdtime_def v_put_def v_drop_def v_util_def dl_util_def
      Let_def fun_eq_iff)

lemma ns_to_ticks_mono:
  assumes "0 \<le> ff_shift (sd_from_us st)" "a \<le> b"
  shows "ns_to_ticks st a \<le> ns_to_ticks st b"
  using freq_frac_mono [OF assms(1), of "a div 1000" "b div 1000"] assms(2)
  by (simp add: ns_to_ticks_def time_usec_to_ticks_def word_le_nat_alt unat_div div_le_mono)

lemma admission_accept:
  assumes "dl_admission_ok rt pd (dl_release t st)" "0 < rt" "rt \<le> dl" "dl \<le> pd"
  shows "v_accept t rt dl pd (view st)"
proof -
  have "sd_dl_total_util (dl_release t st) = v_total (v_drop t (view st))"
    by (simp add: dl_release_def v_drop_def view_def v_util_def dl_util_def)
  then show ?thesis using assms by (simp add: v_accept_def dl_admission_ok_def Let_def not_le split: if_splits)
qed

lemma view_set:
  assumes mono: "0 \<le> ff_shift (sd_from_us st)"
  shows "view (snd (sched_dl_setattr t runtime deadline period st)) = view st \<or>
    (\<exists>rt dl pd. v_accept t rt dl pd (view st) \<and>
      view (snd (sched_dl_setattr t runtime deadline period st)) = v_put t rt dl pd (v_drop t (view st)))"
proof -
  let ?rt = "ns_to_ticks st runtime" and ?dl = "ns_to_ticks st deadline" and ?pd = "ns_to_ticks st period"
  show ?thesis
  proof (cases "runtime = 0 \<or> deadline = 0 \<or> period = 0 \<or> runtime > deadline \<or> deadline > period \<or> ?rt = 0 \<or> ?dl = 0 \<or> ?pd = 0 \<or>
      \<not> dl_admission_ok ?rt ?pd (dl_release t st)")
    case True
    then have "snd (sched_dl_setattr t runtime deadline period st) = st" unfolding setattr_eq Let_def by auto
    then show ?thesis by simp
  next
    case False
    then have "snd (sched_dl_setattr t runtime deadline period st) = dl_admit t ?rt ?dl ?pd (is_dl t st) (dl_release t st)"
      unfolding setattr_eq Let_def by simp
    moreover have "v_accept t ?rt ?dl ?pd (view st)"
      using False ns_to_ticks_mono [OF mono, of runtime deadline] ns_to_ticks_mono [OF mono, of deadline period]
      by (intro admission_accept) (simp_all add: not_less word_gt_0)
    ultimately show ?thesis using view_release by metis
  qed
qed

section \<open>The accounts\<close>

definition accounts_ok :: "dl_view \<Rightarrow> bool" where
  "accounts_ok v \<longleftrightarrow> finite {t. v_dl v t} \<and> (\<Sum>t | v_dl v t. unat (v_util v t)) = unat (v_total v) \<and> unat (v_total v) \<le> 996147 \<and>
     v_admitted v = of_nat (card {t. v_dl v t}) \<and>
     (\<forall>t. v_dl v t \<longrightarrow> 0 < v_runtime v t \<and> v_runtime v t \<le> v_deadline v t \<and> v_deadline v t \<le> v_period v t \<and> v_runtime v t < 2 ^ 44)"

lemma drop_ok:
  assumes ok: "accounts_ok v"
  shows "accounts_ok (v_drop t v)"
proof (cases "v_dl v t")
  case True
  let ?v = "v_drop t v" and ?S = "{t. v_dl v t}"
  have fin: "finite ?S" "t \<in> ?S" using ok True by (simp_all add: accounts_ok_def)
  have set: "{u. v_dl ?v u} = ?S - {t}" using True by (auto simp: v_drop_def)
  have util: "v_util ?v u = v_util v u" for u by (simp add: v_util_def v_drop_def)
  have sum: "(\<Sum>u \<in> ?S. unat (v_util v u)) = unat (v_util v t) + (\<Sum>u \<in> ?S - {t}. unat (v_util v u))"
    by (rule sum.remove [OF fin])
  have total: "(\<Sum>u \<in> ?S. unat (v_util v u)) = unat (v_total v)" using ok by (simp add: accounts_ok_def)
  then have "v_util v t \<le> v_total v" using sum by (simp add: word_le_nat_alt)
  then have "unat (v_total ?v) = unat (v_total v) - unat (v_util v t)" using True by (simp add: v_drop_def unat_sub)
  moreover have "card ?S = Suc (card (?S - {t}))" by (rule card.remove [OF fin])
  then have "v_admitted v - 1 = of_nat (card (?S - {t}))" using ok by (simp add: accounts_ok_def)
  moreover have "v_admitted ?v = v_admitted v - 1" using True by (simp add: v_drop_def)
  moreover have "v_runtime ?v = v_runtime v" "v_deadline ?v = v_deadline v" "v_period ?v = v_period v" "\<And>u. v_dl ?v u \<Longrightarrow> v_dl v u"
    by (simp_all add: v_drop_def split: if_splits)
  moreover have "unat (v_total v) \<le> 996147"
      "\<And>u. v_dl v u \<Longrightarrow> 0 < v_runtime v u \<and> v_runtime v u \<le> v_deadline v u \<and> v_deadline v u \<le> v_period v u \<and> v_runtime v u < 2 ^ 44"
    using ok unfolding accounts_ok_def by blast+
  ultimately show ?thesis using total sum fin(1) unfolding accounts_ok_def set util by auto
qed (use ok in \<open>simp add: v_drop_def\<close>)

lemma util_unat:
  assumes "rt < (2 :: u64) ^ 44" "rt \<le> pd" "0 < rt"
  shows "unat (push_bit DL_UTIL_SHIFT rt div pd) = unat rt * 2 ^ 20 div unat pd" "unat (push_bit DL_UTIL_SHIFT rt div pd) \<le> 2 ^ 20"
proof -
  have r: "unat rt < 2 ^ 44" using assms(1) by (simp add: word_less_nat_alt)
  then have "unat (push_bit DL_UTIL_SHIFT rt) = unat rt * 2 ^ 20" by (simp add: push_bit_eq_mult unat_word_ariths(2))
  then show eq: "unat (push_bit DL_UTIL_SHIFT rt div pd) = unat rt * 2 ^ 20 div unat pd" by (simp add: unat_div)
  have "unat rt \<le> unat pd" "0 < unat pd" using assms(2,3) by (simp_all add: word_le_nat_alt word_less_nat_alt)
  then have "unat rt * 2 ^ 20 div unat pd \<le> 2 ^ 20 * unat pd div unat pd" by (intro div_le_mono) simp
  then show "unat (push_bit DL_UTIL_SHIFT rt div pd) \<le> 2 ^ 20" using \<open>0 < unat pd\<close> by (simp add: eq)
qed

lemma put_ok:
  assumes ok: "accounts_ok v" and accept: "v_accept t rt dl pd v"
  shows "accounts_ok (v_put t rt dl pd (v_drop t v))"
proof -
  let ?v = "v_drop t v" and ?u = "push_bit DL_UTIL_SHIFT rt div pd" and ?w = "v_put t rt dl pd (v_drop t v)"
  have ok': "accounts_ok ?v" by (rule drop_ok [OF ok])
  have p: "0 < rt" "rt \<le> dl" "dl \<le> pd" "rt < 2 ^ 44" "v_total ?v + ?u \<le> 996147" using accept by (simp_all add: v_accept_def)
  have not: "\<not> v_dl ?v t" by (simp add: v_drop_def)
  have fin: "finite {t. v_dl ?v t}" "t \<notin> {t. v_dl ?v t}" using ok' not by (simp_all add: accounts_ok_def)
  have set: "{u. v_dl ?w u} = insert t {u. v_dl ?v u}" by (auto simp: v_put_def)
  have util: "v_util ?w u = (if u = t then ?u else v_util ?v u)" for u by (simp add: v_util_def v_put_def)
  have "(\<Sum>x | v_dl ?v x. unat (if x = t then ?u else v_util ?v x)) = (\<Sum>x | v_dl ?v x. unat (v_util ?v x))"
    by (rule sum.cong) (use fin(2) in auto)
  then have sum: "(\<Sum>x | v_dl ?w x. unat (v_util ?w x)) = unat ?u + unat (v_total ?v)"
    unfolding set util sum.insert [OF fin] using ok' by (simp add: accounts_ok_def)
  have "unat ?u \<le> 2 ^ 20" "unat (v_total ?v) \<le> 996147"
    using util_unat(2) [of rt pd] p order_trans [OF p(2,3)] ok' by (simp_all add: accounts_ok_def)
  then have total: "unat (v_total ?v + ?u) = unat (v_total ?v) + unat ?u" by (simp add: unat_add_lem [THEN iffD1])
  moreover have "unat (v_total ?v + ?u) \<le> 996147" using p(5) by (simp add: word_le_nat_alt)
  moreover have "v_admitted ?w = of_nat (card {u. v_dl ?w u})"
    unfolding set card_insert_disjoint [OF fin] using ok' by (simp add: accounts_ok_def v_put_def)
  moreover have "v_total ?w = v_total ?v + ?u" by (simp add: v_put_def)
  moreover have "finite {u. v_dl ?w u}" unfolding set using fin(1) by simp
  moreover have "0 < v_runtime ?w u \<and> v_runtime ?w u \<le> v_deadline ?w u \<and> v_deadline ?w u \<le> v_period ?w u \<and> v_runtime ?w u < 2 ^ 44"
    if "v_dl ?w u" for u
    using that p ok' by (auto simp: v_put_def accounts_ok_def split: if_splits)
  ultimately show ?thesis unfolding accounts_ok_def sum by simp
qed

section \<open>Runs\<close>

text \<open>The entry points of the deadline scheduler, and the enqueueing and waking of threads.\<close>

inductive dl_step :: "sched \<Rightarrow> sched \<Rightarrow> bool" where
  set: "dl_step st (snd (sched_dl_setattr t runtime deadline period st))"
| clear: "dl_step st (sched_dl_clearattr me t st)"
| destroy: "dl_step st (sched_dl_task_destroy me t st)"
| new: "\<not> is_dl t st \<Longrightarrow> dl_step st (sched_dl_task_init t st)"
| charge: "dl_step st (sched_dl_charge me t delta st)"
| replenish: "dl_step st (dl_replenish_cb me t st)"
| pick: "dl_step st (snd (sched_dl_pick_next c st))"
| enqueue: "dl_step st (sched_enqueue_cpu_locked me t c st)"
| wake: "dl_step st (sched_wake_ready me t st)"
| clock: "dl_step st (st\<lparr>sd_clock := ck\<rparr>)"

inductive dl_run :: "sched \<Rightarrow> bool" where
  run_init: "(\<And>t. \<not> is_dl t st) \<Longrightarrow> 0 \<le> ff_shift (sd_from_us st) \<Longrightarrow> dl_run (sched_dl_init st)"
| run_step: "dl_run st \<Longrightarrow> dl_step st st' \<Longrightarrow> dl_run st'"

lemma new_ok:
  assumes "accounts_ok v" "\<not> v_dl v t"
  shows "accounts_ok (v\<lparr>v_runtime := (v_runtime v)(t := 0), v_deadline := (v_deadline v)(t := 0), v_period := (v_period v)(t := 0)\<rparr>)"
proof -
  let ?w = "v\<lparr>v_runtime := (v_runtime v)(t := 0), v_deadline := (v_deadline v)(t := 0), v_period := (v_period v)(t := 0)\<rparr>"
  have "(\<Sum>u | v_dl v u. unat (v_util ?w u)) = (\<Sum>u | v_dl v u. unat (v_util v u))"
    by (rule sum.cong) (use assms(2) in \<open>auto simp: v_util_def\<close>)
  then show ?thesis using assms by (auto simp: accounts_ok_def)
qed

lemma dl_step_ok:
  assumes "dl_step st st'" "accounts_ok (view st)" "0 \<le> ff_shift (v_from_us (view st))"
  shows "accounts_ok (view st') \<and> v_from_us (view st') = v_from_us (view st)"
  using assms
proof cases
  case (set t runtime deadline period)
  have mono: "0 \<le> ff_shift (sd_from_us st)" using assms(3) by (simp add: view_def)
  show ?thesis using view_set [OF mono, of t runtime deadline period] put_ok [OF assms(2)] assms(2) unfolding set
    by (auto simp: v_put_def v_drop_def)
next
  case (new t)
  then have "\<not> v_dl (view st) t" by (simp add: view_def)
  then show ?thesis using new_ok [OF assms(2)] unfolding new(1) view_new [OF new(2)] by simp
qed (use assms(2) drop_ok [OF assms(2)] in \<open>simp_all add: dl_same view_clear view_destroy v_drop_def\<close>)

lemma dl_run_ok: "dl_run st \<Longrightarrow> accounts_ok (view st) \<and> 0 \<le> ff_shift (v_from_us (view st))"
proof (induction rule: dl_run.induct)
  case (run_init st)
  then have "\<not> is_dl t (sched_dl_init st)" for t by (simp add: sched_dl_init_def is_dl_def)
  then show ?case using run_init(2) by (simp add: accounts_ok_def view_def sched_dl_init_def)
next
  case (run_step st st')
  then show ?case using dl_step_ok [of st st'] by simp
qed

lemma share_bound:
  fixes r p u :: nat
  assumes "r * 2 ^ 20 < (u + 1) * p" "0 < p"
  shows "real r / real p \<le> (real u + 1) / 2 ^ 20"
proof -
  have "real (r * 2 ^ 20) < real ((u + 1) * p)" using assms(1) by (simp only: of_nat_less_iff)
  then show ?thesis using assms(2) by (simp add: field_simps)
qed

text \<open>
  C5: The deadline scheduler never overbooks: after any sequence of parameter changes, charges, replenishments and wake-ups the booked
  utilisation is the sum over the admitted threads and at most 95 per cent of \<open>2\<^sup>20\<close>, the counter of admitted threads is right, and
  every admitted thread has \<open>0 < runtime \<le> deadline \<le> period\<close>. None of the sums wraps around. With the rounding
  of the fixed-point shares undone, the true utilisation exceeds 95 per cent by less than \<open>2\<^sup>-\<^sup>2\<^sup>0\<close> for each admitted thread.\<close>

theorem dl_admission_bound:
  assumes "dl_run st"
  shows "finite {t. is_dl t st} \<and> (\<Sum>t | is_dl t st. unat (dl_util (t_dl (sd_thread st t)))) = unat (sd_dl_total_util st) \<and>
    unat (sd_dl_total_util st) \<le> 95 * 2 ^ DL_UTIL_SHIFT div 100 \<and> sd_dl_nr_admitted st = of_nat (card {t. is_dl t st}) \<and>
    (is_dl t st \<longrightarrow> 0 < dl_runtime (t_dl (sd_thread st t)) \<and> dl_runtime (t_dl (sd_thread st t)) \<le> dl_deadline (t_dl (sd_thread st t)) \<and>
       dl_deadline (t_dl (sd_thread st t)) \<le> dl_period (t_dl (sd_thread st t))) \<and>
    (\<Sum>t | is_dl t st. real (unat (dl_runtime (t_dl (sd_thread st t)))) / real (unat (dl_period (t_dl (sd_thread st t)))))
      \<le> 95 / 100 + real (card {t. is_dl t st}) / 2 ^ DL_UTIL_SHIFT"
proof -
  let ?v = "view st" and ?S = "{t. is_dl t st}"
  have ok: "accounts_ok ?v" using dl_run_ok [OF assms] by simp
  have v: "v_dl ?v u = is_dl u st" "v_util ?v u = dl_util (t_dl (sd_thread st u))" "v_total ?v = sd_dl_total_util st"
      "v_admitted ?v = sd_dl_nr_admitted st" "v_runtime ?v u = dl_runtime (t_dl (sd_thread st u))"
      "v_deadline ?v u = dl_deadline (t_dl (sd_thread st u))" "v_period ?v u = dl_period (t_dl (sd_thread st u))" for u
    by (simp_all add: view_def v_util_def dl_util_def)
  note facts = ok [unfolded accounts_ok_def v]
  have share: "real (unat (dl_runtime (t_dl (sd_thread st u)))) / real (unat (dl_period (t_dl (sd_thread st u))))
      \<le> (real (unat (dl_util (t_dl (sd_thread st u)))) + 1) / 2 ^ 20" if u: "u \<in> ?S" for u
  proof -
    let ?rt = "dl_runtime (t_dl (sd_thread st u))" and ?pd = "dl_period (t_dl (sd_thread st u))"
    have p: "?rt < 2 ^ 44" "?rt \<le> ?pd" "0 < ?rt" using facts u by (auto intro: order_trans)
    have "0 < unat ?pd" using p by (simp add: word_le_nat_alt word_less_nat_alt)
    then have "unat ?rt * 2 ^ 20 < (unat ?rt * 2 ^ 20 div unat ?pd + 1) * unat ?pd"
      using dividend_less_div_times [of "unat ?pd" "unat ?rt * 2 ^ 20"] by simp
    then have "unat ?rt * 2 ^ 20 < (unat (dl_util (t_dl (sd_thread st u))) + 1) * unat ?pd"
      using util_unat(1) [OF p] by (simp add: dl_util_def)
    then show ?thesis using \<open>0 < unat ?pd\<close> by (rule share_bound)
  qed
  have "(\<Sum>u \<in> ?S. real (unat (dl_runtime (t_dl (sd_thread st u)))) / real (unat (dl_period (t_dl (sd_thread st u)))))
      \<le> (\<Sum>u \<in> ?S. (real (unat (dl_util (t_dl (sd_thread st u)))) + 1) / 2 ^ 20)" by (rule sum_mono) (rule share)
  also have "\<dots> = (real (\<Sum>u \<in> ?S. unat (dl_util (t_dl (sd_thread st u)))) + real (card ?S)) / 2 ^ 20"
    by (simp add: sum_divide_distrib [symmetric] sum.distrib)
  also have "\<dots> \<le> (real 996147 + real (card ?S)) / 2 ^ 20"
  proof (intro divide_right_mono add_right_mono of_nat_mono)
    show "(\<Sum>u \<in> ?S. unat (dl_util (t_dl (sd_thread st u)))) \<le> 996147" using facts by simp
  qed simp
  also have "\<dots> \<le> 95 / 100 + real (card ?S) / 2 ^ 20" by (simp add: field_simps)
  finally show ?thesis using facts by (auto simp del: of_nat_sum)
qed

text \<open>One thread with 10 ms every 20 ms: half of the machine.\<close>

theorem dl_admission_bound_witness:
  "let st = snd (sched_dl_setattr 0 10000000 20000000 20000000 (sched_dl_init boot_state))
   in dl_run st \<and> is_dl 0 st \<and> unat (sd_dl_total_util st) = 2 ^ 19 \<and>
     unat (sd_dl_total_util st) \<le> 95 * 2 ^ DL_UTIL_SHIFT div 100 \<and> sd_dl_nr_admitted st = of_nat (card {t. is_dl t st})"
proof -
  let ?init = "sched_dl_init boot_state" and ?st = "snd (sched_dl_setattr 0 10000000 20000000 20000000 (sched_dl_init boot_state))"
  have "dl_run ?init" by (rule run_init) (simp_all add: is_dl_def boot_state_def boot_thread_def)
  then have run: "dl_run ?st" by (rule run_step) (rule dl_step.set)
  have ticks: "ns_to_ticks ?init 10000000 = 100000" "ns_to_ticks ?init 20000000 = 200000"
    by (simp_all add: ns_to_ticks_def time_usec_to_ticks_def freq_frac_apply_def sched_dl_init_def boot_state_def)
  have "\<not> is_dl 0 ?init" "sd_dl_total_util ?init = 0" by (simp_all add: is_dl_def sched_dl_init_def boot_state_def boot_thread_def)
  then have "sched_dl_setattr 0 10000000 20000000 20000000 ?init = (Inr (), dl_admit 0 100000 200000 200000 False ?init)"
    unfolding setattr_eq Let_def ticks by (simp add: dl_release_def dl_admission_ok_def)
  then have "is_dl 0 ?st" "sd_dl_total_util ?st = 524288"
    using \<open>sd_dl_total_util ?init = 0\<close> by (simp_all add: dl_admit_def is_dl_def upd_thread_def time_rdtime_def Let_def)
  then show ?thesis using run dl_admission_bound [OF run, of 0] unfolding Let_def by simp
qed

end
