(* ===== verification/Spec2Isabelle.thy ===== *)
theory Spec2Isabelle
  imports Cap_Correct Mqueue Posix_Timer Buddy_Correct Ip_Addr Json_Bounds Semaphore Rwlock Barrier Pipe Sched_Correct Sched_Admission
begin

text \<open>
  A verification development for Mazu, a real-time kernel for 64-bit RISC-V machines with several harts. The sources are
  under \<^verbatim>\<open>src/\<close>; every definition that models code carries the name of the C function, macro or structure it translates.

  \<^bold>\<open>How the program is modelled.\<close>
  C structures are records, enumerations are datatypes, integers whose wrap-around matters are words of their width and the others
  are \<open>nat\<close> or \<open>int\<close>. Static arrays and pools are functions from the index; a pointer is the index of an entry, or \<open>None\<close> for the null pointer.
  A function that fails returns a value of \<open>errno + 'a\<close>. A failed assertion, a panic or an endless loop is a value of
  the result type as well. Code between the acquisition and the release of a lock is one step; where a function gives the lock up
  and takes it again, the parts are separate steps of a step relation and other steps may come in between. A call that blocks returns
  \<open>Block\<close>, and resuming it is a step of its own. Clock samples, allocation outcomes, the choice of a trylock and callbacks are arguments.
  Doubly linked lists are HOL lists together with the link each node has. Loops are recursive functions with termination proofs; no
  definition uses fuel.

  \<^bold>\<open>Prelude and contracts.\<close>
  \<open>Mazu_Prelude\<close> has the integer types, error numbers, thread states and shared lemmas. \<open>Counted_Pool\<close> is the contract of
  reference-counted pools, \<open>Ordered_Queue\<close> that of the lists kept in order by insertion; both are locales that the pools and lists of
  the kernel interpret. \<open>Task_Sched\<close> is what the blocking primitives see of the scheduler: task states, waking, and the hook
  that takes a terminated or cancelled task off a primitive.

  \<^bold>\<open>Capabilities\<close> (\<^verbatim>\<open>kernel/proc/cap.c\<close>).
  \<open>Cap_Word\<close> packs slots and handles bit for bit; \<open>Cap_State\<close> has the slots, file descriptions and delegation records; \<open>Cap_Ops\<close> the
  operations. \<open>Cap_Inv\<close> and \<open>Cap_Refs\<close> show that reference counts are exact with a ghost count of the references held by code in progress,
  \<open>Cap_Revoke\<close> and \<open>Cap_Delegation\<close> follow delegated slots, \<open>Capability\<close> puts the operations together as a step relation, and \<open>Cap_Correct\<close>
  states the properties: counts are exact in every run, revocation removes every delegated copy and nothing else, delegation
  only attenuates and is not repeated, tokens denote exactly one slot, stale tokens are refused, teardown ends.

  \<^bold>\<open>Scheduler\<close> (\<^verbatim>\<open>kernel/sched/core.c\<close>, \<^verbatim>\<open>deadline.c\<close>, \<^verbatim>\<open>mixed_crit.c\<close>, the decision at the end of \<^verbatim>\<open>arch/riscv64/trap.c\<close>).
  \<open>Sched_State\<close> is the state: threads, harts, run queues, deadline queues, the list of sleepers, bitmaps, budget domains and the callouts.
  \<open>Sched_Dl\<close>, \<open>Sched_Queue\<close>, \<open>Sched_Domain\<close> and \<open>Sched_Core\<close> are the operations. The switch is a section under the run queue lock
  (\<open>sched_pick_phase\<close>) and the rest (\<open>sched_commit_phase\<close>). \<open>Sched_View\<close> reduces each operation to its effect on states, links and lists,
  \<open>Sched_Inv\<close> has the invariant, \<open>Sched_Pick\<close> the choice of the next thread, \<open>Sched_Run\<close> the runs on several harts. \<open>Sched_Correct\<close>: no thread runs
  twice, none is lost, the bitmaps match the queues, the most urgent thread is chosen and a hart is idle only when there is nothing to steal.
  \<open>Sched_Admission\<close>: the deadline scheduler does not overbook. A run obeys the rules stated in \<open>Sched_Run\<close>.

  \<^bold>\<open>Time\<close> (\<^verbatim>\<open>arch/riscv64/time.c\<close>, \<^verbatim>\<open>kernel/timer/\<close>).
  \<open>Mazu_Time\<close> has the fixed-point conversion of ticks and the merged deadline of a hart; \<open>Callout\<close> the timer queue with its interrupts
  between harts: lists stay ordered and consistent, no armed deadline is missed on its own hart, processing drains what is due.
  \<open>Posix_Timer\<close> is built on callouts and the process table \<open>Proc_Table\<close>.

  \<^bold>\<open>Synchronisation and communication\<close> (\<^verbatim>\<open>kernel/sync/\<close>, \<^verbatim>\<open>kernel/ipc/\<close>, \<^verbatim>\<open>kernel/proc/pipe.c\<close>).
  \<open>Semaphore\<close>, \<open>Rwlock\<close>, \<open>Barrier\<close> and \<open>Pipe\<close> are step relations over callers, timeouts and terminations: tokens are conserved,
  writers exclude everyone, a barrier round completes exactly when all arrived, a pipe is a byte stream. \<open>Sync_Pool\<close> has the handle pools,
  \<open>Mqueue\<close> the message queues, which refine a stable priority queue.

  \<^bold>\<open>Memory\<close> (\<^verbatim>\<open>kernel/mm/\<close>).
  \<open>Buddy_Tiling\<close> is the combinatorics of blocks, \<open>Buddy\<close> the allocator, \<open>Buddy_Size\<close> its size computations, \<open>Buddy_Inv\<close> its invariant and
  \<open>Buddy_Correct\<close> the properties: allocations are disjoint, freeing restores, memory is conserved, failure means there is no block.

  \<^bold>\<open>Text\<close> (\<^verbatim>\<open>lib/\<close>, \<^verbatim>\<open>include/mazu/fmt.h\<close>).
  \<open>Text_Fmt\<close> has the string buffers and the formatter, \<open>Ip_Addr\<close> the addresses and \<open>Json\<close> the parser and emitters; \<open>Json_Correct\<close> and
  \<open>Json_Bounds\<close> show the round trip and the bounds.

  \<^bold>\<open>Bounds.\<close>
  The constants are those of the default configuration: 8 harts, 4 priorities, 32-bit run queue bitmaps, 16-bit counters of slots.
  The choice of the next thread assumes fewer than \<open>2\<^sup>32\<close> queued deadline threads, the width of their counter.

  \<^bold>\<open>Not modelled.\<close>
  Telemetry, tracing and log output. Device drivers, boot, page tables and the trap entry, which act on hardware. The network
  stack, the file systems, the system call layer, signals and program loading, and the programs under \<^verbatim>\<open>user/\<close>: they are
  larger than what is modelled here and only call the components above. Mutexes with priority inheritance, condition variables, futexes and
  wait queues; the effect of a changed priority on a queued thread is outside the runs of \<open>Sched_Run\<close>. Memory ordering:
  steps are sequentially consistent.
\<close>

end
